(* ===== verification/Prelude.thy ===== *)
theory Prelude
  imports Main "HOL-Library.Word"
begin

text \<open>
  Shared vocabulary of the development.

  C strings are HOL strings (lists of 8-bit characters); \<open>c_str\<close> is the part of a
  \<open>std::string\<close> that a C function sees, up to the first NUL.  \<open>tolower\<close>, \<open>stricmp\<close> and
  \<open>strnicmp\<close> (\<open>strcasecmp\<close> and \<open>strncasecmp\<close> on Unix) are the C library's functions in the
  "C" locale.  A C \<open>int\<close> is an Isabelle \<open>int\<close>; where the width of an integer matters
  (unsigned arithmetic that wraps, protocol fields, shifts) the model uses a fixed-width word.
  \<open>c_div\<close> is the truncating division of C.
\<close>

subsection \<open>Integers of C\<close>

definition int_min :: int where "int_min = - (2 ^ 31)"
definition int_max :: int where "int_max = 2 ^ 31 - 1"

definition in_int_range :: "int \<Rightarrow> bool" where
  "in_int_range v \<longleftrightarrow> int_min \<le> v \<and> v \<le> int_max"

definition c_div :: "int \<Rightarrow> int \<Rightarrow> int" where
  "c_div a b = sgn a * sgn b * (\<bar>a\<bar> div \<bar>b\<bar>)"

lemma c_div_nonneg [simp]: "0 \<le> a \<Longrightarrow> 0 < b \<Longrightarrow> c_div a b = a div b"
  by (cases "a = 0") (simp_all add: c_div_def)

lemma signed_take_bit_31_in_range: "in_int_range (signed_take_bit 31 (v::int))"
  using signed_take_bit_int_less_exp [of 31 v] signed_take_bit_int_greater_eq_minus_exp [of 31 v]
  by (simp add: in_int_range_def int_min_def int_max_def)

lemma signed_take_bit_31_id: "in_int_range v \<Longrightarrow> signed_take_bit 31 v = (v::int)"
  by (simp add: in_int_range_def int_min_def int_max_def signed_take_bit_int_eq_self)

subsection \<open>C strings\<close>

definition c_str :: "string \<Rightarrow> string" where
  "c_str s = takeWhile (\<lambda>c. c \<noteq> CHR 0x00) s"

definition tolower :: "char \<Rightarrow> char" where
  "tolower c = (let n = (of_char c :: nat) in
     if 65 \<le> n \<and> n \<le> 90 then char_of (n + 32) else c)"

definition toupper :: "char \<Rightarrow> char" where
  "toupper c = (let n = (of_char c :: nat) in
     if 97 \<le> n \<and> n \<le> 122 then char_of (n - 32) else c)"

text \<open>\<open>!stricmp(a,b)\<close>: equality up to case.\<close>

definition stricmp_eq :: "string \<Rightarrow> string \<Rightarrow> bool" where
  "stricmp_eq a b \<longleftrightarrow> map tolower (c_str a) = map tolower (c_str b)"

text \<open>\<open>!strnicmp(a,b,n)\<close>: equality of the first \<open>n\<close> characters up to case.\<close>

definition strnicmp_eq :: "string \<Rightarrow> string \<Rightarrow> nat \<Rightarrow> bool" where
  "strnicmp_eq a b n \<longleftrightarrow> map tolower (take n (c_str a)) = map tolower (take n (c_str b))"

lemma c_str_no_nul [simp]: "CHR 0x00 \<notin> set s \<Longrightarrow> c_str s = s"
  by (auto simp: c_str_def takeWhile_eq_all_conv)

lemma c_str_idem [simp]: "c_str (c_str s) = c_str s"
  by (simp add: c_str_def)

lemma stricmp_eq_refl [simp]: "stricmp_eq s s"
  by (simp add: stricmp_eq_def)

lemma stricmp_eq_sym: "stricmp_eq a b \<longleftrightarrow> stricmp_eq b a"
  by (auto simp: stricmp_eq_def)

lemma stricmp_eq_trans: "stricmp_eq a b \<Longrightarrow> stricmp_eq b c \<Longrightarrow> stricmp_eq a c"
  by (simp add: stricmp_eq_def)

text \<open>\<open>std::string::rfind\<close> of one character and of two characters: the last position.\<close>

fun rfind_char :: "char \<Rightarrow> string \<Rightarrow> nat option" where
  "rfind_char c [] = None"
| "rfind_char c (x # xs) =
     (case rfind_char c xs of Some p \<Rightarrow> Some (Suc p) | None \<Rightarrow> if x = c then Some 0 else None)"

fun rfind_two :: "char \<Rightarrow> char \<Rightarrow> string \<Rightarrow> nat option" where
  "rfind_two c d (x # y # xs) =
     (case rfind_two c d (y # xs) of Some p \<Rightarrow> Some (Suc p)
      | None \<Rightarrow> if x = c \<and> y = d then Some 0 else None)"
| "rfind_two c d _ = None"

lemma rfind_char_None [simp]: "rfind_char c s = None \<longleftrightarrow> c \<notin> set s"
  by (induction s) (auto split: option.splits)

lemma rfind_char_notin [simp]: "c \<notin> set s \<Longrightarrow> rfind_char c s = None"
  by simp

lemma rfind_char_Some:
  "rfind_char c s = Some p \<Longrightarrow> p < length s \<and> s ! p = c \<and> c \<notin> set (drop (Suc p) s)"
  by (induction s arbitrary: p) (auto split: option.splits if_splits)

lemma rfind_char_append_notin: "c \<notin> set b \<Longrightarrow> rfind_char c (a @ c # b) = Some (length a)"
  by (induction a) simp_all

lemma rfind_two_None_notin: "d \<notin> set s \<Longrightarrow> rfind_two c d s = None"
  by (induction c d s rule: rfind_two.induct) auto

lemma rfind_two_append_notin:
  "d \<notin> set b \<Longrightarrow> c \<noteq> d \<Longrightarrow> rfind_two c d (a @ c # d # b) = Some (length a)"
proof (induction a)
  case Nil
  then show ?case
    by (cases b) (auto simp: rfind_two_None_notin)
next
  case (Cons x a)
  then show ?case by (cases a) auto
qed

subsection \<open>Counting and removing in lists\<close>

lemma length_filter_append1: "length (filter P (xs @ [x])) = length (filter P xs) + (if P x then 1 else 0)"
  by simp

lemma length_filter_remove1:
  "x \<in> set xs \<Longrightarrow> length (filter P (remove1 x xs)) = length (filter P xs) - (if P x then 1 else 0)"
proof (induction xs)
  case (Cons a xs)
  show ?case
  proof (cases "a = x")
    case False
    with Cons.prems have "x \<in> set xs" by simp
    with Cons.IH have IH: "length (filter P (remove1 x xs)) = length (filter P xs) - (if P x then 1 else 0)" .
    have "P x \<Longrightarrow> 0 < length (filter P xs)"
      using \<open>x \<in> set xs\<close> by (metis filter_empty_conv length_greater_0_conv)
    with False IH show ?thesis by auto
  qed simp
qed simp

lemma length_filter_pos: "x \<in> set xs \<Longrightarrow> P x \<Longrightarrow> 0 < length (filter P xs)"
  by (metis filter_empty_conv length_greater_0_conv)

end
