(* ===== verification/Algo.thy ===== *)
theory Algo
  imports Prelude
begin

text \<open>
  The templates of \<open>src/src/com/xtllib/xtl_algo.h\<close>: \<open>min\<close>, \<open>max\<close>, \<open>fit\<close>, \<open>sgn\<close>,
  \<open>abs\<close>, \<open>search\<close> and \<open>find\<close>.  Iterators are offsets into a memory \<open>rd\<close>; the null
  iterator that \<open>search\<close> returns for "not found" is offset 0.
\<close>

definition xtl_max :: "'a::linorder \<Rightarrow> 'a \<Rightarrow> 'a" where
  "xtl_max v1 v2 = (if v1 > v2 then v1 else v2)"

definition xtl_min :: "'a::linorder \<Rightarrow> 'a \<Rightarrow> 'a" where
  "xtl_min v1 v2 = (if v1 < v2 then v1 else v2)"

definition fit :: "'a::linorder \<Rightarrow> 'a \<Rightarrow> 'a \<Rightarrow> 'a" where
  "fit v vmin vmax = (if v < vmin then vmin else if v > vmax then vmax else v)"

definition xtl_sgn :: "int \<Rightarrow> int" where
  "xtl_sgn v = (if v < 0 then -1 else 1)"

definition xtl_abs :: "int \<Rightarrow> int" where
  "xtl_abs v = (if v < 0 then v * (-1) else v)"

text \<open>The inner loop of \<open>search\<close>: the iterators where the comparison stops.\<close>

function search_match :: "(nat \<Rightarrow> 'a) \<Rightarrow> nat \<Rightarrow> nat \<Rightarrow> nat \<Rightarrow> nat \<Rightarrow> nat \<times> nat" where
  "search_match rd curr1 last1 curr2 last2 =
     (if curr2 < last2 \<and> curr1 < last1 then
        if rd curr2 \<noteq> rd curr1 then (curr1, curr2)
        else search_match rd (Suc curr1) last1 (Suc curr2) last2
      else (curr1, curr2))"
  by pat_completeness auto
termination by (relation "measure (\<lambda>(rd, c1, l1, c2, l2). l2 - c2)") auto

declare search_match.simps [simp del]

function search_scan :: "(nat \<Rightarrow> 'a) \<Rightarrow> nat \<Rightarrow> nat \<Rightarrow> nat \<Rightarrow> nat \<Rightarrow> nat" where
  "search_scan rd first1 last1 first2 last2 =
     (if first1 < last1 then
        (let (curr1, curr2) = search_match rd first1 last1 first2 last2 in
         if curr2 = last2 then first1
         else if curr1 = last1 then 0
         else search_scan rd (Suc first1) last1 first2 last2)
      else 0)"
  by pat_completeness auto
termination by (relation "measure (\<lambda>(rd, f1, l1, f2, l2). l1 - f1)") auto

declare search_scan.simps [simp del]

definition search :: "(nat \<Rightarrow> 'a) \<Rightarrow> nat \<Rightarrow> nat \<Rightarrow> nat \<Rightarrow> nat \<Rightarrow> nat" where
  "search rd first1 last1 first2 last2 =
     (if first1 \<le> last1 \<or> first2 \<le> last2 then 0
      else search_scan rd first1 last1 first2 last2)"

text \<open>\<open>find\<close> over the range \<open>xs\<close>: the distance of the result from \<open>first\<close>.\<close>

fun xtl_find :: "'a list \<Rightarrow> 'a \<Rightarrow> nat" where
  "xtl_find [] vl = 0"
| "xtl_find (x # xs) vl = (if x = vl then 0 else Suc (xtl_find xs vl))"

subsection \<open>Facts\<close>

lemma xtl_max_eq [simp]: "xtl_max a b = max a b"
  by (auto simp: xtl_max_def max_def)

lemma xtl_min_eq [simp]: "xtl_min a b = min a b"
  by (auto simp: xtl_min_def min_def)

lemma fit_bounds: "lo \<le> hi \<Longrightarrow> lo \<le> fit v lo hi \<and> fit v lo hi \<le> hi"
  by (auto simp: fit_def)

lemma fit_id: "lo \<le> v \<Longrightarrow> v \<le> hi \<Longrightarrow> fit v lo hi = v"
  by (auto simp: fit_def)

lemma fit_idem: "lo \<le> hi \<Longrightarrow> fit (fit v lo hi) lo hi = fit v lo hi"
  by (auto simp: fit_def)

lemma xtl_abs_eq [simp]: "xtl_abs v = \<bar>v\<bar>"
  by (simp add: xtl_abs_def)

text \<open>The guard of \<open>search\<close> is inverted: no pair of ranges is ever searched.\<close>

lemma search_never_finds: "search rd first1 last1 first2 last2 = 0"
  by (simp add: search_def search_scan.simps)

lemma xtl_find_le: "xtl_find xs v \<le> length xs"
  by (induction xs) auto

lemma xtl_find_found: "v \<in> set xs \<Longrightarrow> xtl_find xs v < length xs \<and> xs ! xtl_find xs v = v"
  by (induction xs) auto

lemma xtl_find_missing: "v \<notin> set xs \<Longrightarrow> xtl_find xs v = length xs"
  by (induction xs) auto

lemma xtl_find_first: "v \<notin> set (take (xtl_find xs v) xs)"
  by (induction xs) auto

end
