(* ===== verification/Text.thy ===== *)
theory Text
  imports Algo
begin

text \<open>
  The string helpers of \<open>src/src/com/xtllib/xtl_string.h\<close> and the path helpers of
  \<open>src/src/com/xtllib/xtl_utils.h\<close>.

  \<open>atoi\<close> is the C library's: white space, an optional sign, digits.  Out of the range of
  \<open>int\<close> C leaves it undefined; \<open>stoi\<close> follows glibc on 64-bit Unix, which saturates in
  \<open>long\<close> and truncates to \<open>int\<close>, so its result is always an \<open>int\<close>.
\<close>

subsection \<open>Numbers\<close>

definition is_space :: "char \<Rightarrow> bool" where
  "is_space c \<longleftrightarrow> c \<in> {CHR '' '', CHR 0x09, CHR 0x0A, CHR 0x0B, CHR 0x0C, CHR 0x0D}"

definition is_digit :: "char \<Rightarrow> bool" where
  "is_digit c \<longleftrightarrow> 48 \<le> (of_char c :: nat) \<and> (of_char c :: nat) \<le> 57"

definition digit_val :: "char \<Rightarrow> int" where
  "digit_val c = int (of_char c) - 48"

definition digit_char :: "nat \<Rightarrow> char" where
  "digit_char d = char_of (48 + d)"

fun digits_value :: "int \<Rightarrow> string \<Rightarrow> int" where
  "digits_value acc [] = acc"
| "digits_value acc (c # cs) =
     (if is_digit c then digits_value (acc * 10 + digit_val c) cs else acc)"

definition strtol10 :: "string \<Rightarrow> int" where
  "strtol10 s = (case dropWhile is_space (c_str s) of
       [] \<Rightarrow> 0
     | c # cs \<Rightarrow> if c = CHR ''-'' then - digits_value 0 cs
                 else if c = CHR ''+'' then digits_value 0 cs
                 else digits_value 0 (c # cs))"

definition stoi :: "string \<Rightarrow> int" where
  "stoi num = signed_take_bit 31 (fit (strtol10 num) (- (2 ^ 63)) (2 ^ 63 - 1))"

fun nat_digits :: "nat \<Rightarrow> string" where
  "nat_digits n = (if n < 10 then [digit_char n]
                   else nat_digits (n div 10) @ [digit_char (n mod 10)])"

declare nat_digits.simps [simp del]

definition utos :: "32 word \<Rightarrow> string" where
  "utos num = nat_digits (unat num)"

definition itos :: "int \<Rightarrow> string" where
  "itos num = (if num < 0 then CHR ''-'' # nat_digits (nat (- num)) else nat_digits (nat num))"

subsection \<open>Trimming\<close>

definition substr :: "string \<Rightarrow> nat \<Rightarrow> nat \<Rightarrow> string" where
  "substr s pos n = take n (drop pos s)"

text \<open>The loop of \<open>strim\<close>: the positions of the first and the last character that is not a
  space, \<open>-1\<close> when there is none.\<close>

fun strim_scan :: "string \<Rightarrow> int \<Rightarrow> int \<Rightarrow> int \<Rightarrow> int \<times> int" where
  "strim_scan [] pos beg ed = (beg, ed)"
| "strim_scan (c # cs) pos beg ed =
     (if beg = -1 then
        (if c \<noteq> CHR '' '' then strim_scan cs (pos + 1) pos pos
         else strim_scan cs (pos + 1) beg ed)
      else if c \<noteq> CHR '' '' then strim_scan cs (pos + 1) beg pos
      else strim_scan cs (pos + 1) beg ed)"

definition strim :: "string \<Rightarrow> string" where
  "strim s = (let (beg, ed) = strim_scan s 0 (-1) (-1) in
     if beg \<noteq> -1 then substr s (nat beg) (nat (ed - beg + 1)) else s)"

subsection \<open>Paths\<close>

definition is_slash :: "char \<Rightarrow> bool" where
  "is_slash c \<longleftrightarrow> c = CHR 0x5C \<or> c = CHR ''/''"

fun parse_path_loop :: "string \<Rightarrow> nat \<Rightarrow> nat \<Rightarrow> bool \<times> string" where
  "parse_path_loop val 0 slash = (False, val)"
| "parse_path_loop val (Suc i) slash =
     (if is_slash (val ! i) then (True, take (i + slash) val)
      else if val ! i = CHR '':'' then (True, take (i + 1) val)
      else parse_path_loop val i slash)"

text \<open>\<open>parse_path\<close> writes into its argument: the result is the returned flag and the C string
  the buffer holds afterwards.\<close>

definition parse_path :: "string \<Rightarrow> int \<Rightarrow> bool \<times> string" where
  "parse_path val slash =
     (let v = c_str val in
      if v = [] then (False, v)
      else parse_path_loop v (length v) (if slash \<noteq> 0 then 1 else 0))"

definition parse_path_s :: "string \<Rightarrow> int \<Rightarrow> string" where
  "parse_path_s inp slash = snd (parse_path inp slash)"

definition parse_path_up :: "string \<Rightarrow> int \<Rightarrow> int \<Rightarrow> string" where
  "parse_path_up inp up slash =
     (if up \<le> 0 \<or> inp = [] then inp
      else let ret = strim inp;
               ret = (if is_slash (last ret) then substr ret 0 (length ret - 1) else ret);
               ret = ((\<lambda>r. parse_path_s r 0) ^^ nat (up - 1)) ret
           in parse_path_s ret slash)"

text \<open>The loop of \<open>parse_fname\<close> with \<open>n - 1\<close> for \<open>cur\<close>: where it stops and the length found.\<close>

fun fname_scan :: "string \<Rightarrow> nat \<Rightarrow> int \<Rightarrow> int \<times> int" where
  "fname_scan path 0 ret = (-1, ret)"
| "fname_scan path (Suc n) ret =
     (if is_slash (path ! n) \<or> path ! n = CHR '':'' then (int n, ret)
      else fname_scan path n (ret + 1))"

text \<open>\<open>parse_fname path buf len\<close>: the returned length, and what was written to the buffer.
  \<open>buf\<close> is \<open>None\<close> for a null buffer, else \<open>Some len\<close>.\<close>

definition parse_fname :: "string option \<Rightarrow> int option \<Rightarrow> int \<times> string option" where
  "parse_fname path buf =
     (case path of
        None \<Rightarrow> (-1, None)
      | Some p0 \<Rightarrow>
          if buf \<noteq> None \<and> the buf \<le> 0 then (-1, None)
          else let p = c_str p0; cur = length p in
            if cur = 0 then (0, if buf \<noteq> None then Some [] else None)
            else let start = (if is_slash (p ! (cur - 1)) then cur - 1 else cur);
                     (c, ret) = fname_scan p start 0
                 in (ret, if buf \<noteq> None \<and> the buf > ret
                          then Some (take (nat ret) (drop (nat (c + 1)) p)) else None))"

text \<open>\<open>parse_fname_s\<close>: the comparison with the buffer size is the wrong way round.  \<open>None\<close>
  stands for reading the buffer before anything was written to it.\<close>

definition parse_fname_s :: "string \<Rightarrow> string option" where
  "parse_fname_s path =
     (let (r, b) = parse_fname (Some path) (Some 1024) in
      if 0 \<le> r \<and> r \<le> 1024 then Some [] else b)"

subsection \<open>Characters\<close>

definition replace_chars :: "string \<Rightarrow> char \<Rightarrow> char \<Rightarrow> string" where
  "replace_chars buf c1 c2 = map (\<lambda>c. if c = c1 then c2 else c) (c_str buf)"

definition replace_bytes :: "string \<Rightarrow> nat \<Rightarrow> nat \<Rightarrow> char \<Rightarrow> char \<Rightarrow> string" where
  "replace_bytes buf pos sz c1 c2 =
     take pos buf @ map (\<lambda>c. if c = c1 then c2 else c) (take sz (drop pos buf))
       @ drop (pos + sz) buf"

definition to_lower :: "string \<Rightarrow> string" where
  "to_lower buf = map tolower (c_str buf)"

definition to_upper :: "string \<Rightarrow> string" where
  "to_upper buf = map toupper (c_str buf)"

subsection \<open>Line ends\<close>

definition cr :: char where "cr = CHR 0x0D"
definition lf :: char where "lf = CHR 0x0A"

text \<open>The loop of \<open>crlf_to\<close>: \<open>prev\<close> is the character before \<open>i\<close>, \<open>run\<close> the pending text
  from \<open>l\<close> to \<open>i\<close> (empty when \<open>l == e\<close>), \<open>ret\<close> the result so far.\<close>

fun crlf_loop :: "string \<Rightarrow> char option \<Rightarrow> string \<Rightarrow> string \<Rightarrow> string \<Rightarrow> string" where
  "crlf_loop chrs prev run ret [] = (if run \<noteq> [] then ret @ run else ret)"
| "crlf_loop chrs prev run ret (c # cs) =
     (if c = cr \<or> c = lf then
        let ret = (if run \<noteq> [] then ret @ run else ret);
            ret = (if c \<noteq> lf \<or> prev \<noteq> Some cr then ret @ chrs else ret)
        in crlf_loop chrs (Some c) [] ret cs
      else crlf_loop chrs (Some c) (run @ [c]) ret cs)"

definition crlf_to :: "string \<Rightarrow> string \<Rightarrow> nat \<Rightarrow> string" where
  "crlf_to s chrs cnt = (if s = [] then s else crlf_loop (take cnt chrs) None [] [] s)"

definition crlf_to_win :: "string \<Rightarrow> string" where
  "crlf_to_win s = crlf_to s [cr, lf] 2"

definition crlf_to_mac :: "string \<Rightarrow> string" where
  "crlf_to_mac s = crlf_to s [cr] 1"

definition crlf_to_unix :: "string \<Rightarrow> string" where
  "crlf_to_unix s = crlf_to s [lf] 1"

subsection \<open>Facts: numbers\<close>

lemma of_char_digit_char: "d < 10 \<Longrightarrow> (of_char (digit_char d) :: nat) = 48 + d"
  by (simp add: digit_char_def)

lemma digit_char_facts [simp]:
  "d < 10 \<Longrightarrow> is_digit (digit_char d)" "d < 10 \<Longrightarrow> digit_val (digit_char d) = int d"
  by (simp_all add: is_digit_def digit_val_def of_char_digit_char)

lemma nat_digits_all_digits: "c \<in> set (nat_digits n) \<Longrightarrow> is_digit c"
proof (induction n rule: nat_digits.induct)
  case (1 n)
  then show ?case
    by (subst (asm) nat_digits.simps) (auto split: if_splits)
qed

lemma nat_digits_nonempty [simp]: "nat_digits n \<noteq> []"
  by (subst nat_digits.simps) simp

lemma digits_value_snoc:
  "(\<And>c. c \<in> set xs \<Longrightarrow> is_digit c) \<Longrightarrow> is_digit d
   \<Longrightarrow> digits_value a (xs @ [d]) = digits_value a xs * 10 + digit_val d"
  by (induction xs arbitrary: a) auto

lemma digits_value_nat_digits: "digits_value 0 (nat_digits n) = int n"
proof (induction n rule: nat_digits.induct)
  case (1 n)
  show ?case
  proof (cases "n < 10")
    case True
    then show ?thesis by (subst nat_digits.simps) simp
  next
    case False
    have "digits_value 0 (nat_digits n)
        = digits_value 0 (nat_digits (n div 10)) * 10 + int (n mod 10)"
      using False nat_digits_all_digits
      by (subst nat_digits.simps) (simp add: digits_value_snoc)
    with 1 False show ?thesis by simp presburger
  qed
qed

lemma digit_not_special: "is_digit c \<Longrightarrow> \<not> is_space c \<and> c \<noteq> CHR ''-'' \<and> c \<noteq> CHR ''+'' \<and> c \<noteq> CHR 0x00
    \<and> c \<noteq> CHR '':'' \<and> c \<noteq> CHR '']''"
  by (auto simp: is_digit_def is_space_def)

lemma c_str_nat_digits [simp]: "c_str (nat_digits n) = nat_digits n"
  using nat_digits_all_digits digit_not_special by (intro c_str_no_nul) blast

lemma strtol10_itos: "strtol10 (itos v) = v"
proof (cases "v < 0")
  case True
  have "c_str (CHR ''-'' # nat_digits (nat (- v))) = CHR ''-'' # nat_digits (nat (- v))"
    using nat_digits_all_digits digit_not_special by (intro c_str_no_nul) auto
  with True show ?thesis
    by (simp add: strtol10_def itos_def is_space_def digits_value_nat_digits)
next
  case False
  obtain c cs where nd: "nat_digits (nat v) = c # cs"
    by (cases "nat_digits (nat v)") auto
  then have "is_digit c" using nat_digits_all_digits [of c "nat v"] by simp
  then have "strtol10 (itos v) = digits_value 0 (nat_digits (nat v))"
    using False nd digit_not_special [of c] by (simp add: strtol10_def itos_def flip: nd) (simp add: nd)
  with False show ?thesis by (simp add: digits_value_nat_digits)
qed

lemma stoi_in_range: "in_int_range (stoi s)"
  by (simp add: stoi_def signed_take_bit_31_in_range)

lemma stoi_itos: "in_int_range v \<Longrightarrow> stoi (itos v) = v"
proof -
  assume v: "in_int_range v"
  then have "fit v (- (2 ^ 63)) (2 ^ 63 - 1) = v"
    by (intro fit_id) (simp_all add: in_int_range_def int_min_def int_max_def)
  with v show ?thesis
    by (simp add: stoi_def strtol10_itos signed_take_bit_31_id)
qed

subsection \<open>Facts: trimming\<close>

lemma strim_scan_spaces:
  "set pre \<subseteq> {CHR '' ''} \<Longrightarrow>
     strim_scan (pre @ cs) pos (-1) e = strim_scan cs (pos + int (length pre)) (-1) e"
  by (induction pre arbitrary: pos) (simp_all add: algebra_simps)

lemma strim_scan_trailing:
  "b \<noteq> -1 \<Longrightarrow> set post \<subseteq> {CHR '' ''} \<Longrightarrow> strim_scan post pos b e = (b, e)"
  by (induction post arbitrary: pos) auto

lemma strim_scan_to_last:
  "b \<noteq> -1 \<Longrightarrow> c \<noteq> CHR '' '' \<Longrightarrow> set post \<subseteq> {CHR '' ''} \<Longrightarrow>
     strim_scan (m @ c # post) pos b e = (b, pos + int (length m))"
  by (induction m arbitrary: pos e) (auto simp: strim_scan_trailing algebra_simps)

lemma strim_all_spaces: "set s \<subseteq> {CHR '' ''} \<Longrightarrow> strim s = s"
  using strim_scan_spaces [of s "[]" 0 "-1"] by (simp add: strim_def)

lemma strim_middle:
  assumes pre: "set pre \<subseteq> {CHR '' ''}" and post: "set post \<subseteq> {CHR '' ''}"
    and mid: "mid \<noteq> []" "hd mid \<noteq> CHR '' ''" "last mid \<noteq> CHR '' ''"
  shows "strim (pre @ mid @ post) = mid"
proof -
  let ?n = "int (length pre)" and ?s = "pre @ mid @ post"
  have scan: "strim_scan ?s 0 (-1) (-1) = (?n, ?n + int (length mid) - 1)"
  proof (cases mid)
    case (Cons c m)
    have "strim_scan ?s 0 (-1) (-1) = strim_scan (m @ post) (?n + 1) ?n ?n"
      using strim_scan_spaces [OF pre, of "mid @ post" 0 "-1"] Cons mid by simp
    also have "\<dots> = (?n, ?n + int (length m))"
    proof (cases m rule: rev_cases)
      case Nil
      then show ?thesis using post by (simp add: strim_scan_trailing)
    next
      case (snoc m' d)
      with Cons mid have "d \<noteq> CHR '' ''" by simp
      with snoc show ?thesis
        using strim_scan_to_last [OF _ _ post, of ?n d m' "?n + 1" ?n] by simp
    qed
    finally show ?thesis using Cons by simp
  qed (use mid in simp)
  have "nat (?n + int (length mid) - 1 - ?n + 1) = length mid" by simp
  then show ?thesis by (simp add: strim_def scan substr_def)
qed

lemma strim_decompose:
  "\<exists>pre post. s = pre @ strim s @ post \<and> set pre \<subseteq> {CHR '' ''} \<and> set post \<subseteq> {CHR '' ''}
     \<and> (set s \<subseteq> {CHR '' ''} \<and> strim s = s
        \<or> strim s \<noteq> [] \<and> hd (strim s) \<noteq> CHR '' '' \<and> last (strim s) \<noteq> CHR '' '')"
proof (cases "set s \<subseteq> {CHR '' ''}")
  case True
  then show ?thesis
    using strim_all_spaces [of s] by (intro exI [of _ "[]"]) simp
next
  case False
  let ?sp = "\<lambda>c. c = CHR '' ''"
  define pre where "pre = takeWhile ?sp s"
  define rest where "rest = dropWhile ?sp s"
  define post where "post = rev (takeWhile ?sp (rev rest))"
  define mid where "mid = rev (dropWhile ?sp (rev rest))"
  have s: "s = pre @ mid @ post"
    unfolding pre_def mid_def post_def rev_append [symmetric] takeWhile_dropWhile_id
    by (simp add: rest_def)
  have sp: "set pre \<subseteq> {CHR '' ''}" "set post \<subseteq> {CHR '' ''}"
    by (auto simp: pre_def post_def dest: set_takeWhileD)
  have rest: "rest \<noteq> []" "hd rest \<noteq> CHR '' ''"
    using False hd_dropWhile [of ?sp s] by (auto simp: rest_def dropWhile_eq_Nil_conv)
  have "mid \<noteq> []"
    using rest by (cases rest) (auto simp: mid_def dropWhile_eq_Nil_conv)
  moreover have "last mid \<noteq> CHR '' ''"
    using calculation hd_dropWhile [of ?sp "rev rest"] by (simp add: mid_def last_rev)
  moreover have "hd mid = hd rest"
    using calculation(1) s unfolding pre_def mid_def post_def
    by (metis hd_append2 mid_def post_def rev_append rev_rev_ident takeWhile_dropWhile_id)
  ultimately show ?thesis
    using strim_middle [OF sp, of mid] s sp rest by (metis)
qed

lemma strim_idem: "strim (strim s) = strim s"
proof -
  from strim_decompose [of s] consider "set s \<subseteq> {CHR '' ''}" "strim s = s"
    | "strim s \<noteq> []" "hd (strim s) \<noteq> CHR '' ''" "last (strim s) \<noteq> CHR '' ''" by blast
  then show ?thesis
    by cases (simp, use strim_middle [of "[]" "[]" "strim s"] in simp)
qed

lemma strim_id: "s = [] \<or> hd s \<noteq> CHR '' '' \<and> last s \<noteq> CHR '' '' \<Longrightarrow> strim s = s"
  using strim_middle [of "[]" "[]" s] strim_all_spaces [of s] by (cases "s = []") simp_all

subsection \<open>Facts: paths\<close>

definition is_sep :: "char \<Rightarrow> bool" where
  "is_sep c \<longleftrightarrow> is_slash c \<or> c = CHR '':''"

lemma parse_path_loop_skip:
  "(\<And>c. c \<in> set name \<Longrightarrow> \<not> is_sep c) \<Longrightarrow>
     parse_path_loop (pre @ name) (length pre + length name) k = parse_path_loop (pre @ name) (length pre) k"
proof (induction name arbitrary: pre rule: rev_induct)
  case (snoc c name)
  have step: "parse_path_loop (pre @ name @ [c]) (Suc (length pre + length name)) k
      = parse_path_loop (pre @ name @ [c]) (length pre + length name) k"
    using snoc.prems by (simp add: nth_append is_sep_def)
  have "parse_path_loop (pre @ name @ [c]) (length pre + n) k
      = parse_path_loop (pre @ name @ [c]) (length pre) k" if "n \<le> length name" for n
    using that
  proof (induction n)
    case (Suc n)
    then have "(pre @ name @ [c]) ! (length pre + n) \<in> set name"
      by (simp add: nth_append)
    with Suc snoc.prems show ?case by (auto simp: is_sep_def)
  qed simp
  with step show ?case by simp
qed simp

lemma parse_path_split:
  assumes "is_sep sep" and "\<And>c. c \<in> set name \<Longrightarrow> \<not> is_sep c"
    and "CHR 0x00 \<notin> set (dir @ sep # name)"
  shows "parse_path (dir @ sep # name) slash
    = (True, if is_slash sep \<and> slash = 0 then dir else dir @ [sep])"
proof -
  have "parse_path_loop ((dir @ [sep]) @ name) (length (dir @ [sep]) + length name) k
      = parse_path_loop ((dir @ [sep]) @ name) (length (dir @ [sep])) k" for k
    by (rule parse_path_loop_skip) (use assms in auto)
  then show ?thesis
    using assms(1,3) by (auto simp: parse_path_def nth_append is_sep_def Let_def)
qed

lemma fname_scan_skip:
  "(\<And>c. c \<in> set name \<Longrightarrow> \<not> is_sep c) \<Longrightarrow> n \<le> length name \<Longrightarrow>
     fname_scan (pre @ name @ post) (length pre + n) r = fname_scan (pre @ name @ post) (length pre) (r + int n)"
proof (induction n arbitrary: r)
  case (Suc n)
  then have "(pre @ name @ post) ! (length pre + n) \<in> set name"
    by (simp add: nth_append)
  with Suc show ?case by (auto simp: is_sep_def algebra_simps)
qed simp

lemma parse_fname_split:
  assumes "is_sep sep" and "\<And>c. c \<in> set name \<Longrightarrow> \<not> is_sep c" and "name \<noteq> []"
    and "CHR 0x00 \<notin> set (dir @ sep # name)" and "0 < len"
  shows "parse_fname (Some (dir @ sep # name)) (Some len)
    = (int (length name), if len > int (length name) then Some name else None)"
proof -
  have "fname_scan ((dir @ [sep]) @ name @ []) (length (dir @ [sep]) + length name) 0
      = (int (length dir), int (length name))"
    using assms(1,2) by (subst fname_scan_skip) (auto simp: nth_append is_sep_def)
  moreover have "\<not> is_slash ((dir @ sep # name) ! (length dir + length name))"
  proof -
    have "(dir @ sep # name) ! (length dir + length name) = last name"
      using assms(3) by (simp add: nth_append last_conv_nth nth_Cons')
    then show ?thesis using assms(2,3) by (auto simp: is_sep_def)
  qed
  moreover have "nat (int (length dir) + 1) = Suc (length dir)" by simp
  ultimately show ?thesis
    using assms(4,5) by (simp add: parse_fname_def Let_def del: fname_scan.simps)
qed

subsection \<open>Facts: line ends\<close>

text \<open>What the conversions mean: every CRLF, lone CR and lone LF becomes one new line end.\<close>

fun eol :: "string \<Rightarrow> string \<Rightarrow> string" where
  "eol nl [] = []"
| "eol nl [c] = (if c = cr \<or> c = lf then nl else [c])"
| "eol nl (c # d # cs) =
     (if c = cr \<and> d = lf then nl @ eol nl cs
      else if c = cr \<or> c = lf then nl @ eol nl (d # cs)
      else c # eol nl (d # cs))"

lemma cr_lf [simp]: "cr \<noteq> lf" "lf \<noteq> cr"
  by (simp_all add: cr_def lf_def)

lemma eol_after_cr:
  "eol nl (cr # s) = nl @ (case s of [] \<Rightarrow> [] | d # cs \<Rightarrow> if d = lf then eol nl cs else eol nl s)"
  by (cases s) auto

lemma eol_other: "c \<noteq> cr \<Longrightarrow> c \<noteq> lf \<Longrightarrow> eol nl (c # s) = c # eol nl s"
  by (cases s) auto

lemma eol_lf: "eol nl (lf # s) = nl @ eol nl s"
  by (cases s) auto

lemma crlf_loop_eol:
  "(run \<noteq> [] \<longrightarrow> prev \<noteq> Some cr) \<Longrightarrow> crlf_loop nl prev run ret s = ret @ run @
     (if prev = Some cr then
        (case s of [] \<Rightarrow> [] | d # cs \<Rightarrow> if d = lf then eol nl cs else eol nl s)
      else eol nl s)"
proof (induction s arbitrary: prev run ret)
  case (Cons c s)
  show ?case
  proof (cases "c = cr \<or> c = lf")
    case False
    then show ?thesis by (simp add: Cons eol_other)
  next
    case True
    then show ?thesis
      by (auto simp: Cons eol_lf eol_after_cr Let_def split: list.splits)
  qed
qed simp

lemma crlf_to_eol: "crlf_to s chrs cnt = eol (take cnt chrs) s"
  by (simp add: crlf_to_def crlf_loop_eol)

lemma eol_chars: "c \<notin> set nl \<Longrightarrow> c \<notin> set s \<Longrightarrow> c \<notin> set (eol nl s)"
  by (induction nl s rule: eol.induct) auto

lemma eol_unix_no_cr: "cr \<notin> set (eol [lf] s)"
  by (induction "[lf]" s rule: eol.induct) auto

lemma eol_no_cr_to_unix: "cr \<notin> set s \<Longrightarrow> eol [lf] s = s"
  by (induction "[lf]" s rule: eol.induct) auto

lemma eol_of_eol_unix: "eol nl (eol [lf] s) = eol nl s"
proof (induction nl s rule: eol.induct)
  case (3 nl c d cs)
  then show ?case by (auto simp: eol_lf eol_other)
qed (auto simp: eol_lf eol_other)

lemma eol_unix_of_win: "eol [lf] (eol [cr, lf] s) = eol [lf] s"
  by (induction "[lf]" s rule: eol.induct) (auto simp: eol_other)

end
