(* ===== verification/Inet.thy ===== *)
theory Inet
  imports Text
begin

text \<open>
  \<open>src/src/com/xtllib/xtl_inet.h\<close>: addresses, host names, CIDR blocks, and the
  classification of socket errors.

  A socket address is \<open>Addr_in\<close> (IPv4), \<open>Addr_in6\<close> (IPv6, four 32-bit groups, the most
  significant first) or another family.  Groups and ports are kept as the numbers they mean,
  so \<open>htonl\<close> and \<open>htons\<close>, which only change the byte order in memory, do not appear.
  \<open>inet_pton\<close>, \<open>inet_ntop\<close> and \<open>getaddrinfo\<close> belong to the system: they are the fields
  of a \<open>resolver\<close>, an argument of the functions that use them.
\<close>

unbundle bit_operations_syntax

subsection \<open>Errors\<close>

definition XTL_EINTR :: int where "XTL_EINTR = 4"
definition XTL_EAGAIN :: int where "XTL_EAGAIN = 11"
definition XTL_ENOHOST :: int where "XTL_ENOHOST = 113"
definition XTL_EALRED :: int where "XTL_EALRED = 114"
definition XTL_EINPR :: int where "XTL_EINPR = 115"

definition is_error_fatal :: "int \<Rightarrow> bool \<Rightarrow> bool" where
  "is_error_fatal err inproc \<longleftrightarrow> err \<noteq> XTL_EAGAIN \<and> err \<noteq> XTL_EINTR \<and>
     err \<noteq> XTL_EALRED \<and> (\<not> inproc \<or> err \<noteq> XTL_EINPR)"

subsection \<open>Addresses\<close>

datatype family = AF_INET | AF_INET6 | AF_OTHER nat

datatype addr_t =
    Addr_in "32 word" "16 word"
  | Addr_in6 "32 word list" "16 word"
  | Addr_other nat

record cidr_t =
  cd_addr :: addr_t
  cd_pref :: int

fun sa_family :: "addr_t \<Rightarrow> family" where
  "sa_family (Addr_in a p) = AF_INET"
| "sa_family (Addr_in6 a p) = AF_INET6"
| "sa_family (Addr_other f) = AF_OTHER f"

record resolver =
  inet_pton4 :: "string \<Rightarrow> 32 word option"
  inet_pton6 :: "string \<Rightarrow> 32 word list option"
  inet_ntop4 :: "32 word \<Rightarrow> string option"
  inet_ntop6 :: "32 word list \<Rightarrow> string option"
  getaddrinfo :: "string \<Rightarrow> family option \<Rightarrow> addr_t option"

definition XTL_INET_IPV4_ANY :: string where "XTL_INET_IPV4_ANY = ''0.0.0.0''"
definition XTL_INET_IPV6_ANY :: string where "XTL_INET_IPV6_ANY = ''[::]''"

definition guess_addr_family :: "string \<Rightarrow> bool \<Rightarrow> family" where
  "guess_addr_family host ambiguous =
     (if host = [] then AF_INET
      else if host ! 0 = CHR ''['' then AF_INET6
      else if ambiguous \<and> CHR '':'' \<in> set host then AF_INET6
      else AF_INET)"

definition strip_host_name :: "string \<Rightarrow> string" where
  "strip_host_name host =
     (let len = length host in
      if len > 1 \<and> host ! 0 = CHR ''['' \<and> host ! (len - 1) = CHR '']''
      then substr host 1 (len - 2) else host)"

text \<open>\<open>parse_host_port\<close> assigns the host always and the port only when a colon was found:
  \<open>port\<close> is its value before the call.\<close>

definition parse_host_port :: "string \<Rightarrow> int \<Rightarrow> string \<times> int" where
  "parse_host_port addr port =
     (let pos = (case rfind_two CHR '']'' CHR '':'' addr of
                   None \<Rightarrow> rfind_char CHR '':'' addr
                 | Some p \<Rightarrow> Some (p + 1))
      in case pos of
           None \<Rightarrow> (strim addr, port)
         | Some p \<Rightarrow> (strim (substr addr 0 p), stoi (drop (p + 1) addr)))"

fun set_addr_port :: "addr_t \<Rightarrow> int \<Rightarrow> addr_t \<times> bool" where
  "set_addr_port (Addr_in6 a p) port = (Addr_in6 a (word_of_int port), True)"
| "set_addr_port (Addr_in a p) port = (Addr_in a (word_of_int port), True)"
| "set_addr_port (Addr_other f) port = (Addr_other f, False)"

fun get_addr_length :: "family \<Rightarrow> nat" where
  "get_addr_length AF_INET6 = 28"
| "get_addr_length AF_INET = 16"
| "get_addr_length (AF_OTHER f) = 0"

fun set_addr_any :: "family \<Rightarrow> addr_t option" where
  "set_addr_any AF_INET6 = Some (Addr_in6 [0, 0, 0, 0] 0)"
| "set_addr_any AF_INET = Some (Addr_in 0 0)"
| "set_addr_any (AF_OTHER f) = None"

text \<open>The literal part of \<open>host_to_addr\<close>, before the name lookup.\<close>

definition host_literal :: "resolver \<Rightarrow> family \<Rightarrow> string \<Rightarrow> string \<Rightarrow> addr_t option" where
  "host_literal R fam host naked =
     (case fam of
        AF_INET6 \<Rightarrow>
          if c_str host = XTL_INET_IPV6_ANY then set_addr_any fam
          else map_option (\<lambda>a. Addr_in6 a 0) (inet_pton6 R (c_str naked))
      | AF_INET \<Rightarrow>
          if c_str host = XTL_INET_IPV4_ANY then set_addr_any fam
          else map_option (\<lambda>a. Addr_in a 0) (inet_pton4 R (c_str naked))
      | AF_OTHER f \<Rightarrow> None)"

definition host_to_addr :: "resolver \<Rightarrow> string \<Rightarrow> bool \<Rightarrow> addr_t option" where
  "host_to_addr R host ambiguous =
     (if host = [] then None
      else let fam = guess_addr_family host ambiguous;
               naked = strip_host_name host
           in case host_literal R fam host naked of
                Some a \<Rightarrow> Some a
              | None \<Rightarrow>
                  (case (case getaddrinfo R (c_str naked) (Some fam) of
                           Some a \<Rightarrow> Some a
                         | None \<Rightarrow> getaddrinfo R (c_str naked) None) of
                     None \<Rightarrow> None
                   | Some a \<Rightarrow> if sa_family a = AF_INET \<or> sa_family a = AF_INET6
                               then Some a else None))"

definition ssafe :: "string option \<Rightarrow> string" where
  "ssafe inp = (case inp of None \<Rightarrow> [] | Some s \<Rightarrow> s)"

fun addr_to_host :: "resolver \<Rightarrow> addr_t \<Rightarrow> bool \<Rightarrow> string" where
  "addr_to_host R (Addr_in6 a p) wrap =
     (let result = ssafe (inet_ntop6 R a) in
      if wrap then ''['' @ result @ '']'' else result)"
| "addr_to_host R (Addr_in a p) wrap = ssafe (inet_ntop4 R a)"
| "addr_to_host R (Addr_other f) wrap = []"

definition is_same_host :: "resolver \<Rightarrow> string \<Rightarrow> string \<Rightarrow> bool" where
  "is_same_host R host1 host2 =
     (if host1 = [] \<or> host2 = [] then False
      else case host_to_addr R host1 False of
             None \<Rightarrow> False
           | Some addr1 \<Rightarrow>
               (case host_to_addr R host2 False of
                  None \<Rightarrow> False
                | Some addr2 \<Rightarrow>
                    (case (addr1, addr2) of
                       (Addr_in6 a p, Addr_in6 b q) \<Rightarrow> a = b
                     | (Addr_in a p, Addr_in b q) \<Rightarrow> a = b
                     | _ \<Rightarrow> False)))"

subsection \<open>CIDR blocks\<close>

definition parse_cidr_notation :: "resolver \<Rightarrow> string \<Rightarrow> cidr_t option" where
  "parse_cidr_notation R src =
     (if src = [] then None
      else case rfind_char CHR ''/'' src of
             None \<Rightarrow>
               (case host_to_addr R src True of
                  None \<Rightarrow> None
                | Some a \<Rightarrow>
                    (case sa_family a of
                       AF_INET6 \<Rightarrow> Some \<lparr>cd_addr = a, cd_pref = 128\<rparr>
                     | AF_INET \<Rightarrow> Some \<lparr>cd_addr = a, cd_pref = 32\<rparr>
                     | AF_OTHER f \<Rightarrow> None))
           | Some pos \<Rightarrow>
               (case host_to_addr R (substr src 0 pos) True of
                  None \<Rightarrow> None
                | Some a \<Rightarrow>
                    Some \<lparr>cd_addr = a,
                          cd_pref = fit (stoi (drop (pos + 1) src)) 0
                                      (if sa_family a = AF_INET6 then 128 else 32)\<rparr>))"

text \<open>The loop of \<open>is_addr_in_cidr\<close> over the groups \<open>i, i-1, \<dots>, 0\<close> (the argument is
  \<open>i + 1\<close>); \<open>left\<close> is the number of host bits not yet skipped.\<close>

fun cidr6_loop :: "32 word list \<Rightarrow> 32 word list \<Rightarrow> nat \<Rightarrow> int \<Rightarrow> bool" where
  "cidr6_loop addr1 addr2 0 left = True"
| "cidr6_loop addr1 addr2 (Suc i) left =
     (let shift = fit left 0 32 in
      if shift \<noteq> 32 \<and> drop_bit (nat shift) (addr1 ! i) \<noteq> drop_bit (nat shift) (addr2 ! i)
      then False else cidr6_loop addr1 addr2 i (left - 32))"

definition is_addr_in_cidr :: "addr_t \<Rightarrow> cidr_t \<Rightarrow> bool" where
  "is_addr_in_cidr a c =
     (if sa_family a \<noteq> sa_family (cd_addr c) then False
      else if cd_pref c = 0 then True
      else case (a, cd_addr c) of
             (Addr_in6 g1 p1, Addr_in6 g2 p2) \<Rightarrow>
               cidr6_loop g1 g2 4 (fit (128 - cd_pref c) 0 128)
           | (Addr_in a1 p1, Addr_in a2 p2) \<Rightarrow>
               (let shift = fit (32 - cd_pref c) 0 32 in
                shift = 32 \<or> drop_bit (nat shift) a1 = drop_bit (nat shift) a2)
           | _ \<Rightarrow> False)"

subsection \<open>What a CIDR block means\<close>

text \<open>The bits of an address, the most significant first, and the meaning of a block: the
  address and the block agree on the first \<open>pref\<close> bits.\<close>

definition word_bits :: "32 word \<Rightarrow> bool list" where
  "word_bits w = map (\<lambda>i. bit w (31 - i)) [0..<32]"

fun addr_bits :: "addr_t \<Rightarrow> bool list" where
  "addr_bits (Addr_in a p) = word_bits a"
| "addr_bits (Addr_in6 gs p) = concat (map word_bits gs)"
| "addr_bits (Addr_other f) = []"

definition in_block :: "addr_t \<Rightarrow> cidr_t \<Rightarrow> bool" where
  "in_block a c \<longleftrightarrow> sa_family a = sa_family (cd_addr c) \<and>
     take (nat (cd_pref c)) (addr_bits a) = take (nat (cd_pref c)) (addr_bits (cd_addr c))"

fun addr_wf :: "addr_t \<Rightarrow> bool" where
  "addr_wf (Addr_in a p) = True"
| "addr_wf (Addr_in6 gs p) = (length gs = 4)"
| "addr_wf (Addr_other f) = True"

fun family_bits :: "family \<Rightarrow> int" where
  "family_bits AF_INET6 = 128"
| "family_bits _ = 32"

definition cidr_wf :: "cidr_t \<Rightarrow> bool" where
  "cidr_wf c \<longleftrightarrow> addr_wf (cd_addr c) \<and> (sa_family (cd_addr c) = AF_INET \<or> sa_family (cd_addr c) = AF_INET6)
     \<and> 0 \<le> cd_pref c \<and> cd_pref c \<le> family_bits (sa_family (cd_addr c))"

text \<open>The documented behaviour of the resolver that the model relies on: IPv6 addresses have
  four groups.\<close>

definition resolver_wf :: "resolver \<Rightarrow> bool" where
  "resolver_wf R \<longleftrightarrow> (\<forall>s gs. inet_pton6 R s = Some gs \<longrightarrow> length gs = 4)
     \<and> (\<forall>s f a. getaddrinfo R s f = Some a \<longrightarrow> addr_wf a)"

lemma length_word_bits [simp]: "length (word_bits w) = 32"
  by (simp add: word_bits_def)

lemma take_word_bits: "n \<le> 32 \<Longrightarrow> take n (word_bits w) = map (\<lambda>i. bit w (31 - i)) [0..<n]"
  by (simp add: word_bits_def take_map)

lemma drop_bit_eq_take_bits:
  assumes "s \<le> 32"
  shows "drop_bit s a = drop_bit s b \<longleftrightarrow> take (32 - s) (word_bits a) = take (32 - s) (word_bits b)"
proof -
  have "drop_bit s a = drop_bit s b \<longleftrightarrow> (\<forall>n. s + n < 32 \<longrightarrow> bit a (s + n) = bit b (s + n))"
  proof
    assume "drop_bit s a = drop_bit s b"
    then have "bit (drop_bit s a) n = bit (drop_bit s b) n" for n by simp
    then show "\<forall>n. s + n < 32 \<longrightarrow> bit a (s + n) = bit b (s + n)"
      by (simp add: bit_drop_bit_eq)
  next
    assume all: "\<forall>n. s + n < 32 \<longrightarrow> bit a (s + n) = bit b (s + n)"
    show "drop_bit s a = drop_bit s b"
    proof (rule bit_eqI)
      fix n
      show "bit (drop_bit s a) n = bit (drop_bit s b) n"
        using all bit_imp_le_length [of a "s + n"] bit_imp_le_length [of b "s + n"]
        by (cases "s + n < 32") (auto simp: bit_drop_bit_eq)
    qed
  qed
  also have "\<dots> \<longleftrightarrow> (\<forall>i<32 - s. bit a (31 - i) = bit b (31 - i))"
  proof
    assume all: "\<forall>n. s + n < 32 \<longrightarrow> bit a (s + n) = bit b (s + n)"
    have "bit a (31 - i) = bit b (31 - i)" if i: "i < 32 - s" for i
    proof -
      from i have "s + (31 - i - s) = 31 - i" "s + (31 - i - s) < 32" by auto
      with all show ?thesis by metis
    qed
    then show "\<forall>i<32 - s. bit a (31 - i) = bit b (31 - i)" by blast
  next
    assume all: "\<forall>i<32 - s. bit a (31 - i) = bit b (31 - i)"
    have "bit a (s + n) = bit b (s + n)" if n: "s + n < 32" for n
    proof -
      from n have "31 - (31 - (s + n)) = s + n" "31 - (s + n) < 32 - s" by auto
      with all show ?thesis by metis
    qed
    then show "\<forall>n. s + n < 32 \<longrightarrow> bit a (s + n) = bit b (s + n)" by blast
  qed
  also have "\<dots> \<longleftrightarrow> take (32 - s) (word_bits a) = take (32 - s) (word_bits b)"
    by (auto simp: take_word_bits)
  finally show ?thesis .
qed

lemma take_append_eq:
  "length x = length y \<Longrightarrow> take n (x @ xs) = take n (y @ ys) \<longleftrightarrow>
     take n x = take n y \<and> take (n - length x) xs = take (n - length x) ys"
  by simp

lemma group_step:
  assumes "0 \<le> p" "p \<le> 128" "i < 4"
  shows "(let shift = fit (128 - p - 32 * (3 - int i)) 0 32 in
            shift \<noteq> 32 \<and> drop_bit (nat shift) (a :: 32 word) \<noteq> drop_bit (nat shift) b)
     \<longleftrightarrow> take (nat p - 32 * i) (word_bits a) \<noteq> take (nat p - 32 * i) (word_bits b)"
proof -
  let ?s = "fit (128 - p - 32 * (3 - int i)) 0 32" and ?n = "nat p - 32 * i"
  have s: "0 \<le> ?s" "?s \<le> 32" using fit_bounds [of 0 "32 :: int" "128 - p - 32 * (3 - int i)"] by simp_all
  consider "?n = 0" "?s = 32" | "32 \<le> ?n" "?s = 0" | "0 < ?n" "?n < 32" "nat ?s = 32 - ?n" "?s < 32"
  proof -
    define d where "d = p - 32 * int i"
    have n: "?n = nat d" unfolding d_def using assms(1) by (simp add: nat_diff_distrib')
    have sd: "?s = (if d \<le> 0 then 32 else if 32 \<le> d then 0 else 32 - d)"
      unfolding d_def fit_def by auto
    have "d \<le> 0 \<or> 32 \<le> d \<or> 0 < d \<and> d < 32" by auto
    then show ?thesis
    proof (elim disjE)
      assume "0 < d \<and> d < 32"
      then show ?thesis by (intro that(3), unfold n sd) auto
    next
      assume "d \<le> 0"
      then show ?thesis by (intro that(1), unfold n sd) auto
    next
      assume "32 \<le> d"
      then show ?thesis by (intro that(2), unfold n sd) auto
    qed
  qed
  then show ?thesis
  proof cases
    case 2
    then have "drop_bit (nat ?s) w = w" "take ?n (word_bits w) = word_bits w" for w :: "32 word"
      by simp_all
    moreover have "word_bits a = word_bits b \<longleftrightarrow> a = b"
      using drop_bit_eq_take_bits [of 0 a b] by simp
    ultimately show ?thesis using 2 by simp
  next
    case 3
    then show ?thesis using drop_bit_eq_take_bits [of "nat ?s" a b] s by (simp add: Let_def)
  qed (simp add: Let_def)
qed

lemma cidr6_loop_prefix:
  assumes "length g1 = 4" "length g2 = 4" "0 \<le> p" "p \<le> 128"
  shows "cidr6_loop g1 g2 4 (fit (128 - p) 0 128) \<longleftrightarrow>
    take (nat p) (concat (map word_bits g1)) = take (nat p) (concat (map word_bits g2))"
proof -
  obtain a0 a1 a2 a3 where g1: "g1 = [a0, a1, a2, a3]"
    using assms(1) by (auto simp: numeral_eq_Suc length_Suc_conv)
  obtain b0 b1 b2 b3 where g2: "g2 = [b0, b1, b2, b3]"
    using assms(2) by (auto simp: numeral_eq_Suc length_Suc_conv)
  have f: "fit (128 - p) 0 128 = 128 - p" using assms(3,4) by (intro fit_id) auto
  have four: "cidr6_loop g1 g2 4 l = cidr6_loop g1 g2 (Suc 3) l"
    "cidr6_loop g1 g2 3 l = cidr6_loop g1 g2 (Suc 2) l"
    "cidr6_loop g1 g2 2 l = cidr6_loop g1 g2 (Suc 1) l"
    "cidr6_loop g1 g2 1 l = cidr6_loop g1 g2 (Suc 0) l" for l
    by (simp_all add: numeral_eq_Suc del: cidr6_loop.simps)
  have "cidr6_loop g1 g2 4 (128 - p) \<longleftrightarrow> (\<forall>i<4. take (nat p - 32 * i) (word_bits (g1 ! i))
      = take (nat p - 32 * i) (word_bits (g2 ! i)))"
    using group_step [OF assms(3,4), of 3 a3 b3] group_step [OF assms(3,4), of 2 a2 b2]
      group_step [OF assms(3,4), of 1 a1 b1] group_step [OF assms(3,4), of 0 a0 b0]
    by (simp only: four cidr6_loop.simps Let_def) (simp add: g1 g2 All_less_Suc numeral_eq_Suc algebra_simps)
  also have "\<dots> \<longleftrightarrow> take (nat p) (concat (map word_bits g1)) = take (nat p) (concat (map word_bits g2))"
    by (auto simp: g1 g2 take_append_eq All_less_Suc numeral_eq_Suc)
  finally show ?thesis by (simp add: f)
qed

lemma is_addr_in_cidr_iff:
  assumes "cidr_wf c" "addr_wf a"
  shows "is_addr_in_cidr a c \<longleftrightarrow> in_block a c"
proof (cases "sa_family a = sa_family (cd_addr c)")
  case fam: True
  have p: "0 \<le> cd_pref c" using assms(1) by (simp add: cidr_wf_def)
  show ?thesis
  proof (cases "cd_addr c")
    case (Addr_in a2 p2)
    with fam obtain a1 p1 where a: "a = Addr_in a1 p1" by (cases a) auto
    have p32: "cd_pref c \<le> 32" using assms(1) Addr_in by (simp add: cidr_wf_def)
    have "fit (32 - cd_pref c) 0 32 = 32 - cd_pref c" using p p32 by (intro fit_id) auto
    moreover have "32 - nat (32 - cd_pref c) = nat (cd_pref c)" using p p32 by simp
    ultimately show ?thesis
      using p p32 a Addr_in drop_bit_eq_take_bits [of "nat (32 - cd_pref c)" a1 a2]
      by (auto simp: is_addr_in_cidr_def in_block_def Let_def)
  next
    case (Addr_in6 g2 p2)
    with fam obtain g1 p1 where a: "a = Addr_in6 g1 p1" by (cases a) auto
    have "length g1 = 4" "length g2 = 4" "cd_pref c \<le> 128"
      using assms a Addr_in6 by (simp_all add: cidr_wf_def)
    with p a Addr_in6 show ?thesis
      by (auto simp: is_addr_in_cidr_def in_block_def cidr6_loop_prefix)
  qed (use assms(1) in \<open>simp add: cidr_wf_def\<close>)
qed (simp add: is_addr_in_cidr_def in_block_def)

subsection \<open>Parsing addresses\<close>

lemma host_literal_family:
  "host_literal R fam host naked = Some a \<Longrightarrow> sa_family a = fam \<and> (fam = AF_INET \<or> fam = AF_INET6)"
  by (cases fam) (auto simp: host_literal_def split: if_splits)

lemma host_literal_wf: "resolver_wf R \<Longrightarrow> host_literal R fam host naked = Some a \<Longrightarrow> addr_wf a"
  by (cases fam) (auto simp: host_literal_def resolver_wf_def split: if_splits)

lemma host_to_addr_family:
  assumes "host_to_addr R host amb = Some a"
  shows "sa_family a = AF_INET \<or> sa_family a = AF_INET6"
  using assms host_literal_family
  by (auto simp: host_to_addr_def Let_def split: if_splits option.splits)

lemma host_to_addr_wf:
  assumes "resolver_wf R" "host_to_addr R host amb = Some a"
  shows "addr_wf a"
  using assms host_literal_wf [OF assms(1)]
  by (auto simp: host_to_addr_def Let_def resolver_wf_def split: if_splits option.splits)

lemma cidr_wf_prefix:
  "addr_wf a \<Longrightarrow> sa_family a = AF_INET \<or> sa_family a = AF_INET6 \<Longrightarrow>
     cidr_wf \<lparr>cd_addr = a, cd_pref = fit v 0 (if sa_family a = AF_INET6 then 128 else 32)\<rparr>"
  by (auto simp: cidr_wf_def fit_def)

lemma parse_cidr_wf:
  assumes R: "resolver_wf R" and c: "parse_cidr_notation R src = Some c"
  shows "cidr_wf c"
proof (cases "rfind_char CHR ''/'' src")
  case None
  with c obtain a where a: "host_to_addr R src True = Some a"
    by (auto simp: parse_cidr_notation_def split: if_splits option.splits)
  show ?thesis
    using None c a host_to_addr_wf [OF R a] host_to_addr_family [OF a]
    by (auto simp: parse_cidr_notation_def cidr_wf_def split: if_splits)
next
  case (Some pos)
  with c obtain a where a: "host_to_addr R (substr src 0 pos) True = Some a"
    by (auto simp: parse_cidr_notation_def split: if_splits option.splits)
  show ?thesis
    using Some c a cidr_wf_prefix [OF host_to_addr_wf [OF R a] host_to_addr_family [OF a]]
    by (auto simp: parse_cidr_notation_def split: if_splits)
qed

lemma substr_0 [simp]: "substr s 0 n = take n s"
  by (simp add: substr_def)

text \<open>\<open>host:port\<close> and \<open>[host]:port\<close> are read back.\<close>

lemma itos_no_special:
  assumes "0 \<le> v"
  shows "CHR '':'' \<notin> set (itos v)" "CHR '']'' \<notin> set (itos v)"
  using assms nat_digits_all_digits [of "CHR '':''" "nat v"] nat_digits_all_digits [of "CHR '']''" "nat v"]
    digit_not_special by (auto simp: itos_def)

lemma rfind_two_plain_append:
  "d \<notin> set a \<Longrightarrow> c \<notin> set a \<Longrightarrow> d \<notin> set b \<Longrightarrow> c \<noteq> d \<Longrightarrow> rfind_two c d (a @ d # b) = None"
proof (induction a)
  case Nil
  then show ?case by (cases b) (auto simp: rfind_two_None_notin)
next
  case (Cons x a)
  then show ?case by (cases a) auto
qed

lemma parse_host_port_plain:
  assumes "CHR '':'' \<notin> set host" "CHR '']'' \<notin> set host" "0 \<le> port" "port \<le> int_max"
  shows "parse_host_port (host @ CHR '':'' # itos port) p0 = (strim host, port)"
proof -
  have "in_int_range port" using assms by (simp add: in_int_range_def int_min_def)
  then show ?thesis
    using assms itos_no_special [of port]
    by (simp add: parse_host_port_def rfind_two_plain_append rfind_char_append_notin stoi_itos)
qed

lemma parse_host_port_bracketed:
  assumes "0 \<le> port" "port \<le> int_max"
  shows "parse_host_port (CHR ''['' # h @ '']:'' @ itos port) p0 = (CHR ''['' # h @ '']'', port)"
proof -
  have "in_int_range port" using assms by (simp add: in_int_range_def int_min_def)
  moreover have "rfind_two CHR '']'' CHR '':'' ((CHR ''['' # h) @ CHR '']'' # CHR '':'' # itos port)
      = Some (length (CHR ''['' # h))"
    using itos_no_special [OF assms(1)] by (intro rfind_two_append_notin) auto
  moreover have "strim (CHR ''['' # h @ '']'') = CHR ''['' # h @ '']''"
    by (rule strim_id) simp
  ultimately show ?thesis
    by (simp add: parse_host_port_def stoi_itos)
qed

text \<open>An IPv6 literal in brackets with no port is cut at its last colon.\<close>

lemma parse_host_port_bracketed_no_port:
  assumes "CHR '':'' \<notin> set b" "CHR '']'' \<notin> set a"
  shows "parse_host_port (CHR ''['' # a @ CHR '':'' # b @ '']'') p0
    = (strim (CHR ''['' # a), stoi (b @ '']''))"
proof -
  have two: "rfind_two CHR '']'' CHR '':'' xs = None"
    if "CHR '']'' \<notin> set us" "CHR '':'' \<notin> set vs" "xs = us @ CHR '':'' # vs" for us vs xs
    using that
  proof (induction us arbitrary: xs)
    case Nil
    then show ?case by (cases vs) (auto simp: rfind_two_None_notin)
  next
    case (Cons x us)
    then show ?case by (cases us) auto
  qed
  have "rfind_two CHR '']'' CHR '':'' ((CHR ''['' # a) @ CHR '':'' # (b @ '']'')) = None"
    by (rule two [of "CHR ''['' # a" "b @ '']''"]) (use assms in auto)
  moreover have "rfind_char CHR '':'' ((CHR ''['' # a) @ CHR '':'' # (b @ '']'')) = Some (Suc (length a))"
    using assms by (subst rfind_char_append_notin) auto
  ultimately show ?thesis by (simp add: parse_host_port_def)
qed

lemma parse_ipv6_literal_without_port:
  "parse_host_port ''[fec0::1]'' 0 = (''[fec0:'', 1)"
  by (simp add: parse_host_port_def strim_def substr_def stoi_def strtol10_def c_str_def
      is_space_def is_digit_def digit_val_def fit_def signed_take_bit_eq_if_positive)

lemma is_same_host_sym: "is_same_host R a b = is_same_host R b a"
  by (auto simp: is_same_host_def split: option.splits addr_t.splits)

subsection \<open>Error strings and the addresses of a socket\<close>

text \<open>\<open>strerr\<close> is \<open>strerror_l\<close> in the English locale, \<open>None\<close> without a locale or a string;
  \<open>peer\<close> and \<open>local\<close> are \<open>getpeername\<close> and \<open>getsockname\<close>.\<close>

definition get_error_string :: "(int \<Rightarrow> string option) \<Rightarrow> int \<Rightarrow> string" where
  "get_error_string strerr err =
     itos err @ (case strerr err of
        None \<Rightarrow> [] | Some s \<Rightarrow> if c_str s \<noteq> [] then '' ('' @ c_str s @ '')'' else [])"

definition last_error_string :: "(int \<Rightarrow> string option) \<Rightarrow> int \<Rightarrow> string" where
  "last_error_string strerr errno = get_error_string strerr errno"

definition get_peer_addr :: "(int \<Rightarrow> addr_t option) \<Rightarrow> int \<Rightarrow> addr_t \<Rightarrow> bool \<times> addr_t" where
  "get_peer_addr peer sock paddr = (case peer sock of None \<Rightarrow> (False, paddr) | Some a \<Rightarrow> (True, a))"

definition get_local_addr :: "(int \<Rightarrow> addr_t option) \<Rightarrow> int \<Rightarrow> addr_t \<Rightarrow> bool \<times> addr_t" where
  "get_local_addr local sock paddr = (case local sock of None \<Rightarrow> (False, paddr) | Some a \<Rightarrow> (True, a))"

text \<open>The number can be read back from the string of an error.\<close>

lemma digits_value_stops:
  "(\<And>c. c \<in> set ds \<Longrightarrow> is_digit c) \<Longrightarrow> \<not> is_digit d \<Longrightarrow> digits_value a (ds @ d # r) = digits_value a ds"
  by (induction ds arbitrary: a) auto

lemma c_str_append: "c_str s = s \<Longrightarrow> c_str (s @ r) = s @ c_str r"
  by (induction s) (auto simp: c_str_def split: if_splits)

lemma strtol10_digits:
  assumes "\<not> is_digit d" "d \<noteq> CHR 0x00"
  shows "strtol10 (itos v @ d # r) = strtol10 (itos v)"
proof -
  obtain c cs where n: "nat_digits (nat \<bar>v\<bar>) = c # cs" by (cases "nat_digits (nat \<bar>v\<bar>)") auto
  have c: "is_digit c" using nat_digits_all_digits [of c "nat \<bar>v\<bar>"] n by simp
  note cc = digit_not_special [OF c]
  have t: "c_str (c # cs @ d # r) = c # cs @ c_str (d # r)" "c_str (c # cs) = c # cs"
    using c_str_append [of "c # cs" "d # r"] c_str_nat_digits [of "nat \<bar>v\<bar>"] n by simp_all
  have dd: "c_str (d # r) = d # c_str r" using assms(2) by (simp add: c_str_def)
  have v: "digits_value 0 (c # cs @ d # c_str r) = digits_value 0 (c # cs)"
    using digits_value_stops [of "c # cs" d 0 "c_str r"] nat_digits_all_digits [of _ "nat \<bar>v\<bar>"] n assms(1) by simp
  show ?thesis
  proof (cases "v < 0")
    case True
    then have i: "itos v = CHR ''-'' # c # cs" using n by (simp add: itos_def)
    have "c_str (CHR ''-'' # x) = CHR ''-'' # c_str x" for x by (simp add: c_str_def)
    moreover have "\<not> is_space (CHR ''-'')" by code_simp
    ultimately show ?thesis using t dd v i by (simp add: strtol10_def)
  next
    case False
    then have i: "itos v = c # cs" using n by (simp add: itos_def)
    show ?thesis using t dd v i cc by (simp add: strtol10_def)
  qed
qed

lemma error_string_number:
  assumes "in_int_range err"
  shows "stoi (get_error_string strerr err) = err"
proof -
  have s: "\<not> is_digit (CHR '' '')" by code_simp
  have "strtol10 (get_error_string strerr err) = strtol10 (itos err)"
    using strtol10_digits [OF s, of err] by (auto simp: get_error_string_def split: option.splits)
  then have "stoi (get_error_string strerr err) = stoi (itos err)" by (simp add: stoi_def)
  with stoi_itos [OF assms] show ?thesis by simp
qed

end
