(* ===== verification/Nbproto.thy ===== *)
theory Nbproto
  imports Inet
begin

text \<open>
  \<open>src/src/com/include/nrdnb.h\<close>: the network browser protocol.

  A datagram is 380 bytes: the signature "iRAPPSB", the message number, and 372 bytes of data.
  Both structures are copied between memory and the wire as they are, so on the little-endian
  hosts the daemon is built for a field's bytes are read with the low byte first.  The server
  information \<open>HNRD_NBINF\<close> is the first 360 bytes of the data.
\<close>

type_synonym byte = "8 word"

definition NRD_BROWSE_PORT :: nat where "NRD_BROWSE_PORT = 4073"

definition NRD_NBSIG :: "byte list" where
  "NRD_NBSIG = map (\<lambda>c. word_of_nat (of_char c)) ''iRAPPSB''"

text \<open>\<open>HNRD_NBINF\<close>, with the fields of its parts \<open>svc\<close>, \<open>mem\<close> and \<open>cpu\<close> in line.\<close>

record HNRD_NBINF =
  ni_type :: byte
  ni_res1 :: byte
  ni_cmax :: "16 word"
  ni_name :: "byte list"
  ni_desc :: "byte list"
  ni_sver :: "16 word list"
  svc_pver :: "32 word"
  svc_port :: "32 word"
  svc_ccnt :: "16 word"
  svc_stat :: "16 word"
  mem_stat :: byte
  mem_free :: byte
  mem_used :: byte
  mem_res2 :: byte
  cpu_stat :: byte
  cpu_free :: byte
  cpu_used :: byte
  cpu_res2 :: byte
  ni_res2 :: "byte list"

record HNRD_NBMSG =
  nm_sig :: "byte list"
  nm_msg :: byte
  nm_dat :: "byte list"

definition NRDNBS_ACTIVE :: "16 word" where "NRDNBS_ACTIVE = 0x0001"
definition NRDNBU_FREE :: byte where "NRDNBU_FREE = 0x01"
definition NRDNBU_USED :: byte where "NRDNBU_USED = 0x02"
definition NRDNBU_HIGH :: byte where "NRDNBU_HIGH = 0x04"

definition NRDNBM_MIN :: byte where "NRDNBM_MIN = 1"
definition NRDNBM_WHOHERE :: byte where "NRDNBM_WHOHERE = 1"
definition NRDNBM_IAMHERE :: byte where "NRDNBM_IAMHERE = 2"
definition NRDNBM_IAMLOST :: byte where "NRDNBM_IAMLOST = 3"
definition NRDNBM_GETINFO :: byte where "NRDNBM_GETINFO = 4"
definition NRDNBM_RETINFO :: byte where "NRDNBM_RETINFO = 5"
definition NRDNBM_MAX :: byte where "NRDNBM_MAX = 5"

lemmas nbm_consts = NRDNBM_MIN_def NRDNBM_WHOHERE_def NRDNBM_IAMHERE_def NRDNBM_IAMLOST_def
  NRDNBM_GETINFO_def NRDNBM_RETINFO_def NRDNBM_MAX_def

subsection \<open>The memory layout\<close>

definition le16 :: "16 word \<Rightarrow> byte list" where
  "le16 w = [ucast w, ucast (drop_bit 8 w)]"

definition le32 :: "32 word \<Rightarrow> byte list" where
  "le32 w = [ucast w, ucast (drop_bit 8 w), ucast (drop_bit 16 w), ucast (drop_bit 24 w)]"

definition rd16 :: "byte list \<Rightarrow> nat \<Rightarrow> 16 word" where
  "rd16 bs i = ucast (bs ! i) OR push_bit 8 (ucast (bs ! (i + 1)))"

definition rd32 :: "byte list \<Rightarrow> nat \<Rightarrow> 32 word" where
  "rd32 bs i = ucast (bs ! i) OR push_bit 8 (ucast (bs ! (i + 1)))
     OR push_bit 16 (ucast (bs ! (i + 2))) OR push_bit 24 (ucast (bs ! (i + 3)))"

definition nbinf_to_bytes :: "HNRD_NBINF \<Rightarrow> byte list" where
  "nbinf_to_bytes i =
     [ni_type i, ni_res1 i] @ le16 (ni_cmax i) @ ni_name i @ ni_desc i
     @ concat (map le16 (ni_sver i)) @ le32 (svc_pver i) @ le32 (svc_port i)
     @ le16 (svc_ccnt i) @ le16 (svc_stat i)
     @ [mem_stat i, mem_free i, mem_used i, mem_res2 i]
     @ [cpu_stat i, cpu_free i, cpu_used i, cpu_res2 i] @ ni_res2 i"

definition nbinf_of_bytes :: "byte list \<Rightarrow> HNRD_NBINF" where
  "nbinf_of_bytes bs =
     \<lparr>ni_type = bs ! 0, ni_res1 = bs ! 1, ni_cmax = rd16 bs 2,
      ni_name = take 64 (drop 4 bs), ni_desc = take 256 (drop 68 bs),
      ni_sver = map (\<lambda>k. rd16 bs (324 + 2 * k)) [0..<4],
      svc_pver = rd32 bs 332, svc_port = rd32 bs 336,
      svc_ccnt = rd16 bs 340, svc_stat = rd16 bs 342,
      mem_stat = bs ! 344, mem_free = bs ! 345, mem_used = bs ! 346, mem_res2 = bs ! 347,
      cpu_stat = bs ! 348, cpu_free = bs ! 349, cpu_used = bs ! 350, cpu_res2 = bs ! 351,
      ni_res2 = take 8 (drop 352 bs)\<rparr>"

definition nbinf_zero :: HNRD_NBINF where
  "nbinf_zero = nbinf_of_bytes (replicate 360 0)"

definition nbmsg_to_bytes :: "HNRD_NBMSG \<Rightarrow> byte list" where
  "nbmsg_to_bytes m = nm_sig m @ [nm_msg m] @ nm_dat m"

definition nbmsg_of_bytes :: "byte list \<Rightarrow> HNRD_NBMSG" where
  "nbmsg_of_bytes bs = \<lparr>nm_sig = take 7 bs, nm_msg = bs ! 7, nm_dat = drop 8 bs\<rparr>"

text \<open>A machine name as \<open>strcmp\<close> sees it: from the first byte of the name to the first zero
  byte, past the end of the array if the array holds none.\<close>

definition bytes_str :: "byte list \<Rightarrow> string" where
  "bytes_str bs = map (\<lambda>b. char_of (unat b)) bs"

definition nbinf_name :: "HNRD_NBINF \<Rightarrow> string" where
  "nbinf_name i = c_str (bytes_str (drop 4 (nbinf_to_bytes i)))"

definition nbinf_wf :: "HNRD_NBINF \<Rightarrow> bool" where
  "nbinf_wf i \<longleftrightarrow> length (ni_name i) = 64 \<and> length (ni_desc i) = 256 \<and> length (ni_sver i) = 4
     \<and> length (ni_res2 i) = 8"

definition nbmsg_wf :: "HNRD_NBMSG \<Rightarrow> bool" where
  "nbmsg_wf m \<longleftrightarrow> length (nm_sig m) = 7 \<and> length (nm_dat m) = 372"

subsection \<open>Facts\<close>

lemma le16_length [simp]: "length (le16 w) = 2" by (simp add: le16_def)
lemma le32_length [simp]: "length (le32 w) = 4" by (simp add: le32_def)

lemma join16: "ucast (ucast w :: byte) OR push_bit 8 (ucast (ucast (drop_bit 8 w) :: byte)) = (w :: 16 word)"
  by (rule bit_eqI) (auto simp: bit_simps)

lemma join32: "ucast (ucast w :: byte) OR push_bit 8 (ucast (ucast (drop_bit 8 w) :: byte))
    OR push_bit 16 (ucast (ucast (drop_bit 16 w) :: byte))
    OR push_bit 24 (ucast (ucast (drop_bit 24 w) :: byte)) = (w :: 32 word)"
proof (rule bit_eqI)
  fix n :: nat
  assume "possible_bit TYPE(32 word) n"
  then have "n < 32" by simp
  moreover have "n < 24 \<or> 24 + (n - 24) = n" by linarith
  ultimately show "bit (ucast (ucast w :: byte) OR push_bit 8 (ucast (ucast (drop_bit 8 w) :: byte))
    OR push_bit 16 (ucast (ucast (drop_bit 16 w) :: byte))
    OR push_bit 24 (ucast (ucast (drop_bit 24 w) :: byte)) :: 32 word) n = bit w n"
    by (auto simp: bit_simps)
qed

lemma rd16_le16: "length p = i \<Longrightarrow> rd16 (p @ le16 w @ s) i = w"
  by (simp add: rd16_def le16_def nth_append join16)

lemma rd32_le32: "length p = i \<Longrightarrow> rd32 (p @ le32 w @ s) i = w"
  by (simp add: rd32_def le32_def nth_append join32)

lemma list4: "length xs = 4 \<longleftrightarrow> (\<exists>a b c d. xs = [a, b, c, d])"
  by (auto simp: length_Suc_conv eval_nat_numeral)

lemma nbinf_to_bytes_length: "nbinf_wf i \<Longrightarrow> length (nbinf_to_bytes i) = 360"
  by (auto simp: nbinf_wf_def nbinf_to_bytes_def list4)

lemma byte_bits: "bit (b :: byte) (8 + n) = False" "bit b (16 + n) = False" "bit b (24 + n) = False"
  using bit_imp_le_length [of b "8 + n"] bit_imp_le_length [of b "16 + n"] bit_imp_le_length [of b "24 + n"]
  by auto

lemma split16: "le16 (ucast a OR push_bit 8 (ucast b)) = [a, b :: byte]"
  by (auto simp: le16_def bit_simps byte_bits intro!: bit_eqI)

lemma le16_rd16: "i + 1 < length bs \<Longrightarrow> le16 (rd16 bs i) = take 2 (drop i bs)"
  by (simp add: rd16_def split16 Cons_nth_drop_Suc [symmetric] numeral_2_eq_2)

lemma bytes_suffixes:
  assumes "nbinf_wf i"
  shows "drop 4 (nbinf_to_bytes i) = ni_name i @ drop 68 (nbinf_to_bytes i)"
    "drop 68 (nbinf_to_bytes i) = ni_desc i @ drop 324 (nbinf_to_bytes i)"
    "drop 324 (nbinf_to_bytes i) = concat (map le16 (ni_sver i)) @ drop 332 (nbinf_to_bytes i)"
    "drop 332 (nbinf_to_bytes i) = le32 (svc_pver i) @ le32 (svc_port i)
      @ le16 (svc_ccnt i) @ le16 (svc_stat i) @ [mem_stat i, mem_free i, mem_used i, mem_res2 i]
      @ [cpu_stat i, cpu_free i, cpu_used i, cpu_res2 i] @ ni_res2 i"
proof -
  have "length (concat (map le16 (ni_sver i))) = 8"
    using assms by (auto simp: nbinf_wf_def list4)
  with assms show "drop 4 (nbinf_to_bytes i) = ni_name i @ drop 68 (nbinf_to_bytes i)"
    "drop 68 (nbinf_to_bytes i) = ni_desc i @ drop 324 (nbinf_to_bytes i)"
    "drop 324 (nbinf_to_bytes i) = concat (map le16 (ni_sver i)) @ drop 332 (nbinf_to_bytes i)"
    "drop 332 (nbinf_to_bytes i) = le32 (svc_pver i) @ le32 (svc_port i)
      @ le16 (svc_ccnt i) @ le16 (svc_stat i) @ [mem_stat i, mem_free i, mem_used i, mem_res2 i]
      @ [cpu_stat i, cpu_free i, cpu_used i, cpu_res2 i] @ ni_res2 i"
    by (simp_all add: nbinf_wf_def nbinf_to_bytes_def)
qed

lemma rd16_drop: "k \<le> length bs \<Longrightarrow> k \<le> n \<Longrightarrow> rd16 bs n = rd16 (drop k bs) (n - k)"
  by (simp add: rd16_def)

lemma rd32_drop: "k \<le> length bs \<Longrightarrow> k \<le> n \<Longrightarrow> rd32 bs n = rd32 (drop k bs) (n - k)"
  by (simp add: rd32_def)

lemma nth_drop_sub: "k \<le> length bs \<Longrightarrow> k \<le> n \<Longrightarrow> bs ! n = drop k bs ! (n - k)"
  by simp

lemma nbinf_of_to_bytes:
  assumes wf: "nbinf_wf i"
  shows "nbinf_of_bytes (nbinf_to_bytes i) = i"
proof -
  let ?b = "nbinf_to_bytes i"
  note len = nbinf_to_bytes_length [OF wf] and suf = bytes_suffixes [OF wf]
  have head: "?b ! 0 = ni_type i" "?b ! 1 = ni_res1 i" "rd16 ?b 2 = ni_cmax i"
    by (simp_all add: nbinf_to_bytes_def rd16_def le16_def join16)
  have strs: "take 64 (drop 4 ?b) = ni_name i" "take 256 (drop 68 ?b) = ni_desc i"
    using wf suf(1,2) by (simp_all add: nbinf_wf_def)
  obtain a b c d where v: "ni_sver i = [a, b, c, d]"
    using wf by (auto simp: nbinf_wf_def list4)
  have "rd16 ?b (324 + 2 * k) = rd16 (drop 324 ?b) (2 * k)" for k
    using len rd16_drop [of 324 ?b "324 + 2 * k"] by simp
  then have sver: "map (\<lambda>k. rd16 ?b (324 + 2 * k)) [0..<4] = ni_sver i"
    by (simp add: suf(3) v upt_rec rd16_def le16_def join16)
  have svc: "rd32 ?b 332 = svc_pver i" "rd32 ?b 336 = svc_port i" "rd16 ?b 340 = svc_ccnt i"
    "rd16 ?b 342 = svc_stat i"
    using len rd32_drop [of 332 ?b 332] rd32_drop [of 332 ?b 336] rd16_drop [of 332 ?b 340]
      rd16_drop [of 332 ?b 342]
    by (simp_all add: suf(4) rd16_def rd32_def le16_def le32_def join16 join32)
  have use: "?b ! 344 = mem_stat i" "?b ! 345 = mem_free i" "?b ! 346 = mem_used i" "?b ! 347 = mem_res2 i"
    "?b ! 348 = cpu_stat i" "?b ! 349 = cpu_free i" "?b ! 350 = cpu_used i" "?b ! 351 = cpu_res2 i"
    using len nth_drop_sub [of 332 ?b 344] nth_drop_sub [of 332 ?b 345] nth_drop_sub [of 332 ?b 346]
      nth_drop_sub [of 332 ?b 347] nth_drop_sub [of 332 ?b 348] nth_drop_sub [of 332 ?b 349]
      nth_drop_sub [of 332 ?b 350] nth_drop_sub [of 332 ?b 351]
    by (simp_all add: suf(4) le16_def le32_def)
  have "drop 352 ?b = drop 20 (drop 332 ?b)" by simp
  then have "take 8 (drop 352 ?b) = ni_res2 i"
    using wf by (simp add: suf(4) nbinf_wf_def le16_def le32_def)
  with head strs sver svc use show ?thesis
    by (simp add: nbinf_of_bytes_def)
qed

text \<open>What follows the information in a message does not change how it is read.\<close>

lemma nbinf_of_append:
  assumes "length bs = 360"
  shows "nbinf_of_bytes (bs @ pad) = nbinf_of_bytes bs"
proof -
  have "rd16 (bs @ pad) k = rd16 bs k" if "k < 359" for k using that assms by (simp add: rd16_def nth_append)
  moreover have "rd32 (bs @ pad) k = rd32 bs k" if "k < 357" for k using that assms by (simp add: rd32_def nth_append)
  ultimately show ?thesis using assms by (simp add: nbinf_of_bytes_def nth_append)
qed

lemma nbinf_sent:
  assumes "nbinf_wf i"
  shows "nbinf_of_bytes (nbinf_to_bytes i @ pad) = i"
  using nbinf_of_append [OF nbinf_to_bytes_length [OF assms]] nbinf_of_to_bytes [OF assms] by simp

end
