(* ===== verification/Netsock.thy ===== *)
theory Netsock
  imports Inet
begin

text \<open>
  The socket tools, \<open>src/src/nrdpx_socket.cpp\<close>, on Linux.

  The system calls are fields of \<open>sock_os\<close>, an argument of the functions: what \<open>socket\<close>,
  \<open>accept\<close>, \<open>connect\<close> return, whether \<open>ioctl\<close>, \<open>bind\<close>, \<open>listen\<close> succeed, and the answers of
  \<open>getsockopt\<close> (\<open>None\<close> when it fails).  The open descriptors are a set that the functions
  take and return; \<open>NRD_NOSOCK\<close> is \<open>-1\<close>.  \<open>nrdpx_socket_close\<close> also sets the variable it is given to
  \<open>NRD_NOSOCK\<close>, which its callers in the model do where the variable lives on.  Log messages, and options whose failure is only
  logged (\<open>SO_REUSEADDR\<close>, \<open>TCP_NODELAY\<close>, \<open>IPV6_V6ONLY\<close>), leave no trace in the model.
\<close>

definition NRD_NOSOCK :: int where "NRD_NOSOCK = -1"

definition NRDPX_STANDARD_MTU :: int where "NRDPX_STANDARD_MTU = 1500"
definition NRDPX_STANDARD_MSS :: int where "NRDPX_STANDARD_MSS = NRDPX_STANDARD_MTU - 40"
definition NRDPX_STANDARD_BSS :: int where "NRDPX_STANDARD_BSS = NRDPX_STANDARD_MSS * 6"

datatype sockopt = SO_SNDBUF | SO_RCVBUF

record sock_os =
  sys_socket :: "family \<Rightarrow> int"
  sys_ioctl_ok :: "int \<Rightarrow> bool"
  sys_bind_ok :: "int \<Rightarrow> addr_t \<Rightarrow> bool"
  sys_listen_ok :: "int \<Rightarrow> bool"
  sys_accept :: "int \<Rightarrow> int"
  sys_connect :: "int \<Rightarrow> addr_t \<Rightarrow> int"
  sys_so_error :: "int \<Rightarrow> int option"
  sys_maxseg :: "int \<Rightarrow> int option"
  sys_getbuf :: "int \<Rightarrow> sockopt \<Rightarrow> int option"
  sys_setbuf_ok :: "int \<Rightarrow> sockopt \<Rightarrow> int \<Rightarrow> bool"

subsection \<open>Sockets\<close>

definition nrdpx_socket_error :: "sock_os \<Rightarrow> int \<Rightarrow> int" where
  "nrdpx_socket_error os sock = (case sys_so_error os sock of None \<Rightarrow> -1 | Some opt \<Rightarrow> opt)"

definition nrdpx_socket_close :: "int set \<Rightarrow> int \<Rightarrow> int set" where
  "nrdpx_socket_close fds sock = (if sock \<noteq> NRD_NOSOCK then fds - {sock} else fds)"

definition nrdpx_socket_create :: "sock_os \<Rightarrow> int set \<Rightarrow> family \<Rightarrow> bool \<Rightarrow> int \<times> int set" where
  "nrdpx_socket_create os fds fam blocked =
     (let sock = sys_socket os fam in
      if sock = NRD_NOSOCK then (sock, fds)
      else let fds = insert sock fds in
           if \<not> blocked \<and> \<not> sys_ioctl_ok os sock then (-1, nrdpx_socket_close fds sock)
           else (sock, fds))"

definition nrdpx_socket_accept :: "sock_os \<Rightarrow> int set \<Rightarrow> int \<Rightarrow> int \<times> int set" where
  "nrdpx_socket_accept os fds sock =
     (let ret = sys_accept os sock in
      if ret = NRD_NOSOCK then (ret, fds) else (ret, insert ret fds))"

definition nrdpx_socket_connect :: "sock_os \<Rightarrow> int \<Rightarrow> addr_t option \<Rightarrow> int" where
  "nrdpx_socket_connect os sock paddr =
     (case paddr of None \<Rightarrow> -1
      | Some a \<Rightarrow> if sock = NRD_NOSOCK then -1 else sys_connect os sock a)"

text \<open>\<open>listen\<close> returns the socket, the open descriptors, and the host, which it replaces by
  the "any" address when the host cannot be interpreted.\<close>

definition nrdpx_socket_listen ::
  "sock_os \<Rightarrow> resolver \<Rightarrow> int set \<Rightarrow> string \<Rightarrow> int \<Rightarrow> int \<times> int set \<times> string" where
  "nrdpx_socket_listen os R fds host port =
     (let (addr, host) =
        (case host_to_addr R host False of
           Some a \<Rightarrow> (a, host)
         | None \<Rightarrow>
             let fam = guess_addr_family host False;
                 host = (if fam = AF_INET6 then XTL_INET_IPV6_ANY else XTL_INET_IPV4_ANY)
             in (case set_addr_any fam of Some a \<Rightarrow> a | None \<Rightarrow> Addr_other 0, host));
          (sock, fds) = nrdpx_socket_create os fds (sa_family addr) False
      in if sock = NRD_NOSOCK then (sock, fds, host)
         else let addr = fst (set_addr_port addr port) in
           if \<not> sys_bind_ok os sock addr then (NRD_NOSOCK, nrdpx_socket_close fds sock, host)
           else if \<not> sys_listen_ok os sock then (NRD_NOSOCK, nrdpx_socket_close fds sock, host)
           else (sock, fds, host))"

subsection \<open>Socket buffers\<close>

definition nrdpx_socket_calc_buffer_size :: "int \<Rightarrow> int \<Rightarrow> int \<Rightarrow> int" where
  "nrdpx_socket_calc_buffer_size mss bss limit =
     (if mss < c_div NRDPX_STANDARD_MSS 3 \<or> bss < c_div NRDPX_STANDARD_BSS 3 \<or> c_div bss mss < 4
      then bss
      else let ret = c_div (xtl_min bss limit) mss * mss in
           if ret < mss * 6 then xtl_min bss (mss * 6) else ret)"

text \<open>The kernel reports the doubled size; \<open>None\<close> when the call fails or reports nothing.\<close>

definition nrdpx_socket_get_buffer :: "sock_os \<Rightarrow> int \<Rightarrow> sockopt \<Rightarrow> int option" where
  "nrdpx_socket_get_buffer os sock opt =
     (case sys_getbuf os sock opt of
        None \<Rightarrow> None
      | Some psize \<Rightarrow> if psize \<le> 0 then None else Some (c_div psize 2))"

definition nrdpx_socket_get_send_buffer :: "sock_os \<Rightarrow> int \<Rightarrow> int option" where
  "nrdpx_socket_get_send_buffer os sock = nrdpx_socket_get_buffer os sock SO_SNDBUF"

definition nrdpx_socket_get_recv_buffer :: "sock_os \<Rightarrow> int \<Rightarrow> int option" where
  "nrdpx_socket_get_recv_buffer os sock = nrdpx_socket_get_buffer os sock SO_RCVBUF"

definition nrdpx_socket_set_send_buffer :: "sock_os \<Rightarrow> int \<Rightarrow> int \<Rightarrow> bool" where
  "nrdpx_socket_set_send_buffer os sock sz = sys_setbuf_ok os sock SO_SNDBUF sz"

definition nrdpx_socket_set_recv_buffer :: "sock_os \<Rightarrow> int \<Rightarrow> int \<Rightarrow> bool" where
  "nrdpx_socket_set_recv_buffer os sock sz = sys_setbuf_ok os sock SO_RCVBUF sz"

text \<open>\<open>adjust_buffers\<close>: the result and the buffer sizes requested from the kernel.\<close>

definition nrdpx_socket_adjust_buffers :: "sock_os \<Rightarrow> int \<Rightarrow> bool \<Rightarrow> int \<Rightarrow> bool \<times> (sockopt \<times> int) list" where
  "nrdpx_socket_adjust_buffers os sock align limit =
     (if sock = NRD_NOSOCK then (False, [])
      else if \<not> align then
        (if \<not> nrdpx_socket_set_send_buffer os sock limit then (False, [(SO_SNDBUF, limit)])
         else (nrdpx_socket_set_recv_buffer os sock limit, [(SO_SNDBUF, limit), (SO_RCVBUF, limit)]))
      else
        (True,
         case sys_maxseg os sock of
           None \<Rightarrow> []
         | Some mss \<Rightarrow>
             if mss \<le> 0 then []
             else (case nrdpx_socket_get_send_buffer os sock of None \<Rightarrow> []
                   | Some bss \<Rightarrow> [(SO_SNDBUF, nrdpx_socket_calc_buffer_size mss bss limit)])
                @ (case nrdpx_socket_get_recv_buffer os sock of None \<Rightarrow> []
                   | Some bss \<Rightarrow> [(SO_RCVBUF, nrdpx_socket_calc_buffer_size mss bss limit)])))"

subsection \<open>Facts\<close>

lemmas socket_consts = NRD_NOSOCK_def NRDPX_STANDARD_MTU_def NRDPX_STANDARD_MSS_def NRDPX_STANDARD_BSS_def

text \<open>Sockets are not leaked: a call that returns no socket leaves the open descriptors as
  they were, one that returns a socket adds just that one (the kernel hands out descriptors
  that are not open).\<close>

lemma socket_create_fds:
  assumes "sys_socket os fam \<notin> fds" "nrdpx_socket_create os fds fam blocked = (sock, fds')"
  shows "fds' = (if sock = NRD_NOSOCK then fds else insert sock fds)"
  using assms by (auto simp: nrdpx_socket_create_def nrdpx_socket_close_def socket_consts Let_def split: if_splits)

lemma socket_listen_fds:
  assumes fresh: "\<And>fam. sys_socket os fam \<notin> fds"
    and r: "nrdpx_socket_listen os R fds host port = (sock, fds', host')"
  shows "fds' = (if sock = NRD_NOSOCK then fds else insert sock fds)"
proof -
  have close: "nrdpx_socket_close (insert s fds) s = fds" if "s \<notin> fds" "s \<noteq> NRD_NOSOCK" for s
    using that by (auto simp: nrdpx_socket_close_def)
  show ?thesis
    using r fresh close
    by (auto simp: nrdpx_socket_listen_def nrdpx_socket_create_def nrdpx_socket_close_def socket_consts Let_def
        split: if_splits prod.splits option.splits)
qed

text \<open>The size asked from the kernel: never above what the socket has, a multiple of the
  segment size or the old size, and at least six segments where the socket has as many.\<close>

lemma calc_buffer_size_bounds:
  fixes mss bss limit :: int
  assumes "0 \<le> bss" "0 \<le> limit"
  defines "r \<equiv> nrdpx_socket_calc_buffer_size mss bss limit"
  shows "0 \<le> r" "r \<le> bss" "r = bss \<or> mss dvd r" "r = bss \<or> r \<le> max limit (mss * 6)"
    "r = bss \<or> min bss (mss * 6) \<le> r"
proof -
  define q where "q = min bss limit div mss * mss"
  have r: "r = bss \<or> (486 \<le> mss \<and> r = (if q < mss * 6 then min bss (mss * 6) else q))"
  proof -
    have "c_div (min bss limit) mss = min bss limit div mss" if "486 \<le> mss"
      using assms(1,2) that by (intro c_div_nonneg) auto
    then show ?thesis
      by (auto simp: r_def q_def nrdpx_socket_calc_buffer_size_def socket_consts Let_def)
  qed
  have q: "q \<le> min bss limit" "0 \<le> q" if "486 \<le> mss"
  proof -
    have "q + min bss limit mod mss = min bss limit" by (simp add: q_def)
    moreover have "0 \<le> min bss limit mod mss" using that by simp
    ultimately show "q \<le> min bss limit" by linarith
    show "0 \<le> q" using that assms(1,2) by (simp add: q_def pos_imp_zdiv_nonneg_iff)
  qed
  have dvd: "mss dvd q" by (simp add: q_def)
  show "0 \<le> r" "r \<le> bss" "r = bss \<or> mss dvd r" "r = bss \<or> r \<le> max limit (mss * 6)"
    "r = bss \<or> min bss (mss * 6) \<le> r"
    using assms(1,2) r q dvd by (auto simp: min_def max_def split: if_splits)
qed

subsection \<open>The socket subsystem\<close>

text \<open>On Unix its start only turns off \<open>SIGPIPE\<close>, so that \<open>send\<close> on a closed connection is an
  error and not the end of the process; its end does not turn it on again.\<close>

record socket_system =
  sy_status :: bool
  sy_sigpipe :: bool

definition nrdpx_socket_init :: "socket_system \<Rightarrow> bool \<times> socket_system" where
  "nrdpx_socket_init sy = (True, if \<not> sy_status sy then sy\<lparr>sy_sigpipe := False, sy_status := True\<rparr> else sy)"

definition nrdpx_socket_exit :: "socket_system \<Rightarrow> socket_system" where
  "nrdpx_socket_exit sy = (if sy_status sy then sy\<lparr>sy_status := False\<rparr> else sy)"

lemma socket_init_once:
  "\<not> sy_status sy \<Longrightarrow> snd (nrdpx_socket_init sy) = \<lparr>sy_status = True, sy_sigpipe = False\<rparr>"
  "sy_status sy \<Longrightarrow> snd (nrdpx_socket_init sy) = sy"
  "sy_sigpipe (nrdpx_socket_exit sy) = sy_sigpipe sy"
  by (simp_all add: nrdpx_socket_init_def nrdpx_socket_exit_def)

end
