(* ===== verification/Vector.thy ===== *)
theory Vector
  imports Prelude
begin

text \<open>
  \<open>src/src/com/xtllib/xtl_vector.h\<close>: a vector is its items and its capacity; \<open>m_size\<close> is
  the number of items.  Sizes are \<open>size_t\<close>: \<open>max_size\<close> is the number of items of \<open>isz\<close>
  bytes that fit 64 bits, and everything below it is computed without wrap-around.  An
  exception of the source is a value of \<open>xtl_error\<close>.  Growing, shrinking and erasing move
  items bytewise; the model keeps the items, which is what the source relies on.

  The contract \<open>vector_adt\<close> states what the clients use: a vector is a list.
\<close>

datatype xtl_error =
    Vector_has_maximal_size
  | Invalid_vector_size
  | Vector_index_out_of_range
  | Iterator_out_of_range
  | Second_iterator_less

record 'a xvec =
  m_items :: "'a list"
  m_capacity :: nat

definition m_size :: "'a xvec \<Rightarrow> nat" where
  "m_size v = length (m_items v)"

definition XTL_VECTOR_PAGE_SZ :: nat where
  "XTL_VECTOR_PAGE_SZ = 16"

definition max_size :: "nat \<Rightarrow> nat" where
  "max_size isz = (2 ^ 64 - 1) div isz"

definition calc_capacity :: "nat \<Rightarrow> nat" where
  "calc_capacity sz = (sz div XTL_VECTOR_PAGE_SZ + 1) * XTL_VECTOR_PAGE_SZ"

definition set_capacity :: "nat \<Rightarrow> 'a xvec \<Rightarrow> 'a xvec" where
  "set_capacity cp v = v\<lparr>m_capacity := (if cp < m_size v then m_size v else cp)\<rparr>"

definition empty_vec :: "'a xvec" where
  "empty_vec = \<lparr>m_items = [], m_capacity = 0\<rparr>"

definition before_increase :: "nat \<Rightarrow> nat \<Rightarrow> 'a xvec \<Rightarrow> xtl_error + 'a xvec" where
  "before_increase isz icount v =
     (if m_size v + icount > max_size isz then Inl Vector_has_maximal_size
      else if m_capacity v - m_size v < icount
      then Inr (set_capacity (calc_capacity (m_size v + icount)) v)
      else Inr v)"

definition after_decrease :: "'a xvec \<Rightarrow> 'a xvec" where
  "after_decrease v =
     (if m_capacity v - m_size v > XTL_VECTOR_PAGE_SZ * 4
      then set_capacity (m_size v + XTL_VECTOR_PAGE_SZ) v else v)"

definition push_back :: "nat \<Rightarrow> 'a xvec \<Rightarrow> 'a \<Rightarrow> xtl_error + 'a xvec" where
  "push_back isz v x =
     (case before_increase isz 1 v of
        Inl e \<Rightarrow> Inl e
      | Inr v \<Rightarrow> Inr (v\<lparr>m_items := m_items v @ [x]\<rparr>))"

definition pop_back :: "'a xvec \<Rightarrow> 'a xvec" where
  "pop_back v = (if m_size v \<noteq> 0 then after_decrease (v\<lparr>m_items := butlast (m_items v)\<rparr>) else v)"

definition clear_vec :: "'a xvec \<Rightarrow> 'a xvec" where
  "clear_vec v = (if m_size v \<noteq> 0 then after_decrease (v\<lparr>m_items := []\<rparr>) else v)"

definition insert_at :: "nat \<Rightarrow> 'a xvec \<Rightarrow> nat \<Rightarrow> 'a \<Rightarrow> xtl_error + 'a xvec" where
  "insert_at isz v idx x =
     (if idx > m_size v then Inl Iterator_out_of_range
      else case before_increase isz 1 v of
             Inl e \<Rightarrow> Inl e
           | Inr v \<Rightarrow> Inr (v\<lparr>m_items := take idx (m_items v) @ x # drop idx (m_items v)\<rparr>))"

definition erase_at :: "'a xvec \<Rightarrow> nat \<Rightarrow> xtl_error + 'a xvec" where
  "erase_at v idx =
     (if idx > m_size v then Inl Iterator_out_of_range
      else if idx = m_size v then Inr v
      else Inr (after_decrease (v\<lparr>m_items := take idx (m_items v) @ drop (Suc idx) (m_items v)\<rparr>)))"

definition erase_range :: "'a xvec \<Rightarrow> nat \<Rightarrow> nat \<Rightarrow> xtl_error + 'a xvec" where
  "erase_range v idx1 idx2 =
     (if idx1 > m_size v \<or> idx2 > m_size v then Inl Iterator_out_of_range
      else if idx2 < idx1 then Inl Second_iterator_less
      else if idx2 > idx1
      then Inr (after_decrease (v\<lparr>m_items := take idx1 (m_items v) @ drop idx2 (m_items v)\<rparr>))
      else Inr v)"

definition remove_at :: "'a xvec \<Rightarrow> nat \<Rightarrow> xtl_error + 'a xvec" where
  "remove_at v idx = erase_at v idx"

definition vec_at :: "'a xvec \<Rightarrow> nat \<Rightarrow> xtl_error + 'a" where
  "vec_at v idx = (if idx \<ge> m_size v then Inl Vector_index_out_of_range else Inr (m_items v ! idx))"

definition vec_front :: "'a xvec \<Rightarrow> xtl_error + 'a" where
  "vec_front v = vec_at v 0"

definition vec_back :: "'a xvec \<Rightarrow> xtl_error + 'a" where
  "vec_back v = (if m_size v = 0 then vec_at v 0 else vec_at v (m_size v - 1))"

definition resize :: "nat \<Rightarrow> 'a xvec \<Rightarrow> nat \<Rightarrow> 'a \<Rightarrow> xtl_error + 'a xvec" where
  "resize isz v sz vr =
     (if sz = m_size v then Inr v
      else if sz > max_size isz then Inl Invalid_vector_size
      else if sz > m_size v then
        (let v' = (if calc_capacity sz > m_capacity v then set_capacity (calc_capacity sz) v else v)
         in Inr (v'\<lparr>m_items := m_items v @ replicate (sz - m_size v) vr\<rparr>))
      else Inr (v\<lparr>m_items := take sz (m_items v)\<rparr>))"

definition reserve :: "'a xvec \<Rightarrow> nat \<Rightarrow> 'a xvec" where
  "reserve v sz = (if calc_capacity sz > m_capacity v then set_capacity (calc_capacity sz) v else v)"

definition pack :: "'a xvec \<Rightarrow> 'a xvec" where
  "pack v = (if m_capacity v > m_size v then set_capacity (m_size v) v else v)"

fun push_all :: "nat \<Rightarrow> 'a xvec \<Rightarrow> 'a list \<Rightarrow> xtl_error + 'a xvec" where
  "push_all isz v [] = Inr v"
| "push_all isz v (x # xs) =
     (case push_back isz v x of Inl e \<Rightarrow> Inl e | Inr v \<Rightarrow> push_all isz v xs)"

definition assign :: "nat \<Rightarrow> 'a xvec \<Rightarrow> xtl_error + 'a xvec" where
  "assign isz src = push_all isz (set_capacity (m_capacity src) empty_vec) (m_items src)"

definition swap_vec :: "'a xvec \<times> 'a xvec \<Rightarrow> 'a xvec \<times> 'a xvec" where
  "swap_vec p = (snd p, fst p)"

text \<open>The comparison counts the positions where one side is larger.\<close>

fun compare_loop :: "'a::linorder list \<Rightarrow> 'a list \<Rightarrow> int \<Rightarrow> int" where
  "compare_loop (a # u) (b # v) ret =
     compare_loop u v (if a > b then ret + 1 else if a < b then ret - 1 else ret)"
| "compare_loop _ _ ret = ret"

definition compare_vectors :: "'a::linorder list \<Rightarrow> 'a list \<Rightarrow> int" where
  "compare_vectors vt1 vt2 =
     (if vt1 = [] \<and> vt2 = [] then 0
      else if vt2 = [] then 1
      else if vt1 = [] then -1
      else compare_loop vt1 vt2 0)"

fun vectors_equal_loop :: "'a list \<Rightarrow> 'a list \<Rightarrow> bool" where
  "vectors_equal_loop (a # u) (b # v) = (if a \<noteq> b then False else vectors_equal_loop u v)"
| "vectors_equal_loop _ _ = True"

definition vectors_equal :: "'a list \<Rightarrow> 'a list \<Rightarrow> bool" where
  "vectors_equal vt1 vt2 =
     (if length vt1 \<noteq> length vt2 then False else vectors_equal_loop vt1 vt2)"

subsection \<open>The contract: a vector is a list\<close>

locale vector_adt =
  fixes vec_ok :: "'v \<Rightarrow> bool"
    and contents :: "'v \<Rightarrow> 'a list"
    and limit :: nat
    and push :: "'v \<Rightarrow> 'a \<Rightarrow> xtl_error + 'v"
    and del :: "'v \<Rightarrow> nat \<Rightarrow> xtl_error + 'v"
  assumes push_list: "vec_ok v \<Longrightarrow> length (contents v) < limit \<Longrightarrow>
      \<exists>v'. push v x = Inr v' \<and> vec_ok v' \<and> contents v' = contents v @ [x]"
    and push_full: "vec_ok v \<Longrightarrow> limit \<le> length (contents v) \<Longrightarrow> push v x = Inl Vector_has_maximal_size"
    and del_list: "vec_ok v \<Longrightarrow> i < length (contents v) \<Longrightarrow>
      \<exists>v'. del v i = Inr v' \<and> vec_ok v' \<and> contents v' = take i (contents v) @ drop (Suc i) (contents v)"
begin

text \<open>A push followed by the removal of the last item gives the contents back.\<close>

lemma push_del_last:
  assumes "vec_ok v" "length (contents v) < limit" "push v x = Inr v'"
  shows "\<exists>v''. del v' (length (contents v)) = Inr v'' \<and> vec_ok v'' \<and> contents v'' = contents v"
proof -
  from push_list [OF assms(1,2), of x] assms(3)
  have v': "vec_ok v'" "contents v' = contents v @ [x]" by auto
  from del_list [OF v'(1), of "length (contents v)"] v'(2) show ?thesis by simp
qed

text \<open>Removing the item at \<open>i\<close> leaves the others in order: no item is lost or duplicated.\<close>

lemma del_removes_one:
  assumes "vec_ok v" "i < length (contents v)" "distinct (contents v)" "del v i = Inr v'"
  shows "set (contents v') = set (contents v) - {contents v ! i} \<and> distinct (contents v')"
proof -
  let ?xs = "contents v"
  from del_list [OF assms(1,2)] assms(4)
  have v': "contents v' = take i ?xs @ drop (Suc i) ?xs" by auto
  have "?xs = take i ?xs @ ?xs ! i # drop (Suc i) ?xs"
    using assms(2) by (rule id_take_nth_drop)
  with assms(3) have "distinct (take i ?xs @ ?xs ! i # drop (Suc i) ?xs)" by simp
  then have "?xs ! i \<notin> set (take i ?xs)" "?xs ! i \<notin> set (drop (Suc i) ?xs)"
    "distinct (take i ?xs @ drop (Suc i) ?xs)" by auto
  moreover have "set ?xs = set (take i ?xs) \<union> {?xs ! i} \<union> set (drop (Suc i) ?xs)"
    using arg_cong [OF \<open>?xs = take i ?xs @ ?xs ! i # drop (Suc i) ?xs\<close>, of set] by simp
  ultimately show ?thesis using v' by auto
qed

end

subsection \<open>The invariant and the interpretation\<close>

definition vec_inv :: "'a xvec \<Rightarrow> bool" where
  "vec_inv v \<longleftrightarrow> m_size v \<le> m_capacity v"

lemma calc_capacity_gt: "sz < calc_capacity sz"
  unfolding calc_capacity_def XTL_VECTOR_PAGE_SZ_def by presburger

lemma calc_capacity_le: "calc_capacity sz \<le> sz + XTL_VECTOR_PAGE_SZ"
  unfolding calc_capacity_def XTL_VECTOR_PAGE_SZ_def by presburger

lemma set_capacity_items [simp]: "m_items (set_capacity cp v) = m_items v"
  by (simp add: set_capacity_def)

lemma after_decrease_items [simp]: "m_items (after_decrease v) = m_items v"
  by (simp add: after_decrease_def)

lemma vec_inv_after_decrease: "vec_inv v \<Longrightarrow> vec_inv (after_decrease v)"
  by (simp add: vec_inv_def after_decrease_def set_capacity_def m_size_def)

lemma vec_inv_shrink:
  "vec_inv v \<Longrightarrow> length xs \<le> m_size v \<Longrightarrow> vec_inv (after_decrease (v\<lparr>m_items := xs\<rparr>))"
  by (rule vec_inv_after_decrease) (simp add: vec_inv_def m_size_def)

lemma before_increase_cases:
  assumes "vec_inv v"
  shows "(max_size isz < m_size v + n \<and> before_increase isz n v = Inl Vector_has_maximal_size)
    \<or> (m_size v + n \<le> max_size isz \<and> (\<exists>v'. before_increase isz n v = Inr v'
         \<and> m_items v' = m_items v \<and> m_size v + n \<le> m_capacity v'))"
proof (cases "max_size isz < m_size v + n")
  case False
  let ?c = "calc_capacity (m_size v + n)"
  have "m_size v + n \<le> ?c" using calc_capacity_gt [of "m_size v + n"] by simp
  then show ?thesis
    using False assms
    by (auto simp: before_increase_def set_capacity_def vec_inv_def m_size_def)
qed (simp add: before_increase_def)

lemma push_back_room:
  assumes "vec_inv v" "m_size v < max_size isz"
  shows "\<exists>v'. push_back isz v x = Inr v' \<and> vec_inv v' \<and> m_items v' = m_items v @ [x]"
  using before_increase_cases [OF assms(1), of isz 1] assms(2)
  by (auto simp: push_back_def vec_inv_def m_size_def)

lemma push_back_full:
  "vec_inv v \<Longrightarrow> max_size isz \<le> m_size v \<Longrightarrow> push_back isz v x = Inl Vector_has_maximal_size"
  by (simp add: push_back_def before_increase_def)

lemma erase_at_inv:
  "vec_inv v \<Longrightarrow> i < m_size v \<Longrightarrow>
     \<exists>v'. erase_at v i = Inr v' \<and> vec_inv v' \<and> m_items v' = take i (m_items v) @ drop (Suc i) (m_items v)"
  by (auto simp: erase_at_def m_size_def intro!: vec_inv_shrink)

interpretation xv: vector_adt vec_inv m_items "max_size isz" "push_back isz" erase_at for isz
  by unfold_locales (simp_all add: push_back_room push_back_full erase_at_inv m_size_def [symmetric])

subsection \<open>The other operations\<close>

lemma insert_at_inv:
  assumes "vec_inv v" "i \<le> m_size v" "m_size v < max_size isz"
  shows "\<exists>v'. insert_at isz v i x = Inr v' \<and> vec_inv v'
      \<and> m_items v' = take i (m_items v) @ x # drop i (m_items v)"
  using before_increase_cases [OF assms(1), of isz 1] assms(2,3)
  by (auto simp: insert_at_def vec_inv_def m_size_def)

lemma resize_inv:
  assumes "vec_inv v" "sz \<le> max_size isz"
  shows "\<exists>v'. resize isz v sz x = Inr v' \<and> vec_inv v'
      \<and> m_items v' = take sz (m_items v) @ replicate (sz - m_size v) x"
  using assms calc_capacity_gt [of sz]
  by (auto simp: resize_def vec_inv_def m_size_def set_capacity_def Let_def)

lemma clear_vec_inv: "vec_inv v \<Longrightarrow> vec_inv (clear_vec v) \<and> m_items (clear_vec v) = []"
  by (auto simp: clear_vec_def m_size_def intro: vec_inv_shrink)

lemma pop_back_inv: "vec_inv v \<Longrightarrow> vec_inv (pop_back v) \<and> m_items (pop_back v) = butlast (m_items v)"
  by (auto simp: pop_back_def m_size_def intro: vec_inv_shrink)

lemma push_all_inv:
  "vec_inv v \<Longrightarrow> m_size v + length xs \<le> max_size isz \<Longrightarrow>
     \<exists>v'. push_all isz v xs = Inr v' \<and> vec_inv v' \<and> m_items v' = m_items v @ xs"
proof (induction xs arbitrary: v)
  case (Cons x xs)
  then obtain v' where v': "push_back isz v x = Inr v'" "vec_inv v'" "m_items v' = m_items v @ [x]"
    using push_back_room [of v isz x] by auto
  with Cons.IH [of v'] Cons.prems show ?case by (auto simp: m_size_def)
qed simp

lemma assign_copies:
  assumes "vec_inv src" "m_size src \<le> max_size isz"
  shows "\<exists>v. assign isz src = Inr v \<and> vec_inv v \<and> m_items v = m_items src"
proof -
  let ?e = "set_capacity (m_capacity src) (empty_vec :: 'a xvec)"
  have "vec_inv ?e" "m_size ?e = 0" "m_items ?e = []"
    by (simp_all add: vec_inv_def m_size_def empty_vec_def set_capacity_def)
  with push_all_inv [of ?e "m_items src" isz] assms(2) show ?thesis
    by (simp add: assign_def m_size_def)
qed

text \<open>After erasing, popping or clearing at most 64 spare places are left.\<close>

lemma after_decrease_spare: "m_capacity (after_decrease v) - m_size (after_decrease v) \<le> 64"
  by (simp add: after_decrease_def set_capacity_def m_size_def XTL_VECTOR_PAGE_SZ_def)

lemma vectors_equal_iff: "vectors_equal u v \<longleftrightarrow> u = v"
proof -
  have "length u = length v \<Longrightarrow> vectors_equal_loop u v \<longleftrightarrow> u = v"
    by (induction u v rule: vectors_equal_loop.induct) auto
  then show ?thesis by (auto simp: vectors_equal_def)
qed

lemma compare_loop_swap: "compare_loop v u (- r) = - compare_loop u v r"
proof (induction u v r rule: compare_loop.induct)
  case (1 a u b v ret)
  have "(if b > a then - ret + 1 else if b < a then - ret - 1 else - ret)
      = - (if a > b then ret + 1 else if a < b then ret - 1 else ret)" by auto
  with 1 show ?case by (simp only: compare_loop.simps)
qed auto

text \<open>The order is antisymmetric but not the lexicographic one, and its equivalence is not
  equality.\<close>

lemma compare_vectors_swap: "compare_vectors v u = - compare_vectors u v"
  using compare_loop_swap [of v u 0] by (auto simp: compare_vectors_def)

lemma compare_vectors_not_equality:
  "compare_vectors [1::int, 2] [2, 1] = 0 \<and> \<not> vectors_equal [1::int, 2] [2, 1]"
  by (simp add: compare_vectors_def vectors_equal_def)

text \<open>\<open>push_back\<close>, \<open>insert\<close> and \<open>erase\<close> on every branch.\<close>

lemma vector_list_ops:
  assumes "vec_inv v"
  shows "(case push_back isz v x of
            Inl e \<Rightarrow> e = Vector_has_maximal_size \<and> max_size isz \<le> m_size v
          | Inr v' \<Rightarrow> vec_inv v' \<and> m_items v' = m_items v @ [x])
    \<and> (case insert_at isz v i x of
            Inl e \<Rightarrow> e = Iterator_out_of_range \<and> m_size v < i \<or> e = Vector_has_maximal_size \<and> max_size isz \<le> m_size v
          | Inr v' \<Rightarrow> vec_inv v' \<and> m_items v' = take i (m_items v) @ x # drop i (m_items v))
    \<and> (case erase_at v i of
            Inl e \<Rightarrow> e = Iterator_out_of_range \<and> m_size v < i
          | Inr v' \<Rightarrow> vec_inv v' \<and> m_items v' = take i (m_items v) @ drop (Suc i) (m_items v))"
proof -
  have "case push_back isz v x of
            Inl e \<Rightarrow> e = Vector_has_maximal_size \<and> max_size isz \<le> m_size v
          | Inr v' \<Rightarrow> vec_inv v' \<and> m_items v' = m_items v @ [x]"
    using push_back_room [OF assms, of isz x] push_back_full [OF assms, of isz x]
    by (cases "m_size v < max_size isz") auto
  moreover have "case insert_at isz v i x of
            Inl e \<Rightarrow> e = Iterator_out_of_range \<and> m_size v < i \<or> e = Vector_has_maximal_size \<and> max_size isz \<le> m_size v
          | Inr v' \<Rightarrow> vec_inv v' \<and> m_items v' = take i (m_items v) @ x # drop i (m_items v)"
    using insert_at_inv [OF assms, of i isz x] before_increase_cases [OF assms, of isz 1]
    by (cases "i \<le> m_size v"; cases "m_size v < max_size isz") (auto simp: insert_at_def)
  moreover have "case erase_at v i of
            Inl e \<Rightarrow> e = Iterator_out_of_range \<and> m_size v < i
          | Inr v' \<Rightarrow> vec_inv v' \<and> m_items v' = take i (m_items v) @ drop (Suc i) (m_items v)"
    using erase_at_inv [OF assms, of i] assms
    by (cases "i < m_size v"; cases "i = m_size v") (auto simp: erase_at_def m_size_def)
  ultimately show ?thesis by blast
qed

subsection \<open>Constructors, access and iterators\<close>

text \<open>An iterator is its index, \<open>vi - m_data\<close>; a negative one is before the data.\<close>

definition vector_of :: "nat \<Rightarrow> nat \<Rightarrow> 'a \<Rightarrow> xtl_error + 'a xvec" where
  "vector_of isz n val = (if n = 0 then Inr (set_capacity 0 empty_vec) else resize isz empty_vec n val)"

definition vector_sized :: "nat \<Rightarrow> nat \<Rightarrow> 'a \<Rightarrow> xtl_error + 'a xvec" where
  "vector_sized isz n dflt = (if n = 0 then Inr (set_capacity 0 empty_vec) else resize isz empty_vec n dflt)"

definition vector_copy :: "nat \<Rightarrow> 'a xvec \<Rightarrow> xtl_error + 'a xvec" where
  "vector_copy isz v_src = assign isz v_src"

definition vector_delete :: "'a xvec \<Rightarrow> 'a xvec" where
  "vector_delete v = (clear_vec v)\<lparr>m_capacity := 0\<rparr>"

definition assign_op :: "nat \<Rightarrow> 'a xvec \<Rightarrow> xtl_error + 'a xvec" where
  "assign_op isz vt = assign isz vt"

text \<open>\<open>operator []\<close> does not look at the size: \<open>None\<close> where it reads no item.\<close>

definition vec_index :: "'a xvec \<Rightarrow> nat \<Rightarrow> 'a option" where
  "vec_index v idx = (if idx < m_size v then Some (m_items v ! idx) else None)"

definition vec_capacity :: "'a xvec \<Rightarrow> nat" where "vec_capacity v = m_capacity v"
definition vec_empty :: "'a xvec \<Rightarrow> bool" where "vec_empty v = (m_size v = 0)"
definition vec_begin :: "'a xvec \<Rightarrow> int" where "vec_begin v = 0"
definition vec_end :: "'a xvec \<Rightarrow> int" where "vec_end v = int (m_size v)"

text \<open>The difference of the pointers is unsigned, so that an iterator before the data is beyond the
  size.\<close>

definition iter_index :: "'a xvec \<Rightarrow> int \<Rightarrow> xtl_error + nat" where
  "iter_index v vi =
     (let ret = unat (word_of_int vi :: 64 word) in if ret > m_size v then Inl Iterator_out_of_range else Inr ret)"

definition check_iterator :: "'a xvec \<Rightarrow> int \<Rightarrow> xtl_error + unit" where
  "check_iterator v vi = (if vi < vec_begin v \<or> vi > vec_end v then Inl Iterator_out_of_range else Inr ())"

definition set_item :: "'a xvec \<Rightarrow> nat \<Rightarrow> 'a \<Rightarrow> 'a xvec" where
  "set_item v idx vr = v\<lparr>m_items := (m_items v)[idx := vr]\<rparr>"

definition vectors_differ :: "'a list \<Rightarrow> 'a list \<Rightarrow> bool" where
  "vectors_differ vt1 vt2 = (\<not> vectors_equal vt1 vt2)"

definition vector_less :: "'a::linorder list \<Rightarrow> 'a list \<Rightarrow> bool" where
  "vector_less vt1 vt2 = (compare_vectors vt1 vt2 < 0)"

definition vector_greater :: "'a::linorder list \<Rightarrow> 'a list \<Rightarrow> bool" where
  "vector_greater vt1 vt2 = (compare_vectors vt1 vt2 > 0)"

definition vector_less_eq :: "'a::linorder list \<Rightarrow> 'a list \<Rightarrow> bool" where
  "vector_less_eq vt1 vt2 = (compare_vectors vt1 vt2 \<le> 0)"

definition vector_greater_eq :: "'a::linorder list \<Rightarrow> 'a list \<Rightarrow> bool" where
  "vector_greater_eq vt1 vt2 = (compare_vectors vt1 vt2 \<ge> 0)"

lemma vector_of_items:
  assumes "n \<le> max_size isz"
  shows "\<exists>v. vector_of isz n x = Inr v \<and> vec_inv v \<and> m_items v = replicate n x"
proof -
  have "vec_inv (empty_vec :: 'a xvec)" "m_size (empty_vec :: 'a xvec) = 0" "m_items (empty_vec :: 'a xvec) = []"
    by (simp_all add: vec_inv_def m_size_def empty_vec_def)
  with resize_inv [of "empty_vec :: 'a xvec" n isz x] assms show ?thesis
    by (auto simp: vector_of_def vec_inv_def m_size_def set_capacity_def empty_vec_def)
qed

lemma vector_delete_empty: "m_items (vector_delete v) = []"
  by (simp add: vector_delete_def clear_vec_def m_size_def)

text \<open>The two checks agree on the vectors that fit the memory.\<close>

lemma iter_index_check:
  assumes "int (m_size v) < 2 ^ 63" "- (2 ^ 63) \<le> vi" "vi < 2 ^ 63"
  shows "(case iter_index v vi of Inl e \<Rightarrow> check_iterator v vi = Inl e | Inr k \<Rightarrow> check_iterator v vi = Inr () \<and> int k = vi)"
proof (cases "0 \<le> vi")
  case True
  then have "unat (word_of_int vi :: 64 word) = nat vi"
    using assms(3) by (simp add: unat_eq_nat_uint uint_word_of_int)
  with True show ?thesis
    by (simp add: iter_index_def check_iterator_def vec_begin_def vec_end_def Let_def zless_nat_eq_int_zless)
next
  case False
  then have "uint (word_of_int vi :: 64 word) = vi + 2 ^ 64"
    using assms(2) mod_pos_pos_trivial [of "vi + 2 ^ 64" "2 ^ 64"] by (simp add: uint_word_of_int)
  then have "m_size v < unat (word_of_int vi :: 64 word)"
    using assms(1,2) by (simp add: unat_eq_nat_uint zless_nat_eq_int_zless)
  with False show ?thesis by (simp add: iter_index_def check_iterator_def vec_begin_def vec_end_def Let_def)
qed

text \<open>\<open>operator <\<close> is not even an order: it has a cycle.\<close>

lemma vector_less_cycle:
  "vector_less [1 :: int, 2, 3] [2, 3, 1]" "vector_less [2 :: int, 3, 1] [3, 1, 2]" "vector_less [3 :: int, 1, 2] [1, 2, 3]"
  by (simp_all add: vector_less_def compare_vectors_def)

lemma vector_comparisons_dual:
  "vector_greater u v = vector_less v u" "vector_greater_eq u v = vector_less_eq v u"
  using compare_vectors_swap [of u v]
  by (auto simp: vector_less_def vector_greater_def vector_less_eq_def vector_greater_eq_def)

end
