(* ===== verification/Thread.thy ===== *)
theory Thread
  imports Vector
begin

text \<open>
  \<open>src/src/com/xtllib/xtl_thread.h\<close>: the read-write mutex, the semaphore and the thread
  object, as on Unix.

  The mutex inside the read-write mutex is recursive; its owner and depth are part of the state.
  An operation of a thread is \<open>None\<close> while it has to wait for the mutex, so that any
  interleaving of operations is a sequence of the steps of \<open>rw_step\<close>.
\<close>

subsection \<open>The recursive mutex\<close>

type_synonym tid = nat

record mutex_t =
  mx_owner :: "tid option"
  mx_count :: nat

definition mutex_lock :: "tid \<Rightarrow> mutex_t \<Rightarrow> mutex_t option" where
  "mutex_lock t m =
     (if mx_owner m = None \<or> mx_owner m = Some t
      then Some \<lparr>mx_owner = Some t, mx_count = mx_count m + 1\<rparr> else None)"

text \<open>\<open>pthread_mutex_unlock\<close> by a thread that does not own the mutex fails without effect.\<close>

definition mutex_unlock :: "tid \<Rightarrow> mutex_t \<Rightarrow> mutex_t" where
  "mutex_unlock t m =
     (if mx_owner m \<noteq> Some t then m
      else if mx_count m \<le> 1 then \<lparr>mx_owner = None, mx_count = 0\<rparr>
      else m\<lparr>mx_count := mx_count m - 1\<rparr>)"

subsection \<open>The read-write mutex\<close>

record rwmutex_t =
  rw_mutex :: mutex_t
  rw_readers :: "tid list"
  rw_write :: bool

definition new_rwmutex :: rwmutex_t where
  "new_rwmutex = \<lparr>rw_mutex = \<lparr>mx_owner = None, mx_count = 0\<rparr>, rw_readers = [], rw_write = False\<rparr>"

definition begin_read :: "tid \<Rightarrow> rwmutex_t \<Rightarrow> rwmutex_t option" where
  "begin_read t s =
     (case mutex_lock t (rw_mutex s) of
        None \<Rightarrow> None
      | Some m \<Rightarrow> Some (s\<lparr>rw_readers := rw_readers s @ [t], rw_mutex := mutex_unlock t m\<rparr>))"

definition end_read :: "tid \<Rightarrow> rwmutex_t \<Rightarrow> rwmutex_t option" where
  "end_read t s =
     (case mutex_lock t (rw_mutex s) of
        None \<Rightarrow> None
      | Some m \<Rightarrow> Some (s\<lparr>rw_readers := remove1 t (rw_readers s), rw_mutex := mutex_unlock t m\<rparr>))"

definition try_write :: "tid \<Rightarrow> rwmutex_t \<Rightarrow> (bool \<times> rwmutex_t) option" where
  "try_write t s =
     (case mutex_lock t (rw_mutex s) of
        None \<Rightarrow> None
      | Some m \<Rightarrow>
          if list_ex (\<lambda>r. r \<noteq> t) (rw_readers s)
          then Some (False, s\<lparr>rw_write := False, rw_mutex := mutex_unlock t m\<rparr>)
          else Some (True, s\<lparr>rw_write := True, rw_mutex := m\<rparr>))"

definition end_write :: "tid \<Rightarrow> rwmutex_t \<Rightarrow> rwmutex_t" where
  "end_write t s = (if rw_write s then s\<lparr>rw_mutex := mutex_unlock t (rw_mutex s)\<rparr> else s)"

datatype rw_op = Begin_read | End_read | Try_write bool | End_write

inductive rw_step :: "rwmutex_t \<Rightarrow> tid \<Rightarrow> rw_op \<Rightarrow> rwmutex_t \<Rightarrow> bool" where
  step_begin_read: "begin_read t s = Some s' \<Longrightarrow> rw_step s t Begin_read s'"
| step_end_read: "end_read t s = Some s' \<Longrightarrow> rw_step s t End_read s'"
| step_try_write: "try_write t s = Some (r, s') \<Longrightarrow> rw_step s t (Try_write r) s'"
| step_end_write: "rw_step s t End_write (end_write t s)"

inductive rw_reach :: "rwmutex_t \<Rightarrow> bool" where
  reach_init: "rw_reach new_rwmutex"
| reach_step: "rw_reach s \<Longrightarrow> rw_step s t op s' \<Longrightarrow> rw_reach s'"

inductive_cases rw_step_tryE: "rw_step s t (Try_write r) s'"
inductive_simps rw_step_begin_read: "rw_step s t Begin_read s'"

text \<open>While a thread owns the mutex it is the only reader, if any, and the flag is set.\<close>

definition rw_inv :: "rwmutex_t \<Rightarrow> bool" where
  "rw_inv s \<longleftrightarrow> (mx_owner (rw_mutex s) = None \<longleftrightarrow> mx_count (rw_mutex s) = 0)
     \<and> (\<forall>t. mx_owner (rw_mutex s) = Some t \<longrightarrow> rw_write s \<and> set (rw_readers s) \<subseteq> {t})"

lemma mutex_lock_unlock:
  assumes "mutex_lock t m = Some m'" "mx_owner m = None \<longleftrightarrow> mx_count m = 0"
  shows "mutex_unlock t m' = m" "mx_owner m = None \<or> mx_owner m = Some t" "mx_owner m' = Some t" "0 < mx_count m'"
  using assms by (cases m; auto simp: mutex_lock_def mutex_unlock_def split: if_splits)+

lemma rw_inv_step:
  assumes inv: "rw_inv s" and step: "rw_step s t op s'"
  shows "rw_inv s'"
proof -
  have m: "mx_owner (rw_mutex s) = None \<longleftrightarrow> mx_count (rw_mutex s) = 0" using inv by (simp add: rw_inv_def)
  show ?thesis
    using step
  proof cases
    case step_begin_read
    then obtain m' where l: "mutex_lock t (rw_mutex s) = Some m'"
      and s': "s' = s\<lparr>rw_readers := rw_readers s @ [t], rw_mutex := mutex_unlock t m'\<rparr>"
      by (auto simp: begin_read_def split: option.splits)
    from mutex_lock_unlock [OF l m] inv show ?thesis by (auto simp: rw_inv_def s')
  next
    case step_end_read
    then obtain m' where l: "mutex_lock t (rw_mutex s) = Some m'"
      and s': "s' = s\<lparr>rw_readers := remove1 t (rw_readers s), rw_mutex := mutex_unlock t m'\<rparr>"
      by (auto simp: end_read_def split: option.splits)
    from mutex_lock_unlock [OF l m] inv set_remove1_subset [of t "rw_readers s"] show ?thesis
      unfolding rw_inv_def s' by simp blast
  next
    case (step_try_write r)
    then obtain m' where l: "mutex_lock t (rw_mutex s) = Some m'"
      and s': "s' = (if list_ex (\<lambda>r. r \<noteq> t) (rw_readers s)
        then s\<lparr>rw_write := False, rw_mutex := mutex_unlock t m'\<rparr> else s\<lparr>rw_write := True, rw_mutex := m'\<rparr>)"
      by (auto simp: try_write_def split: option.splits if_splits)
    from mutex_lock_unlock [OF l m] inv show ?thesis
      by (auto simp: rw_inv_def s' list_ex_iff)
  next
    case step_end_write
    with inv m show ?thesis
      by (auto simp: rw_inv_def end_write_def mutex_unlock_def)
  qed
qed

lemma rw_reach_inv: "rw_reach s \<Longrightarrow> rw_inv s"
proof (induction rule: rw_reach.induct)
  case reach_init
  then show ?case by (simp add: rw_inv_def new_rwmutex_def)
next
  case (reach_step s t op s')
  then show ?case using rw_inv_step by blast
qed

text \<open>A successful \<open>try_write\<close> excludes every other thread until \<open>end_write\<close>.\<close>

lemma writer_excludes:
  assumes "rw_reach s" "try_write t s = Some (True, s')" "u \<noteq> t"
  shows "u \<notin> set (rw_readers s') \<and> begin_read u s' = None \<and> try_write u s' = None"
proof -
  have "rw_inv s'" using rw_reach_inv [OF reach_step [OF assms(1) step_try_write [OF assms(2)]]] .
  moreover have "mx_owner (rw_mutex s') = Some t"
    using assms(2) by (auto simp: try_write_def mutex_lock_def split: if_splits option.splits)
  ultimately show ?thesis
    using assms(3) by (auto simp: rw_inv_def begin_read_def try_write_def mutex_lock_def)
qed

lemma write_then_end:
  assumes "rw_reach s" "try_write t s = Some (True, s')"
  shows "rw_mutex (end_write t s') = rw_mutex s"
proof -
  have m: "mx_owner (rw_mutex s) = None \<longleftrightarrow> mx_count (rw_mutex s) = 0"
    using rw_reach_inv [OF assms(1)] by (simp add: rw_inv_def)
  obtain m' where "mutex_lock t (rw_mutex s) = Some m'" "s' = s\<lparr>rw_write := True, rw_mutex := m'\<rparr>"
    using assms(2) by (auto simp: try_write_def split: if_splits option.splits)
  with mutex_lock_unlock(1) [OF this(1) m] show ?thesis by (simp add: end_write_def)
qed

subsection \<open>The semaphore\<close>

text \<open>\<open>m_sem\<close> is \<open>None\<close> for no semaphore, or its count; \<open>ok\<close> says whether \<open>semget\<close>
  succeeds.  \<open>wait\<close> has no result while the count is zero.\<close>

definition XTL_SEMMAX :: int where "XTL_SEMMAX = 0x7FFE"

definition sem_signal :: "int \<Rightarrow> int option \<Rightarrow> bool \<times> int option" where
  "sem_signal count sem =
     (case sem of None \<Rightarrow> (False, None)
      | Some n \<Rightarrow> if count < 0 \<or> count > XTL_SEMMAX then (False, sem)
                  else if n + count > 32767 then (False, sem) else (True, Some (n + count)))"

definition sem_create :: "bool \<Rightarrow> bool \<Rightarrow> int option \<Rightarrow> bool \<times> int option" where
  "sem_create ok signal_it sem =
     (if sem \<noteq> None then (False, sem)
      else let sem = (if ok then Some 0 else None);
               sem = (if signal_it then snd (sem_signal 1 sem) else sem)
           in (sem \<noteq> None, sem))"

definition sem_destroy :: "int option \<Rightarrow> bool \<times> int option" where
  "sem_destroy sem = (True, None)"

definition sem_wait :: "int option \<Rightarrow> (bool \<times> int option) option" where
  "sem_wait sem =
     (case sem of None \<Rightarrow> Some (False, None)
      | Some n \<Rightarrow> if n > 0 then Some (True, Some (n - 1)) else None)"

lemma sem_signal_wait:
  "sem_signal 1 (Some n) = (True, s) \<Longrightarrow> 0 \<le> n \<Longrightarrow> sem_wait s = Some (True, Some n)"
  by (auto simp: sem_signal_def sem_wait_def split: if_splits)

subsection \<open>Threads\<close>

record thread_t =
  th_thread :: bool
  th_terminated :: bool
  th_free_on_term :: bool
  th_waiting :: bool
  th_wait_on_destroy :: bool
  th_yield_count :: int
  th_priority :: int

definition new_thread :: thread_t where
  "new_thread = \<lparr>th_thread = False, th_terminated = False, th_free_on_term = False, th_waiting = False,
     th_wait_on_destroy = True, th_yield_count = 0, th_priority = 0\<rparr>"

definition thread_create :: "bool \<Rightarrow> thread_t \<Rightarrow> bool \<times> thread_t" where
  "thread_create ok th =
     (if th_thread th then (False, th)
      else (ok, th\<lparr>th_terminated := False, th_waiting := False, th_wait_on_destroy := True,
                  th_yield_count := 0, th_thread := ok\<rparr>))"

text \<open>The loop of \<open>wait_for\<close> on Unix: the number of naps of 25 ms until the thread, which
  runs at the \<open>k\<close>-th nap when \<open>running k\<close>, has ended or the time is over.  \<open>None\<close> when the
  fuel does not suffice.\<close>

fun wait_loop :: "nat \<Rightarrow> (nat \<Rightarrow> bool) \<Rightarrow> nat \<Rightarrow> 64 word \<Rightarrow> nat option" where
  "wait_loop 0 running k wTimeOut = None"
| "wait_loop (Suc fuel) running k wTimeOut =
     (if running k \<and> wTimeOut > 0 then wait_loop fuel running (k + 1) (wTimeOut - 25) else Some k)"

definition wait_for :: "nat \<Rightarrow> (nat \<Rightarrow> bool) \<Rightarrow> 64 word \<Rightarrow> thread_t \<Rightarrow> (int \<times> thread_t) option" where
  "wait_for fuel running wTimeOut th =
     (if th_waiting th then Some (-1, th)
      else map_option (\<lambda>k. (258, th\<lparr>th_waiting := True, th_thread := th_thread th \<and> running k\<rparr>))
             (wait_loop fuel running 0 wTimeOut))"

definition terminate_and_wait :: "nat \<Rightarrow> (nat \<Rightarrow> bool) \<Rightarrow> 64 word \<Rightarrow> thread_t \<Rightarrow> (int \<times> thread_t) option" where
  "terminate_and_wait fuel running wTimeOut th = wait_for fuel running wTimeOut (th\<lparr>th_terminated := True\<rparr>)"

definition thread_destroy :: "nat \<Rightarrow> (nat \<Rightarrow> bool) \<Rightarrow> thread_t \<Rightarrow> (bool \<times> thread_t) option" where
  "thread_destroy fuel running th =
     (if th_free_on_term th \<or> th_waiting th \<or> \<not> th_thread th then Some (False, th)
      else case (if th_wait_on_destroy th then map_option snd (terminate_and_wait fuel running 60000 th) else Some th) of
             None \<Rightarrow> None
           | Some th \<Rightarrow> Some (True, th\<lparr>th_thread := False\<rparr>))"

definition thread_yield :: "thread_t \<Rightarrow> bool \<times> thread_t" where
  "thread_yield th =
     (let n = th_yield_count th + 1 in
      if n > 20 + th_priority th then (True, th\<lparr>th_yield_count := 0\<rparr>) else (False, th\<lparr>th_yield_count := n\<rparr>))"

lemma unat_small: "x < 2 ^ 64 \<Longrightarrow> unat (word_of_nat x :: 64 word) = x"
  by (simp add: unat_of_nat)

lemma wait_loop_multiple:
  "25 * m < 2 ^ 64 \<Longrightarrow> \<exists>n\<le>m. wait_loop (m + 1) running k (word_of_nat (25 * m)) = Some (k + n)"
proof (induction m arbitrary: k)
  case (Suc m)
  have step: "word_of_nat (25 * Suc m) - 25 = (word_of_nat (25 * m) :: 64 word)" by simp
  have pos: "(0 :: 64 word) < word_of_nat (25 * Suc m)"
    using unat_small [OF Suc.prems] unfolding word_less_nat_alt by (simp only: unat_0) simp
  from Suc.IH [of "k + 1"] Suc.prems obtain n where
    n: "n \<le> m" "wait_loop (m + 1) running (k + 1) (word_of_nat (25 * m)) = Some (k + 1 + n)" by auto
  show ?case
  proof (cases "running k")
    case True
    with n pos step show ?thesis by (intro exI [of _ "n + 1"]) (simp del: of_nat_mult of_nat_Suc)
  next
    case False
    then show ?thesis by (intro exI [of _ 0]) simp
  qed
qed (auto intro: exI [of _ 0])

text \<open>A timeout that is not a multiple of 25 is stepped over: for a thread that keeps running,
  every fuel up to \<open>(t + 2 ^ 64) div 25\<close> naps is too little.\<close>

lemma wait_loop_wraps:
  assumes "t mod 25 \<noteq> 0" "t < 2 ^ 64"
  shows "25 * (j + n) \<le> t + 2 ^ 64 \<Longrightarrow> wait_loop n (\<lambda>k. True) k (word_of_int (int t - 25 * int j)) = None"
proof (induction n arbitrary: j k)
  case (Suc n)
  let ?w = "word_of_int (int t - 25 * int j) :: 64 word"
  have "?w \<noteq> 0"
  proof
    assume "?w = 0"
    then have "uint ?w = 0" by (simp only: uint_0_eq)
    then have "(int t - 25 * int j) mod 2 ^ LENGTH(64) = 0" by (simp only: uint_word_of_int)
    then have "(2 :: int) ^ 64 dvd int t - 25 * int j" by (simp add: mod_eq_0_iff_dvd)
    then obtain q where q: "int t - 25 * int j = 2 ^ 64 * q" by blast
    have "int t - 25 * int j < 2 ^ 64" using assms(2) by simp
    moreover have "- (2 ^ 64) < int t - 25 * int j" using Suc.prems by simp
    ultimately have "- (2 ^ 64) < 2 ^ 64 * q" "2 ^ 64 * q < 2 ^ 64" unfolding q by blast+
    then have "q = 0" by simp
    with q have "int t = int (25 * j)" by simp
    then have "t = 25 * j" by (simp only: of_nat_eq_iff)
    with assms(1) show False by simp
  qed
  then have "0 < ?w" by (simp only: word_greater_zero_iff not_False_eq_True)
  moreover have "?w - 25 = word_of_int (int t - 25 * int (j + 1))"
    by (simp add: algebra_simps)
  ultimately show ?case using Suc.IH [of "j + 1" "k + 1"] Suc.prems
    by (simp add: algebra_simps)
qed simp

lemma wait_loop_sixty: "n \<le> 2 ^ 64 div 25 \<Longrightarrow> wait_loop n (\<lambda>k. True) 0 60 = None"
  using wait_loop_wraps [of 60 0 n 0] by simp

end
