(* ===== verification/Nbclient.thy ===== *)
theory Nbclient
  imports Nbproto Netsock Thread
begin

text \<open>
  \<open>src/src/nrdnb_client.h\<close> and \<open>src/src/nrdnb_client.cpp\<close>: the client of the network
  browser, which listens for the servers' datagrams and keeps the list of servers.

  The events are values of \<open>nb_event\<close>; an operation returns the events it raises, in order,
  and \<open>raise_event\<close> says how one event reaches the registered callbacks.  The thread's
  \<open>main\<close> is the step function \<open>nb_main_step\<close> over the control points \<open>restart_point\<close>, the
  receiving loop and the end.
\<close>

subsection \<open>Data\<close>

definition NRDNBS_WAIT :: "32 word" where "NRDNBS_WAIT = 0"
definition NRDNBS_HERE :: "32 word" where "NRDNBS_HERE = 1"
definition NRDNBS_LIST :: "32 word" where "NRDNBS_LIST = 2"
definition NRDNBS_LOST :: "32 word" where "NRDNBS_LOST = 3"

lemmas nbs_consts = NRDNBS_WAIT_def NRDNBS_HERE_def NRDNBS_LIST_def NRDNBS_LOST_def

record HNRD_NBSITEM =
  it_info :: HNRD_NBINF
  it_host :: string
  it_lsid :: string
  it_state :: "32 word"
  it_time :: int

type_synonym nrdnb_items_t = "HNRD_NBSITEM list"

datatype nb_event =
    EVT_STARTED | EVT_STOPPED | EVT_RESTART | EVT_REFRESH
  | EVT_SVRLIST nrdnb_items_t | EVT_SVRINFO HNRD_NBSITEM | EVT_SVRHERE HNRD_NBSITEM
  | EVT_SVRLOST HNRD_NBSITEM | EVT_ONERROR string | EVT_ONINFO string | EVT_ONTIMER

text \<open>A callback is a function and its parameter, both pointers; a null function is \<open>None\<close>.\<close>

record callback_t =
  cbc :: nat
  par :: nat

record nrdnb_client_t =
  m_svrs :: nrdnb_items_t
  m_cbcs :: "callback_t list"
  m_tout :: "32 word"
  m_tref :: "32 word"
  m_port :: "32 word"
  m_host :: string
  m_refr :: bool
  m_sock :: int
  m_thread :: thread_t
  m_sleep :: "64 word"

text \<open>\<open>is_created\<close> of the thread; \<open>m_sleep\<close> is the local variable \<open>sleep\<close> of its \<open>main\<close>.\<close>

abbreviation m_created :: "nrdnb_client_t \<Rightarrow> bool" where
  "m_created st \<equiv> th_thread (m_thread st)"

definition new_client :: nrdnb_client_t where
  "new_client = \<lparr>m_svrs = [], m_cbcs = [], m_tout = 15, m_tref = 300, m_port = 0, m_host = [],
     m_refr = False, m_sock = NRD_NOSOCK, m_thread = new_thread, m_sleep = 0\<rparr>"

subsection \<open>Callbacks\<close>

fun raise_event ::
  "(nat \<Rightarrow> nb_event \<Rightarrow> nat \<Rightarrow> 's \<Rightarrow> bool \<times> 's) \<Rightarrow> callback_t list \<Rightarrow> nb_event \<Rightarrow> 's \<Rightarrow> bool \<times> 's" where
  "raise_event call [] ev s = (False, s)"
| "raise_event call (i # is) ev s =
     (let (r, s1) = call (cbc i) ev (par i) s;
          (ret, s2) = raise_event call is ev s1
      in (r \<or> ret, s2))"

definition register_callback :: "nat option \<Rightarrow> nat \<Rightarrow> callback_t list \<Rightarrow> bool \<times> callback_t list" where
  "register_callback pCbc pPar cbcs =
     (case pCbc of None \<Rightarrow> (False, cbcs)
      | Some c \<Rightarrow>
          if list_ex (\<lambda>i. cbc i = c \<and> par i = pPar) cbcs then (True, cbcs)
          else (True, cbcs @ [\<lparr>cbc = c, par = pPar\<rparr>]))"

definition unregister_callback :: "nat option \<Rightarrow> nat \<Rightarrow> callback_t list \<Rightarrow> bool \<times> callback_t list" where
  "unregister_callback pCbc pPar cbcs =
     (case pCbc of None \<Rightarrow> (False, cbcs)
      | Some c \<Rightarrow> (True, remove1 \<lparr>cbc = c, par = pPar\<rparr> cbcs))"

subsection \<open>The socket\<close>

definition close_sock :: "nrdnb_client_t \<Rightarrow> nrdnb_client_t" where
  "close_sock st = (if m_sock st \<ge> 0 then st\<lparr>m_sock := NRD_NOSOCK\<rparr> else st)"

definition switching_to_any :: string where
  "switching_to_any = ''Switching to '' @ [CHR 0x27] @ ''any'' @ [CHR 0x27] @ '' address''"

definition create_sock ::
  "sock_os \<Rightarrow> resolver \<Rightarrow> nrdnb_client_t \<Rightarrow> bool \<times> nrdnb_client_t \<times> nb_event list" where
  "create_sock os R st =
     (let st = st\<lparr>m_sock := NRD_NOSOCK\<rparr>;
          fam = guess_addr_family (m_host st) False;
          (addr, evs) =
            (case host_to_addr R (m_host st) False of
               Some a \<Rightarrow> (a, [])
             | None \<Rightarrow> (case set_addr_any fam of Some a \<Rightarrow> a | None \<Rightarrow> Addr_other 0,
                 [EVT_ONERROR ''Could not interpret host'', EVT_ONINFO switching_to_any]));
          addr = fst (set_addr_port addr (uint (m_port st)));
          sock = sys_socket os (sa_family addr)
      in if sock = NRD_NOSOCK then (False, st, evs @ [EVT_ONERROR ''Could not create socket''])
         else if \<not> sys_bind_ok os sock addr
              then (False, st\<lparr>m_sock := -1\<rparr>, evs @ [EVT_ONERROR ''Could not bind socket''])
              else (True, st\<lparr>m_sock := sock\<rparr>, evs))"

text \<open>\<open>recv_msg\<close>: \<open>None\<close> when the datagram is not accepted.  A failed \<open>recvfrom\<close> gives no
  bytes.\<close>

definition recv_msg :: "int \<Rightarrow> byte list \<Rightarrow> HNRD_NBMSG option" where
  "recv_msg sock bs =
     (if sock \<noteq> NRD_NOSOCK \<and> length bs = 380 \<and> take 7 bs = NRD_NBSIG
         \<and> bs ! 7 \<ge> NRDNBM_MIN \<and> bs ! 7 \<le> NRDNBM_MAX
      then Some (nbmsg_of_bytes bs) else None)"

definition getinfo_msg :: HNRD_NBMSG where
  "getinfo_msg = \<lparr>nm_sig = NRD_NBSIG, nm_msg = NRDNBM_GETINFO, nm_dat = replicate 372 0\<rparr>"

text \<open>\<open>send_getinfo\<close>: the result, the datagrams handed to \<open>sendto\<close> (whose \<open>i\<close>-th call
  sends them whole when \<open>sent i\<close>), and the events.\<close>

definition send_getinfo ::
  "resolver \<Rightarrow> (nat \<Rightarrow> bool) \<Rightarrow> nrdnb_client_t \<Rightarrow> string \<Rightarrow> 32 word \<Rightarrow> int
   \<Rightarrow> bool \<times> (addr_t \<times> byte list) list \<times> nb_event list" where
  "send_getinfo R sent st host port ntimes =
     (if m_sock st = NRD_NOSOCK then (False, [], [])
      else let ntimes = (if ntimes \<le> 0 then 1 else ntimes);
               port = (if port = 0 then word_of_nat NRD_BROWSE_PORT else port)
      in if guess_addr_family (m_host st) False = AF_INET6
         then (False, [], [EVT_ONERROR ''Info IPv6 is not supported''])
         else case host_to_addr R host False of
           None \<Rightarrow> (False, [], [EVT_ONERROR ''Server host is not valid''])
         | Some addr \<Rightarrow>
             let addr = fst (set_addr_port addr (uint port));
                 ret = list_ex sent [0..<nat ntimes]
             in (ret, replicate (nat ntimes) (addr, nbmsg_to_bytes getinfo_msg),
                 if ret then [] else [EVT_ONERROR ''Could not send GETINFO'']))"

subsection \<open>Messages\<close>

definition nbs_known :: "byte \<Rightarrow> int \<Rightarrow> HNRD_NBSITEM \<Rightarrow> HNRD_NBSITEM \<Rightarrow> HNRD_NBSITEM" where
  "nbs_known msg now i item =
     (if msg = NRDNBM_IAMLOST then
        i\<lparr>it_state := NRDNBS_LOST,
          it_info := (it_info i)\<lparr>svc_stat := svc_stat (it_info i) AND NOT NRDNBS_ACTIVE,
                                 svc_ccnt := 0\<rparr>\<rparr>
      else if msg = NRDNBM_IAMHERE \<or> msg = NRDNBM_RETINFO then
        item\<lparr>it_time := now,
             it_state := (if nbinf_name (it_info item) = nbinf_name (it_info i)
                             \<and> (it_state i = NRDNBS_WAIT \<or> it_state i = NRDNBS_LIST)
                          then NRDNBS_LIST else NRDNBS_HERE)\<rparr>
      else item)"

text \<open>The search of the list for the item's \<open>lsid\<close>; \<open>None\<close> leaves \<open>append\<close> set.\<close>

fun nbs_scan ::
  "byte \<Rightarrow> int \<Rightarrow> HNRD_NBSITEM \<Rightarrow> nrdnb_items_t \<Rightarrow> (nrdnb_items_t \<times> HNRD_NBSITEM) option" where
  "nbs_scan msg now item [] = None"
| "nbs_scan msg now item (i # is) =
     (if c_str (it_lsid i) = c_str (it_lsid item)
      then (let item' = nbs_known msg now i item in Some (item' # is, item'))
      else map_option (\<lambda>(is', item'). (i # is', item')) (nbs_scan msg now item is))"

definition nbs_item :: "resolver \<Rightarrow> addr_t \<Rightarrow> byte list \<Rightarrow> HNRD_NBSITEM" where
  "nbs_item R addr dat =
     (let info = nbinf_of_bytes dat; host = addr_to_host R addr True
      in \<lparr>it_info = info, it_host = host, it_lsid = host @ '':'' @ itos (sint (svc_port info)),
          it_state = 0, it_time = 0\<rparr>)"

definition nb_message ::
  "resolver \<Rightarrow> int \<Rightarrow> HNRD_NBMSG \<Rightarrow> addr_t \<Rightarrow> nrdnb_items_t \<Rightarrow> nrdnb_items_t \<times> nb_event list" where
  "nb_message R now message addr svrs =
     (let msg = nm_msg message in
      if msg = NRDNBM_IAMHERE \<or> msg = NRDNBM_IAMLOST \<or> msg = NRDNBM_RETINFO then
        let item = nbs_item R addr (nm_dat message);
            (svrs', item') =
              (case nbs_scan msg now item svrs of
                 Some r \<Rightarrow> r
               | None \<Rightarrow> (let item' = item\<lparr>it_state := NRDNBS_HERE, it_time := now\<rparr>
                          in (svrs @ [item'], item')))
        in (svrs',
            if msg = NRDNBM_IAMHERE then [EVT_SVRHERE item']
            else if msg = NRDNBM_IAMLOST then [EVT_SVRLOST item'] else [EVT_SVRINFO item'])
      else (svrs, []))"

subsection \<open>Refreshing and checking the list\<close>

definition refresh_item :: "bool \<Rightarrow> int \<Rightarrow> HNRD_NBSITEM \<Rightarrow> HNRD_NBSITEM" where
  "refresh_item lostw tmm i =
     (let i = i\<lparr>it_time := tmm\<rparr> in
      if lostw \<and> it_state i = NRDNBS_WAIT then i\<lparr>it_state := NRDNBS_LOST\<rparr>
      else if it_state i = NRDNBS_LIST then i\<lparr>it_state := NRDNBS_WAIT\<rparr> else i)"

definition refresh_svrs :: "bool \<Rightarrow> int \<Rightarrow> nrdnb_client_t \<Rightarrow> nrdnb_client_t" where
  "refresh_svrs lostw tmm st =
     (if \<not> m_created st then st
      else close_sock (st\<lparr>m_svrs := map (refresh_item lostw tmm) (m_svrs st), m_refr := True\<rparr>))"

function check_loop ::
  "32 word \<Rightarrow> int \<Rightarrow> nat \<Rightarrow> nrdnb_items_t \<Rightarrow> bool \<Rightarrow> bool \<Rightarrow> nrdnb_items_t \<times> bool \<times> bool" where
  "check_loop tref tmm i svrs evt rfr =
     (if i < length svrs then
        if it_state (svrs ! i) = NRDNBS_LOST
        then check_loop tref tmm i (take i svrs @ drop (Suc i) svrs) True rfr
        else let here = (it_state (svrs ! i) = NRDNBS_HERE);
                 svrs = (if here then svrs[i := (svrs ! i)\<lparr>it_state := NRDNBS_LIST\<rparr>] else svrs)
             in check_loop tref tmm (Suc i) svrs (evt \<or> here)
                  (if tref > 0 then rfr \<or> word_of_int (tmm - it_time (svrs ! i)) > tref else rfr)
      else (svrs, evt, rfr))"
  by pat_completeness auto
termination
  by (relation "measure (\<lambda>(tref, tmm, i, svrs, evt, rfr). length svrs - i)") auto

declare check_loop.simps [simp del]

definition check_svrs :: "int \<Rightarrow> nrdnb_client_t \<Rightarrow> nrdnb_client_t \<times> nb_event list" where
  "check_svrs tmm st =
     (let (svrs, evt, rfr) = check_loop (m_tref st) tmm 0 (m_svrs st) False False;
          st = st\<lparr>m_svrs := svrs\<rparr>;
          evs = (if evt then [EVT_SVRLIST svrs] else [])
      in (if rfr then refresh_svrs True tmm st else st, evs))"

subsection \<open>The thread and the public operations\<close>

text \<open>One step of \<open>main\<close>: the delay before a restart (in naps of 100 ms) is passed over in one
  step.  The environment says what \<open>recvfrom\<close> delivers, and the time.  When \<open>main\<close> has
  returned, the thread function clears the handle of the thread.\<close>

datatype nb_pc = NB_restart | NB_recv | NB_end

record nb_env =
  en_recv :: "byte list \<times> addr_t"
  en_now :: int

definition nb_main_step ::
  "sock_os \<Rightarrow> resolver \<Rightarrow> nb_env \<Rightarrow> nb_pc \<times> nrdnb_client_t \<Rightarrow> nb_pc \<times> nrdnb_client_t \<times> nb_event list" where
  "nb_main_step os R env = (\<lambda>(pc, st). case pc of
     NB_restart \<Rightarrow>
       if th_terminated (m_thread st) then (NB_recv, st, [])
       else let (st, ev) = (if m_refr st then (st\<lparr>m_refr := False\<rparr>, EVT_REFRESH)
                            else if m_sleep st \<noteq> 0 then (st, EVT_RESTART) else (st, EVT_STARTED));
                st = st\<lparr>m_sleep := ucast (m_tout st * 1000)\<rparr>;
                (ok, st, evs) = create_sock os R st
            in (if ok then NB_recv else NB_restart, st, ev # evs)
   | NB_recv \<Rightarrow>
       if th_terminated (m_thread st)
       then (NB_end, st\<lparr>m_svrs := [], m_thread := (m_thread st)\<lparr>th_thread := False\<rparr>\<rparr>, [EVT_STOPPED])
       else let (bytes, addr) = en_recv env in
         (case recv_msg (m_sock st) bytes of
            None \<Rightarrow> (NB_restart, st, [])
          | Some message \<Rightarrow>
              let (svrs, evs) = nb_message R (en_now env) message addr (m_svrs st)
              in (NB_recv, st\<lparr>m_svrs := svrs\<rparr>, evs))
   | NB_end \<Rightarrow> (NB_end, st, []))"

fun nb_run ::
  "sock_os \<Rightarrow> resolver \<Rightarrow> nb_env list \<Rightarrow> nb_pc \<times> nrdnb_client_t \<Rightarrow> nb_pc \<times> nrdnb_client_t" where
  "nb_run os R [] s = s"
| "nb_run os R (e # es) s = (let (pc, st, evs) = nb_main_step os R e s in nb_run os R es (pc, st))"

definition start_info_tracker ::
  "bool \<Rightarrow> string \<Rightarrow> 32 word \<Rightarrow> nrdnb_client_t \<Rightarrow> bool \<times> nrdnb_client_t \<times> nb_event list" where
  "start_info_tracker created sHost uPort st =
     (if m_created st then (False, st, [])
      else let st = st\<lparr>m_port := (if uPort = 0 then word_of_nat NRD_BROWSE_PORT else uPort),
                       m_host := (if sHost = [] then XTL_INET_IPV4_ANY else sHost)\<rparr>;
               (st, evs) = (if guess_addr_family (m_host st) False = AF_INET6
                 then (st\<lparr>m_host := XTL_INET_IPV4_ANY\<rparr>,
                       [EVT_ONERROR ''Info IPv6 is not supported'', EVT_ONINFO switching_to_any])
                 else (st, []));
               (ok, th) = thread_create created (m_thread st)
           in (ok, st\<lparr>m_refr := False, m_thread := th, m_sleep := 0\<rparr>, evs))"

text \<open>\<open>stop_info_tracker\<close>: the request to end, and the wait for the thread, which runs at the
  \<open>k\<close>-th nap when \<open>running k\<close>.\<close>

definition stop_request :: "nrdnb_client_t \<Rightarrow> nrdnb_client_t" where
  "stop_request st =
     (if m_created st then close_sock (st\<lparr>m_thread := (m_thread st)\<lparr>th_terminated := True\<rparr>\<rparr>) else st)"

definition stop_info_tracker :: "nat \<Rightarrow> (nat \<Rightarrow> bool) \<Rightarrow> nrdnb_client_t \<Rightarrow> nrdnb_client_t option" where
  "stop_info_tracker fuel running st =
     map_option (\<lambda>st. st\<lparr>m_svrs := []\<rparr>)
       (if m_created st
        then map_option (\<lambda>(rc, th). (stop_request st)\<lparr>m_thread := th\<rparr>)
               (wait_for fuel running 60 (m_thread (stop_request st)))
        else Some st)"

definition request_server_info ::
  "resolver \<Rightarrow> (nat \<Rightarrow> bool) \<Rightarrow> nrdnb_client_t \<Rightarrow> string \<Rightarrow> 32 word
   \<Rightarrow> bool \<times> (addr_t \<times> byte list) list \<times> nb_event list" where
  "request_server_info R sent st sHost uPort =
     (if \<not> m_created st then (False, [], []) else send_getinfo R sent st sHost uPort 3)"

definition refresh_servers_list :: "bool \<Rightarrow> int \<Rightarrow> nrdnb_client_t \<Rightarrow> bool \<times> nrdnb_client_t" where
  "refresh_servers_list bClear tmm st =
     (if \<not> m_created st then (False, st)
      else (True, refresh_svrs False tmm (if bClear then st\<lparr>m_svrs := []\<rparr> else st)))"

definition set_reconnect_time :: "32 word \<Rightarrow> nrdnb_client_t \<Rightarrow> nrdnb_client_t" where
  "set_reconnect_time uTime st = st\<lparr>m_tout := xtl_min (0xFFFFFFFF div 1000) (xtl_max 1 uTime)\<rparr>"

definition set_refresh_time :: "32 word \<Rightarrow> nrdnb_client_t \<Rightarrow> nrdnb_client_t" where
  "set_refresh_time uTime st = st\<lparr>m_tref := uTime\<rparr>"

text \<open>The control timer: its thread, its period and the local variables of its \<open>main\<close>.  When
  \<open>main\<close> sees that it is terminated it returns, and the handle of the thread is cleared.\<close>

record control_t =
  ct_thread :: thread_t
  ct_period :: "32 word"
  ct_tmr :: int
  ct_cnt :: int

definition new_control :: control_t where
  "new_control = \<lparr>ct_thread = new_thread, ct_period = 0, ct_tmr = 0, ct_cnt = 0\<rparr>"

definition start_control_timer :: "bool \<Rightarrow> 32 word \<Rightarrow> control_t \<Rightarrow> bool \<times> control_t" where
  "start_control_timer created uPeriod c =
     (let c = c\<lparr>ct_period := xtl_max 1 uPeriod\<rparr> in
      if th_thread (ct_thread c) then (False, c)
      else let (ok, th) = thread_create created (ct_thread c)
           in (ok, c\<lparr>ct_thread := th, ct_tmr := 0, ct_cnt := 0\<rparr>))"

definition stop_control_timer :: "nat \<Rightarrow> (nat \<Rightarrow> bool) \<Rightarrow> control_t \<Rightarrow> control_t option" where
  "stop_control_timer fuel running c =
     map_option (\<lambda>(ok, th). c\<lparr>ct_thread := th\<rparr>) (thread_destroy fuel running (ct_thread c))"

definition control_step ::
  "int \<Rightarrow> control_t \<Rightarrow> nrdnb_client_t \<Rightarrow> control_t \<times> nrdnb_client_t \<times> nb_event list" where
  "control_step now c st =
     (if th_terminated (ct_thread c)
      then (c\<lparr>ct_thread := (ct_thread c)\<lparr>th_thread := False\<rparr>\<rparr>, st, [])
      else
      let (c, st, evs) =
        (if m_created st then
           (let c = c\<lparr>ct_cnt := ct_cnt c + 1\<rparr> in
            if ct_cnt c > 1 then (let (st, evs) = check_svrs now st in (c\<lparr>ct_cnt := 0\<rparr>, st, evs))
            else (c, st, []))
         else (c, st, []))
      in if ct_period c \<noteq> 0 \<and> (ct_tmr c = 0 \<or> now \<ge> ct_tmr c)
         then (c\<lparr>ct_tmr := now + uint (ct_period c)\<rparr>, st,
               evs @ (if ct_tmr c \<noteq> 0 then [EVT_ONTIMER] else []))
         else (c, st, evs))"

subsection \<open>The list of servers\<close>

text \<open>Entries have different identifiers, a state of the protocol, and the identifier is the
  host and the service port.\<close>

definition item_ok :: "HNRD_NBSITEM \<Rightarrow> bool" where
  "item_ok i \<longleftrightarrow> it_state i \<in> {NRDNBS_WAIT, NRDNBS_HERE, NRDNBS_LIST, NRDNBS_LOST}
     \<and> it_lsid i = it_host i @ '':'' @ itos (sint (svc_port (it_info i)))"

definition svrs_ok :: "nrdnb_items_t \<Rightarrow> bool" where
  "svrs_ok svrs \<longleftrightarrow> distinct (map (\<lambda>i. c_str (it_lsid i)) svrs) \<and> (\<forall>i\<in>set svrs. item_ok i)"

definition svr_lookup :: "nrdnb_items_t \<Rightarrow> string \<Rightarrow> HNRD_NBSITEM option" where
  "svr_lookup svrs key = find (\<lambda>i. c_str (it_lsid i) = key) svrs"

lemma nbs_known_lsid:
  "c_str (it_lsid i) = c_str (it_lsid item) \<Longrightarrow> c_str (it_lsid (nbs_known msg now i item)) = c_str (it_lsid item)"
  by (simp add: nbs_known_def)

lemma nbs_known_ok: "item_ok i \<Longrightarrow> item_ok item \<Longrightarrow> item_ok (nbs_known msg now i item)"
  by (simp add: nbs_known_def item_ok_def)

lemma nbs_scan_None: "nbs_scan msg now item svrs = None \<longleftrightarrow> c_str (it_lsid item) \<notin> set (map (\<lambda>i. c_str (it_lsid i)) svrs)"
  by (induction svrs) (auto simp: Let_def)

lemma nbs_scan_Some:
  assumes "nbs_scan msg now item svrs = Some (svrs', item')"
  shows "\<exists>a i b. svrs = a @ i # b \<and> svrs' = a @ item' # b \<and> item' = nbs_known msg now i item
    \<and> c_str (it_lsid i) = c_str (it_lsid item) \<and> (\<forall>x\<in>set a. c_str (it_lsid x) \<noteq> c_str (it_lsid item))"
  using assms
proof (induction svrs arbitrary: svrs')
  case (Cons x svrs)
  show ?case
  proof (cases "c_str (it_lsid x) = c_str (it_lsid item)")
    case True
    with Cons.prems show ?thesis by (intro exI [of _ "[]"]) (auto simp: Let_def)
  next
    case False
    with Cons.prems obtain s where s: "nbs_scan msg now item svrs = Some (s, item')" "svrs' = x # s"
      by auto
    from Cons.IH [OF s(1)] obtain a i b where "svrs = a @ i # b \<and> s = a @ item' # b \<and> item' = nbs_known msg now i item
      \<and> c_str (it_lsid i) = c_str (it_lsid item) \<and> (\<forall>x\<in>set a. c_str (it_lsid x) \<noteq> c_str (it_lsid item))"
      by blast
    with s False show ?thesis by (intro exI [of _ "x # a"]) auto
  qed
qed simp

lemma nbs_item_ok: "item_ok (nbs_item R addr dat\<lparr>it_state := NRDNBS_HERE, it_time := t\<rparr>)"
  "item_ok (nbs_item R addr dat)"
  by (simp_all add: item_ok_def nbs_item_def Let_def nbs_consts)

lemma find_append_notin: "(\<forall>x\<in>set a. \<not> P x) \<Longrightarrow> find P (a @ b) = find P b"
  by (induction a) auto

lemma nb_message_ok:
  assumes ok: "svrs_ok svrs"
  shows "svrs_ok (fst (nb_message R now message addr svrs))"
proof -
  let ?item = "nbs_item R addr (nm_dat message)"
  show ?thesis
  proof (cases "nbs_scan (nm_msg message) now ?item svrs")
    case None
    then have "c_str (it_lsid ?item) \<notin> set (map (\<lambda>i. c_str (it_lsid i)) svrs)"
      by (simp add: nbs_scan_None)
    with ok None nbs_item_ok show ?thesis
      by (auto simp: nb_message_def svrs_ok_def Let_def)
  next
    case (Some r)
    obtain svrs' item' where r: "r = (svrs', item')" by fastforce
    from nbs_scan_Some [OF Some [unfolded r]] ok nbs_item_ok(2) nbs_known_ok nbs_known_lsid
    have "svrs_ok svrs'" by (fastforce simp: svrs_ok_def)
    with Some r ok show ?thesis by (auto simp: nb_message_def Let_def)
  qed
qed

text \<open>A message changes the entry of its sender and no other.\<close>

lemma nb_message_lookup_other:
  assumes "key \<noteq> c_str (it_lsid (nbs_item R addr (nm_dat message)))"
  shows "svr_lookup (fst (nb_message R now message addr svrs)) key = svr_lookup svrs key"
proof -
  let ?item = "nbs_item R addr (nm_dat message)"
  have app: "svr_lookup (svrs @ [x]) key = svr_lookup svrs key" if "c_str (it_lsid x) \<noteq> key" for x svrs
    using that by (induction svrs) (auto simp: svr_lookup_def)
  have mid: "svr_lookup (a @ x # b) key = svr_lookup (a @ y # b) key"
    if "c_str (it_lsid x) \<noteq> key" "c_str (it_lsid y) \<noteq> key" for a b x y
    using that by (induction a) (auto simp: svr_lookup_def)
  show ?thesis
  proof (cases "nbs_scan (nm_msg message) now ?item svrs")
    case None
    with assms app show ?thesis by (auto simp: nb_message_def Let_def)
  next
    case (Some r)
    obtain svrs' item' where r: "r = (svrs', item')" by fastforce
    from nbs_scan_Some [OF Some [unfolded r]] nbs_known_lsid assms mid
    have "svr_lookup svrs' key = svr_lookup svrs key" by metis
    with Some r show ?thesis by (auto simp: nb_message_def Let_def)
  qed
qed

text \<open>A server that announced itself or answered is in the list, with what it sent.\<close>

lemma nbs_scan_known:
  assumes "nbs_scan msg now item svrs = Some (svrs', item')"
  shows "\<exists>i\<in>set svrs. item' = nbs_known msg now i item" "item' \<in> set svrs'"
  using assms by (induction svrs arbitrary: svrs') (auto simp: Let_def split: if_splits)

lemma announced_listed:
  assumes "nm_msg m = NRDNBM_IAMHERE \<or> nm_msg m = NRDNBM_RETINFO" "nbinf_wf i" "nm_dat m = nbinf_to_bytes i @ pad"
  shows "\<exists>item\<in>set (fst (nb_message R now m addr svrs)). it_info item = i \<and> it_host item = addr_to_host R addr True
    \<and> it_time item = now \<and> (it_state item = NRDNBS_HERE \<or> it_state item = NRDNBS_LIST)"
proof -
  let ?item = "nbs_item R addr (nm_dat m)"
  have i: "it_info ?item = i" "it_host ?item = addr_to_host R addr True"
    using nbinf_sent [OF assms(2)] assms(3) by (simp_all add: nbs_item_def Let_def)
  have m: "nm_msg m \<noteq> NRDNBM_IAMLOST" using assms(1) by (auto simp: nbm_consts)
  show ?thesis
  proof (cases "nbs_scan (nm_msg m) now ?item svrs")
    case None
    with i assms(1) show ?thesis by (auto simp: nb_message_def Let_def)
  next
    case (Some r)
    obtain svrs' item' where r: "r = (svrs', item')" by fastforce
    with nbs_scan_known [of "nm_msg m" now ?item svrs svrs' item'] Some obtain k where
      k: "item' = nbs_known (nm_msg m) now k ?item" "item' \<in> set svrs'" by auto
    have "it_info item' = i \<and> it_host item' = addr_to_host R addr True
      \<and> it_time item' = now \<and> (it_state item' = NRDNBS_HERE \<or> it_state item' = NRDNBS_LIST)"
      using i m assms(1) unfolding k(1) nbs_known_def by simp
    with k(2) Some r assms(1) show ?thesis by (auto simp: nb_message_def Let_def)
  qed
qed
text \<open>\<open>check_svrs\<close> without its index and its \<open>i--\<close>: lost servers leave the list, new ones
  become listed, and the result is an event exactly when there was one of either.\<close>

definition list_item :: "HNRD_NBSITEM \<Rightarrow> HNRD_NBSITEM" where
  "list_item i = (if it_state i = NRDNBS_HERE then i\<lparr>it_state := NRDNBS_LIST\<rparr> else i)"

definition checked :: "nrdnb_items_t \<Rightarrow> nrdnb_items_t" where
  "checked svrs = map list_item (filter (\<lambda>i. it_state i \<noteq> NRDNBS_LOST) svrs)"

definition overdue :: "32 word \<Rightarrow> int \<Rightarrow> HNRD_NBSITEM \<Rightarrow> bool" where
  "overdue tref tmm i \<longleftrightarrow> tref > 0 \<and> it_state i \<noteq> NRDNBS_LOST \<and> word_of_int (tmm - it_time i) > tref"

lemma check_loop_spec:
  "check_loop tref tmm (length p) (p @ svrs) evt rfr =
     (p @ checked svrs,
      evt \<or> (\<exists>i\<in>set svrs. it_state i = NRDNBS_LOST \<or> it_state i = NRDNBS_HERE),
      rfr \<or> (\<exists>i\<in>set svrs. overdue tref tmm i))"
proof (induction svrs arbitrary: p evt rfr)
  case Nil
  then show ?case by (simp add: check_loop.simps checked_def)
next
  case (Cons x svrs)
  show ?case
  proof (cases "it_state x = NRDNBS_LOST")
    case True
    then show ?thesis
      using Cons.IH [of p True rfr]
      by (subst check_loop.simps) (simp add: nth_append checked_def overdue_def)
  next
    case False
    have "check_loop tref tmm (length p) (p @ x # svrs) evt rfr =
      check_loop tref tmm (length (p @ [list_item x])) ((p @ [list_item x]) @ svrs)
        (evt \<or> it_state x = NRDNBS_HERE) (rfr \<or> overdue tref tmm x)"
      using False
      by (subst check_loop.simps) (auto simp: nth_append list_item_def overdue_def Let_def list_update_append)
    then show ?thesis
      unfolding Cons.IH using False by (simp add: checked_def disj_ac)
  qed
qed

lemma check_svrs_eq:
  "check_svrs tmm st =
     (let st' = st\<lparr>m_svrs := checked (m_svrs st)\<rparr>;
          evs = (if \<exists>i\<in>set (m_svrs st). it_state i = NRDNBS_LOST \<or> it_state i = NRDNBS_HERE
                 then [EVT_SVRLIST (checked (m_svrs st))] else [])
      in (if \<exists>i\<in>set (m_svrs st). overdue (m_tref st) tmm i then refresh_svrs True tmm st' else st', evs))"
  using check_loop_spec [of "m_tref st" tmm "[]" "m_svrs st" False False]
  by (simp add: check_svrs_def Let_def)

lemma refresh_item_simps [simp]:
  "it_lsid (refresh_item l t i) = it_lsid i" "it_host (refresh_item l t i) = it_host i"
  "it_info (refresh_item l t i) = it_info i" "it_time (refresh_item l t i) = t"
  by (simp_all add: refresh_item_def Let_def)

lemma list_item_simps [simp]:
  "it_lsid (list_item i) = it_lsid i" "it_host (list_item i) = it_host i" "it_info (list_item i) = it_info i"
  by (simp_all add: list_item_def)

lemma svrs_ok_map:
  assumes "svrs_ok svrs" "\<And>i. it_lsid (f i) = it_lsid i" "\<And>i. item_ok i \<Longrightarrow> item_ok (f i)"
  shows "svrs_ok (map f svrs)"
  using assms by (auto simp: svrs_ok_def comp_def)

lemma svrs_ok_filter: "svrs_ok svrs \<Longrightarrow> svrs_ok (filter P svrs)"
  by (auto simp: svrs_ok_def distinct_map_filter)

lemma svrs_ok_refresh: "svrs_ok svrs \<Longrightarrow> svrs_ok (map (refresh_item l t) svrs)"
  by (erule svrs_ok_map) (auto simp: item_ok_def refresh_item_def Let_def)

lemma svrs_ok_checked: "svrs_ok svrs \<Longrightarrow> svrs_ok (checked svrs)"
  unfolding checked_def
  by (rule svrs_ok_map [OF svrs_ok_filter]) (auto simp: item_ok_def list_item_def)

lemma refresh_svrs_ok: "svrs_ok (m_svrs st) \<Longrightarrow> svrs_ok (m_svrs (refresh_svrs l t st))"
  by (simp add: refresh_svrs_def close_sock_def svrs_ok_refresh)

lemma check_svrs_ok: "svrs_ok (m_svrs st) \<Longrightarrow> svrs_ok (m_svrs (fst (check_svrs t st)))"
  by (simp add: check_svrs_eq Let_def refresh_svrs_ok svrs_ok_checked)

lemma create_sock_svrs: "create_sock os R st = (ok, st', evs) \<Longrightarrow> m_svrs st' = m_svrs st"
  by (auto simp: create_sock_def Let_def split: prod.splits if_splits)

lemma svrs_ok_Nil [simp]: "svrs_ok []"
  by (simp add: svrs_ok_def)

lemma nb_main_step_ok:
  assumes "svrs_ok (m_svrs st)" "nb_main_step os R env (pc, st) = (pc', st', evs)"
  shows "svrs_ok (m_svrs st')"
proof (cases pc)
  case NB_restart
  with assms show ?thesis
    by (auto simp: nb_main_step_def Let_def split: if_splits prod.splits dest!: create_sock_svrs)
next
  case NB_recv
  with assms show ?thesis
    using nb_message_ok [OF assms(1)]
    by (auto simp: nb_main_step_def Let_def split: if_splits prod.splits option.splits) (metis fst_conv)
next
  case NB_end
  with assms show ?thesis by (simp add: nb_main_step_def)
qed

lemma nb_run_ok: "svrs_ok (m_svrs (snd s)) \<Longrightarrow> svrs_ok (m_svrs (snd (nb_run os R envs s)))"
proof (induction envs arbitrary: s)
  case (Cons e es)
  obtain pc st where s: "s = (pc, st)" by fastforce
  obtain pc' st' evs where step: "nb_main_step os R e (pc, st) = (pc', st', evs)" by (metis prod_cases3)
  with Cons s nb_main_step_ok show ?case by fastforce
qed simp

text \<open>A server that stays silent over two refreshes leaves the list; the state reached after
  the first is the waiting state.\<close>

lemma silent_two_refreshes:
  assumes "\<forall>i\<in>set svrs. item_ok i"
  shows "checked (map (refresh_item True t2) (map (refresh_item True t1) (checked svrs))) = []"
proof -
  have "it_state (refresh_item True t2 (refresh_item True t1 (list_item i))) = NRDNBS_LOST"
    if "item_ok i" "it_state i \<noteq> NRDNBS_LOST" for i
    using that by (auto simp: refresh_item_def list_item_def item_ok_def Let_def nbs_consts)
  with assms show ?thesis by (auto simp: checked_def filter_empty_conv)
qed

lemma refreshed_sender_stays:
  assumes "nbinf_name (it_info item) = nbinf_name (it_info i)" "it_state i = NRDNBS_WAIT"
    "msg = NRDNBM_RETINFO \<or> msg = NRDNBM_IAMHERE"
  shows "it_state (nbs_known msg now i item) = NRDNBS_LIST"
  using assms by (auto simp: nbs_known_def nbm_consts)

lemma reconnect_bounds:
  "1 \<le> unat (m_tout (set_reconnect_time t st))" "unat (m_tout (set_reconnect_time t st)) \<le> 4294967"
proof -
  have d: "(0xFFFFFFFF :: 32 word) div 1000 = 4294967" by simp
  show "1 \<le> unat (m_tout (set_reconnect_time t st))" "unat (m_tout (set_reconnect_time t st)) \<le> 4294967"
    unfolding set_reconnect_time_def d
    by (auto simp: xtl_min_eq xtl_max_eq min_def max_def word_le_nat_alt unat_eq_0)
qed

lemma recv_msg_of_bytes:
  assumes "nbmsg_wf m" "nm_sig m = NRD_NBSIG" "1 \<le> nm_msg m" "nm_msg m \<le> 5" "sock \<noteq> NRD_NOSOCK"
  shows "recv_msg sock (nbmsg_to_bytes m) = Some m"
  using assms
  by (cases m) (simp add: recv_msg_def nbmsg_to_bytes_def nbmsg_of_bytes_def nbmsg_wf_def nbm_consts nth_append)

subsection \<open>The threads of the client\<close>

text \<open>The tracker thread, the control thread and the callers of the client's functions interleave.
  Each step below is one section under the mutex of the list; the refresh that \<open>check_svrs\<close> may
  start is a step of its own too, since the mutex is free in between.\<close>

inductive nb_trans ::
  "sock_os \<Rightarrow> resolver \<Rightarrow> nb_pc \<times> control_t \<times> nrdnb_client_t \<Rightarrow> nb_pc \<times> control_t \<times> nrdnb_client_t \<Rightarrow> bool"
  for os R where
  tr_main: "m_created st \<Longrightarrow> nb_main_step os R env (pc, st) = (pc', st', evs) \<Longrightarrow> nb_trans os R (pc, ct, st) (pc', ct, st')"
| tr_control: "th_thread (ct_thread ct) \<Longrightarrow> control_step now ct st = (ct', st', evs) \<Longrightarrow> nb_trans os R (pc, ct, st) (pc, ct', st')"
| tr_lost: "nb_trans os R (pc, ct, st) (pc, ct, refresh_svrs lostw now st)"
| tr_start: "start_info_tracker created host port st = (ok, st', evs) \<Longrightarrow> nb_trans os R (pc, ct, st) (if ok then NB_restart else pc, ct, st')"
| tr_stop: "nb_trans os R (pc, ct, st) (pc, ct, stop_request st)"
| tr_clear: "nb_trans os R (pc, ct, st) (pc, ct, st\<lparr>m_svrs := []\<rparr>)"
| tr_timer: "start_control_timer created t ct = (ok, ct') \<Longrightarrow> nb_trans os R (pc, ct, st) (pc, ct', st)"
| tr_untimed: "nb_trans os R (pc, ct, st) (pc, ct\<lparr>ct_thread := (ct_thread ct)\<lparr>th_terminated := True\<rparr>\<rparr>, st)"
| tr_refresh: "refresh_servers_list bClear now st = (ok, st') \<Longrightarrow> nb_trans os R (pc, ct, st) (pc, ct, st')"
| tr_reconnect: "nb_trans os R (pc, ct, st) (pc, ct, set_reconnect_time t st)"
| tr_period: "nb_trans os R (pc, ct, st) (pc, ct, set_refresh_time t st)"

inductive_cases nb_transE: "nb_trans os R s s'"

inductive nb_reach :: "sock_os \<Rightarrow> resolver \<Rightarrow> nb_pc \<times> control_t \<times> nrdnb_client_t \<Rightarrow> bool" for os R where
  nbr_init: "nb_reach os R (NB_end, new_control, new_client)"
| nbr_step: "nb_reach os R s \<Longrightarrow> nb_trans os R s s' \<Longrightarrow> nb_reach os R s'"

lemma control_step_ok:
  assumes "svrs_ok (m_svrs st)" "control_step now ct st = (ct', st', evs)"
  shows "svrs_ok (m_svrs st')"
  using assms check_svrs_ok [OF assms(1), of now]
  by (auto simp: control_step_def Let_def split: prod.splits if_splits)

lemma caller_steps_ok:
  assumes "svrs_ok (m_svrs st)"
  shows "start_info_tracker created host port st = (ok, st', evs) \<Longrightarrow> svrs_ok (m_svrs st')"
    "svrs_ok (m_svrs (stop_request st))"
    "refresh_servers_list b now st = (ok, st') \<Longrightarrow> svrs_ok (m_svrs st')"
    "svrs_ok (m_svrs (set_reconnect_time t st))" "svrs_ok (m_svrs (set_refresh_time t st))"
  using assms refresh_svrs_ok [OF assms] refresh_svrs_ok [of "st\<lparr>m_svrs := []\<rparr>"]
  by (auto simp: start_info_tracker_def stop_request_def close_sock_def refresh_servers_list_def set_reconnect_time_def
      set_refresh_time_def Let_def split: if_splits prod.splits)

lemma nb_trans_ok: "nb_trans os R s s' \<Longrightarrow> svrs_ok (m_svrs (snd (snd s))) \<Longrightarrow> svrs_ok (m_svrs (snd (snd s')))"
  by (erule nb_transE) (auto intro: nb_main_step_ok control_step_ok caller_steps_ok refresh_svrs_ok)

lemma nb_reach_ok: "nb_reach os R s \<Longrightarrow> svrs_ok (m_svrs (snd (snd s)))"
  by (induction rule: nb_reach.induct) (auto intro: nb_trans_ok simp: new_client_def)

text \<open>The end of the tracker: whatever arrives, its thread ends within two steps after the
  request, with an empty list, and the caller that waits for it returns.\<close>

lemma stop_request_terminates:
  assumes "m_created st"
  shows "th_terminated (m_thread (stop_request st))" "m_sock (stop_request st) < 0"
    "m_created (stop_request st)" "m_svrs (stop_request st) = m_svrs st"
  using assms by (simp_all add: stop_request_def close_sock_def NRD_NOSOCK_def)

lemma terminated_ends:
  assumes "th_terminated (m_thread st)" "pc \<noteq> NB_end"
  shows "\<exists>st'. nb_run os R [e1, e2] (pc, st) = (NB_end, st') \<and> m_svrs st' = [] \<and> \<not> m_created st' \<and> m_sock st' = m_sock st"
  using assms by (cases pc) (simp_all add: nb_main_step_def)

lemma wait_loop_ends: "\<not> running (k + n) \<Longrightarrow> wait_loop (n + 1) running k t \<noteq> None"
proof (induction n arbitrary: k t)
  case (Suc n)
  with Suc.IH [of "k + 1" "t - 25"] show ?case by auto
qed simp

lemma wait_for_ended: "\<not> running n \<Longrightarrow> wait_for (n + 1) running t th \<noteq> None"
  using wait_loop_ends [of running 0 n t] by (auto simp: wait_for_def simp del: wait_loop.simps)

lemma stop_returns:
  assumes "\<not> running n"
  shows "\<exists>st'. stop_info_tracker (n + 1) running st = Some st' \<and> m_svrs st' = []"
  using wait_for_ended [of running n 60 "m_thread (stop_request st)"] assms by (auto simp: stop_info_tracker_def)

lemma check_svrs_no_period:
  assumes "m_tref st = 0"
  shows "fst (check_svrs t st) = st\<lparr>m_svrs := checked (m_svrs st)\<rparr>"
  using assms by (simp add: check_svrs_eq overdue_def Let_def)

lemma refresh_svrs_created:
  assumes "m_created st"
  shows "m_svrs (refresh_svrs l t st) = map (refresh_item l t) (m_svrs st)"
    "m_created (refresh_svrs l t st)" "m_tref (refresh_svrs l t st) = m_tref st"
  using assms by (simp_all add: refresh_svrs_def close_sock_def)

subsection \<open>Getters and destructors\<close>

definition is_tracker_started :: "nrdnb_client_t \<Rightarrow> bool" where "is_tracker_started st = m_created st"
definition get_tracker_port :: "nrdnb_client_t \<Rightarrow> 32 word" where "get_tracker_port = m_port"
definition get_tracker_host :: "nrdnb_client_t \<Rightarrow> string" where "get_tracker_host = m_host"
definition is_control_started :: "control_t \<Rightarrow> bool" where "is_control_started c = th_thread (ct_thread c)"
definition get_reconnect_time :: "nrdnb_client_t \<Rightarrow> 32 word" where "get_reconnect_time = m_tout"
definition get_refresh_time :: "nrdnb_client_t \<Rightarrow> 32 word" where "get_refresh_time = m_tref"

definition control_delete :: "nat \<Rightarrow> (nat \<Rightarrow> bool) \<Rightarrow> control_t \<Rightarrow> control_t option" where
  "control_delete fuel running c =
     map_option (\<lambda>(rc, th). c\<lparr>ct_thread := th\<rparr>) (terminate_and_wait fuel running 60000 (ct_thread c))"

definition client_delete ::
  "nat \<Rightarrow> (nat \<Rightarrow> bool) \<Rightarrow> (nat \<Rightarrow> bool) \<Rightarrow> control_t \<Rightarrow> nrdnb_client_t \<Rightarrow> (control_t \<times> nrdnb_client_t) option" where
  "client_delete fuel run1 run2 c st =
     Option.bind (stop_control_timer fuel run1 c)
       (\<lambda>c. map_option (\<lambda>st. (c, st)) (stop_info_tracker fuel run2 st))"

lemma times_round_trip:
  "get_refresh_time (set_refresh_time t st) = t"
  "1 \<le> t \<Longrightarrow> t \<le> 4294967 \<Longrightarrow> get_reconnect_time (set_reconnect_time t st) = t"
  by (auto simp: get_refresh_time_def set_refresh_time_def get_reconnect_time_def set_reconnect_time_def xtl_min_def xtl_max_def)

end
