(* ===== verification/Server.thy ===== *)
theory Server
  imports Nbclient Complex_Main
begin

text \<open>
  The servers, clients and balancers of \<open>src/src/nrdpx_server.h\<close>, the status functions and
  the server selection of \<open>src/src/nrdpx_server.cpp\<close>.

  A pointer to a server or client is an index into the proxy's table of them; a null pointer
  is \<open>None\<close>.  The scores of \<open>nrdpx_select_server\<close> are C doubles: a finite double is a
  rational, and every operation on doubles is the rational operation followed by the rounding
  \<open>fl\<close>, an argument of the model.
\<close>

subsection \<open>Modes\<close>

definition NRDPX_CONN_PORT :: int where "NRDPX_CONN_PORT = 3389"
definition NRDPX_INFO_PORT :: int where "NRDPX_INFO_PORT = int NRD_BROWSE_PORT"
definition NRDPX_BUFFER_SIZE_MIN :: int where "NRDPX_BUFFER_SIZE_MIN = NRDPX_STANDARD_BSS"
definition NRDPX_BUFFER_SIZE_MAX :: int where "NRDPX_BUFFER_SIZE_MAX = 131072"

datatype check_mode = CHECK_NONE | CHECK_CONN | CHECK_INFO | CHECK_SYNC

fun check_mode_code :: "check_mode \<Rightarrow> nat" where
  "check_mode_code CHECK_NONE = 0"
| "check_mode_code CHECK_CONN = 1"
| "check_mode_code CHECK_INFO = 2"
| "check_mode_code CHECK_SYNC = 3"

instantiation check_mode :: linorder
begin
definition less_eq_check_mode :: "check_mode \<Rightarrow> check_mode \<Rightarrow> bool" where
  "less_eq_check_mode a b \<longleftrightarrow> check_mode_code a \<le> check_mode_code b"
definition less_check_mode :: "check_mode \<Rightarrow> check_mode \<Rightarrow> bool" where
  "less_check_mode a b \<longleftrightarrow> check_mode_code a < check_mode_code b"
instance
proof
  fix x y :: check_mode
  show "x \<le> y \<Longrightarrow> y \<le> x \<Longrightarrow> x = y"
    by (cases x; cases y) (simp_all add: less_eq_check_mode_def)
qed (auto simp: less_eq_check_mode_def less_check_mode_def)
end

datatype cache_mode = CACHE_NONE | CACHE_TEMP | CACHE_PERM
datatype size_mode = MODE_SYSTEM | MODE_ALIGN | MODE_MAXBUF
datatype b_method = B_METHOD_BYBUSYNESS | B_METHOD_BYREQUESTS

definition B_METRIC_CAP :: "32 word" where "B_METRIC_CAP = 0x01"
definition B_METRIC_MEM :: "32 word" where "B_METRIC_MEM = 0x02"
definition B_METRIC_CPU :: "32 word" where "B_METRIC_CPU = 0x04"

subsection \<open>Servers, clients, balancers\<close>

record nrdpx_server_t =
  sv_name :: string
  sv_info :: HNRD_NBINF
  sv_host :: string
  sv_port :: int
  sv_info_port :: int
  sv_stat_time :: int
  sv_info_time :: int
  sv_max_slots :: int
  sv_num_slots :: int
  sv_max_weight :: int
  sv_num_faults :: int
  sv_redundant :: bool
  sv_check_mode :: check_mode
  sv_first_check :: bool

definition new_server :: nrdpx_server_t where
  "new_server = \<lparr>sv_name = [], sv_info = nbinf_zero, sv_host = [], sv_port = NRDPX_CONN_PORT,
     sv_info_port = NRDPX_INFO_PORT, sv_stat_time = 0, sv_info_time = 0, sv_max_slots = 100,
     sv_num_slots = 0, sv_max_weight = 100, sv_num_faults = 0, sv_redundant = False,
     sv_check_mode = CHECK_INFO, sv_first_check = True\<rparr>"

record nrdpx_client_t =
  cl_name :: string
  cl_sources :: "cidr_t list"
  cl_num_slots :: int
  cl_max_slots :: int

definition new_client_t :: nrdpx_client_t where
  "new_client_t = \<lparr>cl_name = [], cl_sources = [], cl_num_slots = 0, cl_max_slots = 1000\<rparr>"

record nrdpx_balancer_t =
  bl_name :: string
  bl_clients :: "nat list"
  bl_servers :: "nat list"
  bl_metrics :: "32 word"
  bl_method :: b_method

definition new_balancer :: nrdpx_balancer_t where
  "new_balancer = \<lparr>bl_name = [], bl_clients = [], bl_servers = [], bl_metrics = B_METRIC_CAP,
     bl_method = B_METHOD_BYBUSYNESS\<rparr>"

subsection \<open>Status\<close>

definition nrdpx_server_is_active :: "nrdpx_server_t option \<Rightarrow> bool" where
  "nrdpx_server_is_active svr =
     (case svr of None \<Rightarrow> False | Some s \<Rightarrow> svc_stat (sv_info s) AND NRDNBS_ACTIVE \<noteq> 0)"

definition nrdpx_server_activate :: "nrdpx_server_t \<Rightarrow> nrdpx_server_t" where
  "nrdpx_server_activate s =
     s\<lparr>sv_info := (sv_info s)\<lparr>svc_stat := svc_stat (sv_info s) OR NRDNBS_ACTIVE\<rparr>\<rparr>"

definition nrdpx_server_deactivate :: "nrdpx_server_t \<Rightarrow> nrdpx_server_t" where
  "nrdpx_server_deactivate s =
     s\<lparr>sv_info := (sv_info s)\<lparr>svc_stat := svc_stat (sv_info s) AND NOT NRDNBS_ACTIVE,
                             svc_ccnt := 0, mem_stat := 0, cpu_stat := 0\<rparr>,
       sv_num_faults := 0\<rparr>"

definition nrdpx_server_slot_count :: "nrdpx_server_t option \<Rightarrow> int" where
  "nrdpx_server_slot_count svr = (case svr of None \<Rightarrow> 0 | Some s \<Rightarrow> sv_num_slots s)"

definition nrdpx_server_slot_limit :: "nrdpx_server_t option \<Rightarrow> int" where
  "nrdpx_server_slot_limit svr = (case svr of None \<Rightarrow> 0 | Some s \<Rightarrow> sv_max_slots s)"

definition nrdpx_server_user_count :: "nrdpx_server_t option \<Rightarrow> int" where
  "nrdpx_server_user_count svr = (case svr of None \<Rightarrow> 0 | Some s \<Rightarrow> uint (svc_ccnt (sv_info s)))"

definition nrdpx_server_user_limit :: "nrdpx_server_t option \<Rightarrow> int" where
  "nrdpx_server_user_limit svr =
     (case svr of None \<Rightarrow> 0
      | Some s \<Rightarrow> if ni_cmax (sv_info s) = 0 then 65535 else uint (ni_cmax (sv_info s)))"

definition nrdpx_server_max_weight :: "nrdpx_server_t option \<Rightarrow> int" where
  "nrdpx_server_max_weight svr = (case svr of None \<Rightarrow> 0 | Some s \<Rightarrow> sv_max_weight s)"

lemmas server_getters = nrdpx_server_slot_count_def nrdpx_server_slot_limit_def
  nrdpx_server_user_count_def nrdpx_server_user_limit_def nrdpx_server_max_weight_def

lemma activate_active [simp]: "nrdpx_server_is_active (Some (nrdpx_server_activate s))"
proof -
  have "bit ((w OR 1) AND (1 :: 16 word)) 0" for w :: "16 word" by (simp add: bit_simps)
  then show ?thesis
    unfolding nrdpx_server_is_active_def nrdpx_server_activate_def NRDNBS_ACTIVE_def
    by simp
qed

lemma deactivate_inactive [simp]: "\<not> nrdpx_server_is_active (Some (nrdpx_server_deactivate s))"
  by (simp add: nrdpx_server_is_active_def nrdpx_server_deactivate_def and.assoc)

subsection \<open>Selecting a server\<close>

text \<open>The tests that pass over a candidate, after the one on \<open>redundant\<close>.\<close>

definition select_skip :: "nrdpx_server_t \<Rightarrow> bool" where
  "select_skip s \<longleftrightarrow> nrdpx_server_max_weight (Some s) \<le> 0
     \<or> nrdpx_server_slot_count (Some s) \<ge> nrdpx_server_slot_limit (Some s)
     \<or> nrdpx_server_user_count (Some s) \<ge> nrdpx_server_user_limit (Some s)"

definition select_score :: "(rat \<Rightarrow> rat) \<Rightarrow> nrdpx_balancer_t \<Rightarrow> nrdpx_server_t \<Rightarrow> rat" where
  "select_score fl bal s =
     (let scount = of_int (nrdpx_server_slot_count (Some s));
          slimit = of_int (nrdpx_server_slot_limit (Some s));
          score = of_int (nrdpx_server_max_weight (Some s));
          score = (if bl_metrics bal AND B_METRIC_MEM \<noteq> 0 \<and> mem_stat (sv_info s) AND NRDNBU_FREE \<noteq> 0
                   then fl (fl (of_int (uint (mem_free (sv_info s))) + score) / 2) else score);
          score = (if bl_metrics bal AND B_METRIC_CPU \<noteq> 0 \<and> cpu_stat (sv_info s) AND NRDNBU_FREE \<noteq> 0
                   then fl (fl (of_int (uint (cpu_free (sv_info s))) + score) / 2) else score)
      in if bl_metrics bal AND B_METRIC_CAP \<noteq> 0
         then (case bl_method bal of
                 B_METHOD_BYREQUESTS \<Rightarrow> fl (fl (score + fl (100 / fl (scount + 1))) / 2)
               | B_METHOD_BYBUSYNESS \<Rightarrow>
                   fl (fl (score + fl (fl (100 * fl (slimit - scount)) / slimit)) / 2))
         else score)"

text \<open>The inner loop for one value of \<open>redt\<close>: \<open>ret\<close> is the best so far with its score.
  \<open>sv\<close> reads a server through its pointer.\<close>

fun select_pass ::
  "(rat \<Rightarrow> rat) \<Rightarrow> nrdpx_balancer_t \<Rightarrow> (nat \<Rightarrow> nrdpx_server_t) \<Rightarrow> bool \<Rightarrow> nat list
   \<Rightarrow> (nat \<times> rat) option \<Rightarrow> (nat \<times> rat) option" where
  "select_pass fl bal sv redt [] ret = ret"
| "select_pass fl bal sv redt (p # ps) ret =
     (if sv_redundant (sv p) \<noteq> redt \<or> select_skip (sv p) then select_pass fl bal sv redt ps ret
      else let score = select_score fl bal (sv p) in
           select_pass fl bal sv redt ps
             (case ret of None \<Rightarrow> Some (p, score)
              | Some (q, scmax) \<Rightarrow> if score > scmax then Some (p, score) else ret))"

definition nrdpx_select_server ::
  "(rat \<Rightarrow> rat) \<Rightarrow> (nat \<Rightarrow> nrdpx_server_t) \<Rightarrow> nrdpx_balancer_t option \<Rightarrow> nat option \<Rightarrow> nat list \<Rightarrow> nat option" where
  "nrdpx_select_server fl sv bal cln svrs =
     (case bal of None \<Rightarrow> None
      | Some b \<Rightarrow>
          if cln = None \<or> svrs = [] then None
          else case select_pass fl b sv False svrs None of
                 Some (p, sc) \<Rightarrow> Some p
               | None \<Rightarrow> map_option fst (select_pass fl b sv True svrs None))"

subsection \<open>What the selection promises\<close>

text \<open>A selector returns an eligible candidate of greatest score, the first of them in the
  list, and nothing only when no candidate is eligible.\<close>

definition first_max :: "('p \<Rightarrow> bool) \<Rightarrow> ('p \<Rightarrow> rat) \<Rightarrow> 'p list \<Rightarrow> 'p \<Rightarrow> bool" where
  "first_max ok score ps p \<longleftrightarrow>
     (\<exists>a b. ps = a @ p # b \<and> ok p \<and> (\<forall>q\<in>set a. ok q \<longrightarrow> score q < score p)
        \<and> (\<forall>q\<in>set b. ok q \<longrightarrow> score q \<le> score p))"

locale selector =
  fixes sel :: "nat list \<Rightarrow> nat option"
    and ok :: "nat \<Rightarrow> bool"
    and score :: "nat \<Rightarrow> rat"
  assumes sel_some: "sel ps = Some p \<Longrightarrow> first_max ok score ps p"
    and sel_none: "sel ps = None \<Longrightarrow> \<forall>p\<in>set ps. \<not> ok p"
begin

lemma sel_member: "sel ps = Some p \<Longrightarrow> p \<in> set ps \<and> ok p"
  using sel_some [of ps p] by (auto simp: first_max_def)

lemma sel_best: "sel ps = Some p \<Longrightarrow> q \<in> set ps \<Longrightarrow> ok q \<Longrightarrow> score q \<le> score p"
  using sel_some [of ps p] by (fastforce simp: first_max_def)

lemma sel_exists: "q \<in> set ps \<Longrightarrow> ok q \<Longrightarrow> \<exists>p. sel ps = Some p"
  using sel_none by (cases "sel ps") auto

lemma sel_none_iff: "sel ps = None \<longleftrightarrow> (\<forall>p\<in>set ps. \<not> ok p)"
  using sel_none [of ps] sel_member [of ps] by (cases "sel ps") auto

text \<open>Candidates that are not eligible do not matter: they may be left in the list.\<close>

lemma sel_ineligible_prefix:
  assumes "\<forall>p\<in>set a. \<not> ok p" "sel (a @ b) = Some p"
  shows "p \<in> set b \<and> ok p"
  using sel_member [OF assms(2)] assms(1) by auto

end

definition pass_ok :: "(nat \<Rightarrow> nrdpx_server_t) \<Rightarrow> bool \<Rightarrow> nat \<Rightarrow> bool" where
  "pass_ok sv redt p \<longleftrightarrow> sv_redundant (sv p) = redt \<and> \<not> select_skip (sv p)"

lemma first_max_head:
  "ok x \<Longrightarrow> \<forall>y\<in>set ps. ok y \<longrightarrow> score y \<le> score x \<Longrightarrow> first_max ok score (x # ps) x"
  unfolding first_max_def by (intro exI [of _ "[]"] exI [of _ ps]) auto

lemma first_max_cons:
  assumes "first_max ok score ps p" "ok x \<Longrightarrow> score x < score p"
  shows "first_max ok score (x # ps) p"
proof -
  from assms(1) obtain a b where "ps = a @ p # b" "ok p" "\<forall>q\<in>set a. ok q \<longrightarrow> score q < score p"
    "\<forall>q\<in>set b. ok q \<longrightarrow> score q \<le> score p" by (auto simp: first_max_def)
  with assms(2) show ?thesis
    unfolding first_max_def by (intro exI [of _ "x # a"] exI [of _ b]) auto
qed

lemma select_pass_Some:
  "\<exists>p sc. select_pass fl bal sv redt ps (Some (q, s)) = Some (p, sc) \<and>
    (p = q \<and> sc = s \<and> (\<forall>x\<in>set ps. pass_ok sv redt x \<longrightarrow> select_score fl bal (sv x) \<le> s)
     \<or> s < sc \<and> sc = select_score fl bal (sv p) \<and> first_max (pass_ok sv redt) (\<lambda>p. select_score fl bal (sv p)) ps p)"
proof (induction ps arbitrary: q s)
  case (Cons x ps)
  let ?sc = "\<lambda>p. select_score fl bal (sv p)" and ?ok = "pass_ok sv redt"
  show ?case
  proof (cases "?ok x \<and> s < ?sc x")
    case True
    then have step: "select_pass fl bal sv redt (x # ps) (Some (q, s)) = select_pass fl bal sv redt ps (Some (x, ?sc x))"
      by (simp add: pass_ok_def Let_def)
    from Cons.IH [of x "?sc x"] True show ?thesis
      unfolding step by (auto intro: first_max_head first_max_cons)
  next
    case False
    then have step: "select_pass fl bal sv redt (x # ps) (Some (q, s)) = select_pass fl bal sv redt ps (Some (q, s))"
      by (auto simp: pass_ok_def Let_def)
    from Cons.IH [of q s] False show ?thesis
      unfolding step by (fastforce intro: first_max_cons)
  qed
qed simp

lemma select_pass_None:
  "case select_pass fl bal sv redt ps None of
     None \<Rightarrow> \<forall>p\<in>set ps. \<not> pass_ok sv redt p
   | Some (p, sc) \<Rightarrow> first_max (pass_ok sv redt) (\<lambda>p. select_score fl bal (sv p)) ps p"
proof (induction ps)
  case (Cons x ps)
  let ?sc = "\<lambda>p. select_score fl bal (sv p)" and ?ok = "pass_ok sv redt"
  show ?case
  proof (cases "?ok x")
    case False
    then have step: "select_pass fl bal sv redt (x # ps) None = select_pass fl bal sv redt ps None"
      by (auto simp: pass_ok_def Let_def)
    from Cons.IH False show ?thesis
      unfolding step by (auto split: option.splits intro: first_max_cons)
  next
    case True
    then have step: "select_pass fl bal sv redt (x # ps) None = select_pass fl bal sv redt ps (Some (x, ?sc x))"
      by (simp add: pass_ok_def Let_def)
    from select_pass_Some [of fl bal sv redt ps x "?sc x"] True show ?thesis
      unfolding step by (auto intro: first_max_head first_max_cons)
  qed
qed simp

text \<open>Each pass of the code is a selector.\<close>

interpretation pass: selector
  "\<lambda>ps. map_option fst (select_pass fl bal sv redt ps None)" "pass_ok sv redt"
  "\<lambda>p. select_score fl bal (sv p)"
  for fl bal sv redt
proof
  fix ps p
  show "map_option fst (select_pass fl bal sv redt ps None) = Some p \<Longrightarrow>
    first_max (pass_ok sv redt) (\<lambda>p. select_score fl bal (sv p)) ps p"
    using select_pass_None [where fl = fl and bal = bal and sv = sv and redt = redt and ps = ps] by auto
  show "map_option fst (select_pass fl bal sv redt ps None) = None \<Longrightarrow> \<forall>p\<in>set ps. \<not> pass_ok sv redt p"
    using select_pass_None [where fl = fl and bal = bal and sv = sv and redt = redt and ps = ps] by (auto split: option.splits)
qed

lemma select_server_alt:
  "nrdpx_select_server fl sv (Some b) (Some c) svrs =
     (case map_option fst (select_pass fl b sv False svrs None) of
        Some p \<Rightarrow> Some p | None \<Rightarrow> map_option fst (select_pass fl b sv True svrs None))"
  by (cases "svrs = []") (auto simp: nrdpx_select_server_def split: option.splits)

lemma select_server_member:
  assumes "nrdpx_select_server fl sv b c svrs = Some p"
  shows "p \<in> set svrs \<and> \<not> select_skip (sv p)"
proof -
  from assms obtain b' c' where "b = Some b'" "c = Some c'"
    by (auto simp: nrdpx_select_server_def split: option.splits if_splits)
  with assms show ?thesis
    using pass.sel_member [where fl = fl and sv = sv and redt = False and ps = svrs and p = p and bal = b']
      pass.sel_member [where fl = fl and sv = sv and redt = True and ps = svrs and p = p and bal = b']
    by (auto simp: select_server_alt pass_ok_def split: option.splits)
qed

lemma select_server_None:
  "nrdpx_select_server fl sv (Some b) (Some c) svrs = None \<longleftrightarrow> (\<forall>p\<in>set svrs. select_skip (sv p))"
  using pass.sel_none_iff [where fl = fl and sv = sv and redt = False and ps = svrs and bal = b]
      pass.sel_none_iff [where fl = fl and sv = sv and redt = True and ps = svrs and bal = b]
  by (auto simp: select_server_alt pass_ok_def split: option.splits)

text \<open>A redundant server is chosen only when no other is eligible, and the chosen server has
  the greatest score of its kind.\<close>

lemma select_server_best:
  assumes "nrdpx_select_server fl sv (Some b) (Some c) svrs = Some p" "q \<in> set svrs" "\<not> select_skip (sv q)"
  shows "\<not> sv_redundant (sv p) \<or> sv_redundant (sv q)"
    "sv_redundant (sv q) = sv_redundant (sv p) \<Longrightarrow> select_score fl b (sv q) \<le> select_score fl b (sv p)"
proof -
  show "\<not> sv_redundant (sv p) \<or> sv_redundant (sv q)"
    using assms pass.sel_member [where fl = fl and sv = sv and redt = False and ps = svrs and p = p and bal = b]
      pass.sel_member [where fl = fl and sv = sv and redt = True and ps = svrs and p = p and bal = b] pass.sel_none_iff [where fl = fl and sv = sv and redt = False and ps = svrs and bal = b]
      pass.sel_none_iff [where fl = fl and sv = sv and redt = True and ps = svrs and bal = b]
    by (auto simp: select_server_alt pass_ok_def split: option.splits)
  show "select_score fl b (sv q) \<le> select_score fl b (sv p)" if "sv_redundant (sv q) = sv_redundant (sv p)"
    using assms that pass.sel_best [where fl = fl and sv = sv and redt = False and ps = svrs and p = p and q = q and bal = b]
      pass.sel_best [where fl = fl and sv = sv and redt = True and ps = svrs and p = p and q = q and bal = b]
      pass.sel_member [where fl = fl and sv = sv and redt = False and ps = svrs and p = p and bal = b]
      pass.sel_member [where fl = fl and sv = sv and redt = True and ps = svrs and p = p and bal = b]
    by (auto simp: select_server_alt pass_ok_def split: option.splits)
qed

end
