(* ===== verification/Route_Cache.thy ===== *)
theory Route_Cache
  imports Server "HOL-Library.Monad_Syntax"
begin

text \<open>
  The routes and the route cache, \<open>nrdpx_route_t\<close> and \<open>nrdpx_cache_t\<close> of
  \<open>src/src/nrdpx_server.h\<close> and \<open>src/src/nrdpx_server.cpp\<close>.

  Routes are objects on a heap, a map from pointers to routes: \<open>new\<close> takes a pointer that is
  not allocated and \<open>delete\<close> makes the pointer undefined.  An operation that reads or deletes
  through a pointer that is not allocated has the result \<open>None\<close>; the memory safety lemmas say
  that this does not happen.  The hash map from host names to routes is an association list
  with distinct keys.  \<open>now\<close> is what \<open>time\<close> returns during the operation.
\<close>

record nrdpx_route_t =
  rt_balancer :: "nat option"
  rt_client :: "nat option"
  rt_server :: "nat option"
  rt_cached :: bool
  rt_act_time :: int
  rt_num_slots :: int

definition new_route :: nrdpx_route_t where
  "new_route = \<lparr>rt_balancer = None, rt_client = None, rt_server = None, rt_cached = False,
     rt_act_time = 0, rt_num_slots = 0\<rparr>"

type_synonym rheap = "nat \<Rightarrow> nrdpx_route_t option"

record nrdpx_cache_t =
  ca_mode :: cache_mode
  ca_routes :: "(string \<times> nat) list"
  ca_timeout :: int
  ca_chktime :: int

text \<open>The constructor sets no \<open>chktime\<close>: the model takes the value found in memory.\<close>

definition new_cache :: "int \<Rightarrow> nrdpx_cache_t" where
  "new_cache chktime = \<lparr>ca_mode = CACHE_TEMP, ca_routes = [], ca_timeout = 60, ca_chktime = chktime\<rparr>"

subsection \<open>Operations\<close>

definition route_delete :: "nat \<Rightarrow> rheap \<Rightarrow> rheap option" where
  "route_delete p h = (case h p of None \<Rightarrow> None | Some r \<Rightarrow> Some (h(p := None)))"

definition routes_erase :: "string \<Rightarrow> (string \<times> nat) list \<Rightarrow> (string \<times> nat) list" where
  "routes_erase key rs = filter (\<lambda>e. fst e \<noteq> key) rs"

definition route_expired :: "int \<Rightarrow> int \<Rightarrow> nrdpx_route_t \<Rightarrow> bool" where
  "route_expired now timeout r \<longleftrightarrow> rt_num_slots r = 0 \<and> now > rt_act_time r + timeout"

text \<open>The cleaning loop: the expired routes are deleted and their keys collected.\<close>

fun cache_clean :: "int \<Rightarrow> int \<Rightarrow> (string \<times> nat) list \<Rightarrow> rheap \<Rightarrow> (string list \<times> rheap) option" where
  "cache_clean now timeout [] h = Some ([], h)"
| "cache_clean now timeout ((k, p) # rs) h =
     do { r \<leftarrow> h p;
          if route_expired now timeout r
          then do { h \<leftarrow> route_delete p h;
                    (ks, h) \<leftarrow> cache_clean now timeout rs h;
                    Some (k # ks, h) }
          else cache_clean now timeout rs h }"

definition cache_find ::
  "int \<Rightarrow> string \<Rightarrow> nrdpx_cache_t \<Rightarrow> rheap \<Rightarrow> (nat option \<times> nrdpx_cache_t \<times> rheap) option" where
  "cache_find now key ca h =
     (if ca_mode ca = CACHE_NONE then Some (None, ca, h)
      else do {
        (ca, h) \<leftarrow>
          (if now > ca_chktime ca then
             do { (keys, h) \<leftarrow> cache_clean now (ca_timeout ca) (ca_routes ca) h;
                  Some (ca\<lparr>ca_chktime := now + 3600,
                           ca_routes := fold routes_erase keys (ca_routes ca)\<rparr>, h) }
           else Some (ca, h));
        (case map_of (ca_routes ca) key of
           None \<Rightarrow> Some (None, ca, h)
         | Some p \<Rightarrow>
             do { r \<leftarrow> h p;
                  if route_expired now (ca_timeout ca) r
                  then do { h \<leftarrow> route_delete p h;
                            Some (None, ca\<lparr>ca_routes := routes_erase key (ca_routes ca)\<rparr>, h) }
                  else Some (Some p, ca, h) }) })"

definition cache_add ::
  "int \<Rightarrow> string \<Rightarrow> nat \<Rightarrow> nrdpx_cache_t \<Rightarrow> rheap \<Rightarrow> (bool \<times> nrdpx_cache_t \<times> rheap) option" where
  "cache_add now key p ca h =
     (if ca_mode ca = CACHE_NONE then Some (False, ca, h)
      else case map_of (ca_routes ca) key of
             Some q \<Rightarrow> Some (False, ca, h)
           | None \<Rightarrow>
               do { r \<leftarrow> h p;
                    Some (True, ca\<lparr>ca_routes := ca_routes ca @ [(key, p)]\<rparr>,
                          h(p \<mapsto> r\<lparr>rt_act_time := now, rt_cached := True\<rparr>)) })"

definition cache_remove :: "string \<Rightarrow> nrdpx_cache_t \<Rightarrow> rheap \<Rightarrow> (nrdpx_cache_t \<times> rheap) option" where
  "cache_remove key ca h =
     (case map_of (ca_routes ca) key of
        None \<Rightarrow> Some (ca, h)
      | Some p \<Rightarrow>
          do { r \<leftarrow> h p;
               if rt_num_slots r = 0
               then do { h \<leftarrow> route_delete p h;
                         Some (ca\<lparr>ca_routes := routes_erase key (ca_routes ca)\<rparr>, h) }
               else Some (ca, h) })"

subsection \<open>The contract of a route cache\<close>

text \<open>A cached route is idle when no channel uses it.  The operations of the cache change the
  heap only by freeing idle cached routes.\<close>

definition route_idle :: "rheap \<Rightarrow> nat \<Rightarrow> bool" where
  "route_idle h p \<longleftrightarrow> (\<exists>r. h p = Some r \<and> rt_cached r \<and> rt_num_slots r = 0)"

definition frees_idle :: "rheap \<Rightarrow> rheap \<Rightarrow> bool" where
  "frees_idle h h' \<longleftrightarrow> (\<forall>p. h' p = h p \<or> h' p = None \<and> route_idle h p)"

lemma frees_idle_refl [simp]: "frees_idle h h"
  by (simp add: frees_idle_def)

lemma frees_idle_trans: "frees_idle h1 h2 \<Longrightarrow> frees_idle h2 h3 \<Longrightarrow> frees_idle h1 h3"
  unfolding frees_idle_def route_idle_def by metis

lemma frees_idle_busy: "frees_idle h h' \<Longrightarrow> h p = Some r \<Longrightarrow> rt_num_slots r \<noteq> 0 \<Longrightarrow> h' p = Some r"
  unfolding frees_idle_def route_idle_def by (metis option.inject)

lemma frees_idle_uncached: "frees_idle h h' \<Longrightarrow> h p = Some r \<Longrightarrow> \<not> rt_cached r \<Longrightarrow> h' p = Some r"
  unfolding frees_idle_def route_idle_def by (metis option.inject)

lemma frees_idle_sub: "frees_idle h h' \<Longrightarrow> h' p = Some r \<Longrightarrow> h p = Some r"
  unfolding frees_idle_def by (metis option.distinct(1))

datatype cache_op = Op_find int string | Op_add int string nat | Op_remove string

locale route_cache =
  fixes find :: "int \<Rightarrow> string \<Rightarrow> 'c \<Rightarrow> rheap \<Rightarrow> (nat option \<times> 'c \<times> rheap) option"
    and add :: "int \<Rightarrow> string \<Rightarrow> nat \<Rightarrow> 'c \<Rightarrow> rheap \<Rightarrow> (bool \<times> 'c \<times> rheap) option"
    and remove :: "string \<Rightarrow> 'c \<Rightarrow> rheap \<Rightarrow> ('c \<times> rheap) option"
    and ok :: "'c \<Rightarrow> rheap \<Rightarrow> bool"
    and tab :: "'c \<Rightarrow> string \<Rightarrow> nat option"
    and enabled :: "'c \<Rightarrow> bool"
  assumes find_law: "ok c h \<Longrightarrow> \<exists>r c' h'. find now k c h = Some (r, c', h') \<and> ok c' h' \<and> frees_idle h h'
        \<and> tab c' \<subseteq>\<^sub>m tab c \<and> enabled c' = enabled c \<and> (enabled c \<longrightarrow> tab c' k = r)
        \<and> (\<forall>p. r = Some p \<longrightarrow> tab c' k = Some p)
        \<and> (\<forall>k p. tab c k = Some p \<longrightarrow> \<not> route_idle h p \<longrightarrow> tab c' k = Some p)"
    and add_law: "ok c h \<Longrightarrow> h p = Some r \<Longrightarrow> \<not> rt_cached r \<Longrightarrow>
      add now k p c h = Some (False, c, h) \<and> (\<not> enabled c \<or> tab c k \<noteq> None) \<or>
      (\<exists>c'. add now k p c h = Some (True, c', h(p \<mapsto> r\<lparr>rt_act_time := now, rt_cached := True\<rparr>))
        \<and> ok c' (h(p \<mapsto> r\<lparr>rt_act_time := now, rt_cached := True\<rparr>))
        \<and> tab c' = (tab c)(k \<mapsto> p) \<and> tab c k = None \<and> enabled c \<and> enabled c')"
    and remove_law: "ok c h \<Longrightarrow> \<exists>c' h'. remove k c h = Some (c', h') \<and> ok c' h' \<and> frees_idle h h'
        \<and> tab c' \<subseteq>\<^sub>m tab c \<and> enabled c' = enabled c
        \<and> (\<forall>p. tab c' k = Some p \<longrightarrow> \<not> route_idle h p)
        \<and> (\<forall>k p. tab c k = Some p \<longrightarrow> \<not> route_idle h p \<longrightarrow> tab c' k = Some p)"
    and tab_alive: "ok c h \<Longrightarrow> tab c k = Some p \<Longrightarrow> \<exists>r. h p = Some r \<and> rt_cached r"
    and ok_update: "ok c h \<Longrightarrow> h p = Some r \<Longrightarrow> rt_cached r' = rt_cached r \<Longrightarrow> ok c (h(p \<mapsto> r'))"
    and ok_new: "ok c h \<Longrightarrow> h p = None \<Longrightarrow> \<not> rt_cached r \<Longrightarrow> ok c (h(p \<mapsto> r))"
    and ok_delete: "ok c h \<Longrightarrow> h p = Some r \<Longrightarrow> \<not> rt_cached r \<Longrightarrow> ok c (h(p := None))"
begin

lemma found_alive:
  assumes "ok c h" "find now k c h = Some (Some p, c', h')"
  shows "\<exists>r. h' p = Some r \<and> rt_cached r"
  using find_law [OF assms(1), of now k] assms(2) tab_alive by fastforce

text \<open>A route that was added is found as long as a channel uses it.\<close>

lemma find_after_add:
  assumes "ok c h" "h p = Some r" "\<not> rt_cached r" "rt_num_slots r \<noteq> 0" "add now k p c h = Some (True, c', h')"
  shows "\<exists>c'' h''. find now' k c' h' = Some (Some p, c'', h'') \<and> h'' p = h' p"
proof -
  let ?r = "r\<lparr>rt_act_time := now, rt_cached := True\<rparr>"
  have c': "ok c' h'" "tab c' k = Some p" "h' p = Some ?r" "enabled c'"
    using add_law [OF assms(1-3), of now k] assms(5) by auto
  then have "\<not> route_idle h' p"
    using assms(4) by (simp add: route_idle_def)
  with find_law [OF c'(1), of now' k] c' frees_idle_busy [of h' _ p ?r] assms(4)
  show ?thesis by fastforce
qed

lemma find_remove_busy:
  assumes "ok c h" "tab c k = Some p" "\<not> route_idle h p"
  shows "\<exists>c' h'. remove k' c h = Some (c', h') \<and> tab c' k = Some p"
  using remove_law [OF assms(1), of k'] assms by blast

end

subsection \<open>The code's cache meets the contract\<close>

definition cache_ok :: "nrdpx_cache_t \<Rightarrow> rheap \<Rightarrow> bool" where
  "cache_ok ca h \<longleftrightarrow> distinct (map fst (ca_routes ca)) \<and> distinct (map snd (ca_routes ca))
     \<and> (\<forall>p. p \<in> snd ` set (ca_routes ca) \<longleftrightarrow> (\<exists>r. h p = Some r \<and> rt_cached r))"

definition cache_tab :: "nrdpx_cache_t \<Rightarrow> string \<Rightarrow> nat option" where
  "cache_tab ca = map_of (ca_routes ca)"

lemma routes_erase_simps [simp]:
  "map_of (routes_erase k rs) = (map_of rs)(k := None)"
  "routes_erase k rs = [] \<longleftrightarrow> (\<forall>e\<in>set rs. fst e = k)"
  by (induction rs) (auto simp: routes_erase_def filter_empty_conv fun_eq_iff)

lemma map_of_fold_erase: "map_of (fold routes_erase ks rs) k = (if k \<in> set ks then None else map_of rs k)"
  by (induction ks arbitrary: rs) auto

lemma fold_erase_filter: "fold routes_erase ks rs = filter (\<lambda>e. fst e \<notin> set ks) rs"
  by (induction ks arbitrary: rs) (auto simp: routes_erase_def intro: filter_cong)

definition cleaned :: "int \<Rightarrow> int \<Rightarrow> nat set \<Rightarrow> rheap \<Rightarrow> rheap" where
  "cleaned now t ps h = (\<lambda>p. if p \<in> ps \<and> route_expired now t (the (h p)) then None else h p)"

lemma cache_clean_spec:
  assumes "distinct (map snd rs)" "\<forall>p\<in>snd ` set rs. h p \<noteq> None"
  shows "cache_clean now t rs h =
    Some (map fst (filter (\<lambda>e. route_expired now t (the (h (snd e)))) rs), cleaned now t (snd ` set rs) h)"
  using assms
proof (induction rs arbitrary: h)
  case (Cons e rs)
  obtain k p where e: "e = (k, p)" by fastforce
  from Cons.prems e obtain r where r: "h p = Some r" by auto
  have p: "p \<notin> snd ` set rs" using Cons.prems(1) e by auto
  show ?case
  proof (cases "route_expired now t r")
    case True
    let ?h = "h(p := None)"
    have al: "\<forall>q\<in>snd ` set rs. ?h q \<noteq> None"
      using Cons.prems(2) p by auto
    have f: "filter (\<lambda>e. route_expired now t (the (?h (snd e)))) rs = filter (\<lambda>e. route_expired now t (the (h (snd e)))) rs"
      using p by (intro filter_cong) auto
    have c: "cleaned now t (snd ` set rs) ?h = cleaned now t (snd ` set (e # rs)) h"
      using p r True by (auto simp: cleaned_def e fun_eq_iff)
    have "cache_clean now t rs ?h = Some (map fst (filter (\<lambda>e. route_expired now t (the (?h (snd e)))) rs),
        cleaned now t (snd ` set rs) ?h)"
      using Cons.prems(1) by (intro Cons.IH al) simp
    then show ?thesis
      using True r unfolding f c by (simp add: e route_delete_def)
  next
    case False
    have c: "cleaned now t (snd ` set rs) h = cleaned now t (snd ` set (e # rs)) h"
      using p r False by (auto simp: cleaned_def e fun_eq_iff)
    have "cache_clean now t rs h = Some (map fst (filter (\<lambda>e. route_expired now t (the (h (snd e)))) rs),
        cleaned now t (snd ` set rs) h)"
      using Cons.prems by (intro Cons.IH) auto
    then show ?thesis
      using False r unfolding c by (simp add: e)
  qed
qed (simp add: cleaned_def)

text \<open>Dropping a set of entries together with their routes keeps the table and the heap
  consistent.\<close>

lemma map_of_snd_unique:
  "distinct (map fst rs) \<Longrightarrow> (k, p) \<in> set rs \<Longrightarrow> map_of rs k = Some p"
  by (rule map_of_is_SomeI)

lemma cache_ok_alive: "cache_ok ca h \<Longrightarrow> map_of (ca_routes ca) k = Some p \<Longrightarrow> \<exists>r. h p = Some r \<and> rt_cached r"
  unfolding cache_ok_def by (metis image_eqI map_of_SomeD snd_conv)

lemma cache_ok_drop:
  assumes ok: "cache_ok ca h"
    and rs: "ca_routes ca' = filter (\<lambda>e. \<not> D (snd e)) (ca_routes ca)"
    and h': "\<And>p. h' p = (if D p \<and> p \<in> snd ` set (ca_routes ca) then None else h p)"
  shows "cache_ok ca' h'"
proof -
  have "p \<in> snd ` set (ca_routes ca') \<longleftrightarrow> p \<in> snd ` set (ca_routes ca) \<and> \<not> D p" for p
    unfolding rs by auto
  with ok h' show ?thesis
    unfolding cache_ok_def by (auto simp: rs distinct_map_filter)
qed

lemma erase_is_drop:
  assumes "distinct (map fst rs)" "distinct (map snd rs)" "map_of rs k = Some p"
  shows "routes_erase k rs = filter (\<lambda>e. \<not> snd e = p) rs"
  unfolding routes_erase_def
proof (rule filter_cong [OF refl])
  fix e assume e: "e \<in> set rs"
  have kp: "(k, p) \<in> set rs" using assms(3) by (rule map_of_SomeD)
  have "fst e = k \<Longrightarrow> snd e = p"
    using assms(3) map_of_is_SomeI [OF assms(1), of "fst e" "snd e"] e by (cases e) simp
  moreover have "snd e = p \<Longrightarrow> fst e = k"
    using inj_onD [of snd "set rs" e "(k, p)"] e kp assms(2) by (simp add: distinct_map)
  ultimately show "(fst e \<noteq> k) = (snd e \<noteq> p)" by blast
qed

text \<open>What every removal of idle entries guarantees.\<close>

definition cache_drops :: "nrdpx_cache_t \<Rightarrow> rheap \<Rightarrow> nrdpx_cache_t \<Rightarrow> rheap \<Rightarrow> (nat \<Rightarrow> bool) \<Rightarrow> bool" where
  "cache_drops ca h ca' h' D \<longleftrightarrow>
     ca_routes ca' = filter (\<lambda>e. \<not> D (snd e)) (ca_routes ca) \<and> ca_mode ca' = ca_mode ca
     \<and> h' = (\<lambda>p. if D p \<and> p \<in> snd ` set (ca_routes ca) then None else h p)
     \<and> (\<forall>p\<in>snd ` set (ca_routes ca). D p \<longrightarrow> rt_num_slots (the (h p)) = 0)"

lemma cache_drops_facts:
  assumes ok: "cache_ok ca h" and d: "cache_drops ca h ca' h' D"
  shows "cache_ok ca' h'" "frees_idle h h'" "cache_tab ca' \<subseteq>\<^sub>m cache_tab ca" "ca_mode ca' = ca_mode ca"
    "\<And>k p. cache_tab ca k = Some p \<Longrightarrow> \<not> route_idle h p \<Longrightarrow> cache_tab ca' k = Some p"
proof -
  have idle: "route_idle h p" if "p \<in> snd ` set (ca_routes ca)" "D p" for p
  proof -
    from ok that(1) obtain r where "h p = Some r" "rt_cached r"
      unfolding cache_ok_def by blast
    moreover have "rt_num_slots (the (h p)) = 0"
      using d that unfolding cache_drops_def by blast
    ultimately show ?thesis by (simp add: route_idle_def)
  qed
  have dist: "distinct (map fst (ca_routes ca))" "distinct (map fst (ca_routes ca'))"
    using ok d by (auto simp: cache_ok_def cache_drops_def distinct_map_filter)
  show "cache_ok ca' h'"
    using ok d by (intro cache_ok_drop [of ca h ca' D]) (auto simp: cache_drops_def)
  show "frees_idle h h'"
    using d idle by (auto simp: frees_idle_def cache_drops_def)
  show "cache_tab ca' \<subseteq>\<^sub>m cache_tab ca"
    unfolding map_le_def cache_tab_def
  proof
    fix k assume "k \<in> dom (map_of (ca_routes ca'))"
    then obtain p where p: "map_of (ca_routes ca') k = Some p" by blast
    then have "(k, p) \<in> set (ca_routes ca)"
      using map_of_SomeD [OF p] d by (simp add: cache_drops_def)
    with p dist(1) show "map_of (ca_routes ca') k = map_of (ca_routes ca) k"
      by (simp add: map_of_is_SomeI)
  qed
  show "ca_mode ca' = ca_mode ca" using d by (simp add: cache_drops_def)
  show "cache_tab ca' k = Some p" if "cache_tab ca k = Some p" "\<not> route_idle h p" for k p
  proof -
    have kp: "(k, p) \<in> set (ca_routes ca)" using that(1) map_of_SomeD by (fastforce simp: cache_tab_def)
    then have "p \<in> snd ` set (ca_routes ca)" by force
    with idle that(2) have "\<not> D p" by blast
    with kp d have "(k, p) \<in> set (ca_routes ca')" by (simp add: cache_drops_def)
    with dist(2) show ?thesis by (simp add: cache_tab_def map_of_is_SomeI)
  qed
qed

lemma cache_drops_none [simp]: "cache_drops ca h ca h (\<lambda>p. False)"
  by (simp add: cache_drops_def)

lemma delete_drops:
  assumes ok: "cache_ok ca h" and k: "map_of (ca_routes ca) key = Some p"
    and r: "h p = Some r" "rt_num_slots r = 0"
  shows "cache_drops ca h (ca\<lparr>ca_routes := routes_erase key (ca_routes ca)\<rparr>) (h(p := None)) (\<lambda>q. q = p)"
proof -
  have "p \<in> snd ` set (ca_routes ca)" using map_of_SomeD [OF k] by force
  then show ?thesis
    using ok k r erase_is_drop [of "ca_routes ca" key p]
    by (auto simp: cache_drops_def cache_ok_def fun_eq_iff)
qed

lemma clean_drops:
  assumes ok: "cache_ok ca h"
  shows "\<exists>keys h'. cache_clean now t (ca_routes ca) h = Some (keys, h')
    \<and> cache_drops ca h (ca\<lparr>ca_chktime := c, ca_routes := fold routes_erase keys (ca_routes ca)\<rparr>) h'
        (\<lambda>p. route_expired now t (the (h p)))"
proof -
  let ?D = "\<lambda>p. route_expired now t (the (h p))" and ?rs = "ca_routes ca"
  let ?keys = "map fst (filter (\<lambda>e. ?D (snd e)) ?rs)"
  have "distinct (map snd ?rs)" "\<forall>p\<in>snd ` set ?rs. h p \<noteq> None"
    using ok unfolding cache_ok_def by auto
  note spec = cache_clean_spec [OF this, of now t]
  have "fold routes_erase ?keys ?rs = filter (\<lambda>e. \<not> ?D (snd e)) ?rs"
    unfolding fold_erase_filter
  proof (rule filter_cong [OF refl])
    fix e assume e: "e \<in> set ?rs"
    have "e' = e" if "e' \<in> set ?rs" "fst e' = fst e" for e'
      using inj_onD [of fst "set ?rs" e' e] that e ok by (simp add: cache_ok_def distinct_map)
    with e show "(fst e \<notin> set ?keys) = (\<not> ?D (snd e))" by auto
  qed
  then have "cache_drops ca h (ca\<lparr>ca_chktime := c, ca_routes := fold routes_erase ?keys ?rs\<rparr>)
      (cleaned now t (snd ` set ?rs) h) ?D"
    by (auto simp: cache_drops_def cleaned_def fun_eq_iff route_expired_def)
  with spec show ?thesis by blast
qed

lemma cache_find_law:
  assumes ok: "cache_ok ca h"
  shows "\<exists>r ca' h'. cache_find now key ca h = Some (r, ca', h') \<and> cache_ok ca' h' \<and> frees_idle h h'
    \<and> cache_tab ca' \<subseteq>\<^sub>m cache_tab ca \<and> ca_mode ca' = ca_mode ca
    \<and> (ca_mode ca \<noteq> CACHE_NONE \<longrightarrow> cache_tab ca' key = r) \<and> (\<forall>p. r = Some p \<longrightarrow> cache_tab ca' key = Some p)
    \<and> (\<forall>k p. cache_tab ca k = Some p \<longrightarrow> \<not> route_idle h p \<longrightarrow> cache_tab ca' k = Some p)"
proof (cases "ca_mode ca = CACHE_NONE")
  case True
  with ok show ?thesis by (simp add: cache_find_def)
next
  case False
  let ?stage = "if now > ca_chktime ca then
       do { (keys, h) \<leftarrow> cache_clean now (ca_timeout ca) (ca_routes ca) h;
            Some (ca\<lparr>ca_chktime := now + 3600, ca_routes := fold routes_erase keys (ca_routes ca)\<rparr>, h) }
     else Some (ca, h)"
  obtain ca1 h1 D where s1: "?stage = Some (ca1, h1)" "cache_drops ca h ca1 h1 D" "ca_timeout ca1 = ca_timeout ca"
  proof (cases "now > ca_chktime ca")
    case True
    with clean_drops [OF ok, of now "ca_timeout ca" "now + 3600"] that show ?thesis by auto
  next
    case False
    with that [of ca h "\<lambda>p. False"] show ?thesis by simp
  qed
  note f1 = cache_drops_facts [OF ok s1(2)]
  let ?rest = "case map_of (ca_routes ca1) key of
       None \<Rightarrow> Some (None, ca1, h1)
     | Some p \<Rightarrow> do { r \<leftarrow> h1 p;
          if route_expired now (ca_timeout ca1) r
          then do { h \<leftarrow> route_delete p h1; Some (None, ca1\<lparr>ca_routes := routes_erase key (ca_routes ca1)\<rparr>, h) }
          else Some (Some p, ca1, h1) }"
  have find: "cache_find now key ca h = ?rest"
    using False s1(1) by (simp add: cache_find_def)
  show ?thesis
  proof (cases "map_of (ca_routes ca1) key")
    case None
    with f1 show ?thesis unfolding find by (simp add: cache_tab_def)
  next
    case (Some p)
    from cache_ok_alive [OF f1(1) Some] obtain r where r: "h1 p = Some r" by blast
    show ?thesis
    proof (cases "route_expired now (ca_timeout ca1) r")
      case False
      with f1 Some r show ?thesis unfolding find by (simp add: cache_tab_def)
    next
      case True
      let ?ca2 = "ca1\<lparr>ca_routes := routes_erase key (ca_routes ca1)\<rparr>"
      have "cache_drops ca1 h1 ?ca2 (h1(p := None)) (\<lambda>q. q = p)"
        using delete_drops [OF f1(1) Some r] True by (simp add: route_expired_def)
      note f2 = cache_drops_facts [OF f1(1) this]
      have busy: "\<not> route_idle h q \<Longrightarrow> \<not> route_idle h1 q" for q
        using frees_idle_sub [OF f1(2)] by (auto simp: route_idle_def)
      have "cache_find now key ca h = Some (None, ?ca2, h1(p := None))"
        unfolding find using Some r True by (simp add: route_delete_def)
      moreover have "cache_tab ?ca2 key = None" by (simp add: cache_tab_def)
      ultimately show ?thesis
        using f1 f2 busy frees_idle_trans [OF f1(2) f2(2)] map_le_trans [OF f2(3) f1(3)] by simp
    qed
  qed
qed

lemma cache_add_law:
  assumes ok: "cache_ok ca h" and r: "h p = Some r" "\<not> rt_cached r"
  shows "cache_add now k p ca h = Some (False, ca, h) \<and> (ca_mode ca = CACHE_NONE \<or> cache_tab ca k \<noteq> None) \<or>
      (\<exists>c'. cache_add now k p ca h = Some (True, c', h(p \<mapsto> r\<lparr>rt_act_time := now, rt_cached := True\<rparr>))
        \<and> cache_ok c' (h(p \<mapsto> r\<lparr>rt_act_time := now, rt_cached := True\<rparr>))
        \<and> cache_tab c' = (cache_tab ca)(k \<mapsto> p) \<and> cache_tab ca k = None
        \<and> ca_mode ca \<noteq> CACHE_NONE \<and> ca_mode c' \<noteq> CACHE_NONE)"
proof (cases "ca_mode ca = CACHE_NONE \<or> cache_tab ca k \<noteq> None")
  case True
  then show ?thesis by (auto simp: cache_add_def cache_tab_def)
next
  case False
  let ?ca = "ca\<lparr>ca_routes := ca_routes ca @ [(k, p)]\<rparr>"
  let ?h = "h(p \<mapsto> r\<lparr>rt_act_time := now, rt_cached := True\<rparr>)"
  have k: "k \<notin> fst ` set (ca_routes ca)"
    using False by (simp add: cache_tab_def map_of_eq_None_iff)
  have p: "p \<notin> snd ` set (ca_routes ca)"
    using ok r by (auto simp: cache_ok_def)
  have "cache_ok ?ca ?h"
    using ok k p unfolding cache_ok_def by auto
  moreover have "cache_tab ?ca = (cache_tab ca)(k \<mapsto> p)"
    using False by (auto simp: cache_tab_def map_add_def fun_eq_iff split: option.splits)
  ultimately show ?thesis
    using False r by (auto simp: cache_add_def cache_tab_def)
qed

lemma cache_remove_law:
  assumes ok: "cache_ok ca h"
  shows "\<exists>c' h'. cache_remove k ca h = Some (c', h') \<and> cache_ok c' h' \<and> frees_idle h h'
    \<and> cache_tab c' \<subseteq>\<^sub>m cache_tab ca \<and> ca_mode c' = ca_mode ca
    \<and> (\<forall>p. cache_tab c' k = Some p \<longrightarrow> \<not> route_idle h p)
    \<and> (\<forall>k p. cache_tab ca k = Some p \<longrightarrow> \<not> route_idle h p \<longrightarrow> cache_tab c' k = Some p)"
proof (cases "map_of (ca_routes ca) k")
  case None
  with ok show ?thesis by (simp add: cache_remove_def cache_tab_def)
next
  case (Some p)
  from cache_ok_alive [OF ok Some] obtain r where r: "h p = Some r" by blast
  show ?thesis
  proof (cases "rt_num_slots r = 0")
    case True
    note f = cache_drops_facts [OF ok delete_drops [OF ok Some r True]]
    from f Some r True show ?thesis
      by (simp add: cache_remove_def route_delete_def cache_tab_def)
  next
    case False
    with ok Some r show ?thesis by (simp add: cache_remove_def cache_tab_def route_idle_def)
  qed
qed

interpretation rc: route_cache cache_find cache_add cache_remove cache_ok cache_tab "\<lambda>ca. ca_mode ca \<noteq> CACHE_NONE"
proof
  fix c h now k p r r'
  show "\<exists>r c' h'. cache_find now k c h = Some (r, c', h') \<and> cache_ok c' h' \<and> frees_idle h h'
        \<and> cache_tab c' \<subseteq>\<^sub>m cache_tab c \<and> (ca_mode c' \<noteq> CACHE_NONE) = (ca_mode c \<noteq> CACHE_NONE)
        \<and> (ca_mode c \<noteq> CACHE_NONE \<longrightarrow> cache_tab c' k = r)
        \<and> (\<forall>p. r = Some p \<longrightarrow> cache_tab c' k = Some p)
        \<and> (\<forall>k p. cache_tab c k = Some p \<longrightarrow> \<not> route_idle h p \<longrightarrow> cache_tab c' k = Some p)" if "cache_ok c h"
    using cache_find_law [OF that, of now k] by metis
  show "\<exists>c' h'. cache_remove k c h = Some (c', h') \<and> cache_ok c' h' \<and> frees_idle h h'
        \<and> cache_tab c' \<subseteq>\<^sub>m cache_tab c \<and> (ca_mode c' \<noteq> CACHE_NONE) = (ca_mode c \<noteq> CACHE_NONE)
        \<and> (\<forall>p. cache_tab c' k = Some p \<longrightarrow> \<not> route_idle h p)
        \<and> (\<forall>k p. cache_tab c k = Some p \<longrightarrow> \<not> route_idle h p \<longrightarrow> cache_tab c' k = Some p)" if "cache_ok c h"
    using cache_remove_law [OF that, of k] by metis
  show "cache_ok c (h(p \<mapsto> r'))" if "cache_ok c h" "h p = Some r" "rt_cached r' = rt_cached r"
    using that unfolding cache_ok_def by auto
  show "cache_ok c (h(p \<mapsto> r))" if "cache_ok c h" "h p = None" "\<not> rt_cached r"
    using that unfolding cache_ok_def by auto
  show "cache_ok c (h(p := None))" if "cache_ok c h" "h p = Some r" "\<not> rt_cached r"
    using that unfolding cache_ok_def by auto
qed (use cache_add_law in \<open>auto simp: cache_tab_def dest: cache_ok_alive\<close>)

end
