(* ===== verification/Channel.thy ===== *)
theory Channel
  imports Route_Cache
begin

text \<open>
  The buffers of a channel, \<open>nrdpx_channel_t::buffer_t\<close>, the relay steps that the main loop
  makes on them, and \<open>nrdpx_channel_t::adjust_buffers\<close> (\<open>src/src/nrdpx_server.cpp\<close>).

  A buffer's memory is a function from offsets to bytes together with its size; the bytes
  from \<open>realloc\<close> and \<open>malloc\<close> that the program has not written are those of \<open>junk\<close>, an
  argument.  A write outside the buffer has the result \<open>None\<close>.  The allocations do not fail.
\<close>

record buffer_t =
  bf_data :: "nat \<Rightarrow> byte"
  bf_size :: nat
  bf_pos :: nat

definition new_buffer :: "(nat \<Rightarrow> byte) \<Rightarrow> buffer_t" where
  "new_buffer junk = \<lparr>bf_data = junk, bf_size = nat NRDPX_BUFFER_SIZE_MIN, bf_pos = 0\<rparr>"

text \<open>\<open>recv\<close> into the free part of the buffer, which received the bytes \<open>bs\<close>.\<close>

definition buf_room :: "buffer_t \<Rightarrow> nat" where
  "buf_room b = bf_size b - bf_pos b"

definition buf_put :: "byte list \<Rightarrow> buffer_t \<Rightarrow> buffer_t option" where
  "buf_put bs b =
     (if bf_pos b + length bs > bf_size b then None
      else Some (b\<lparr>bf_data := (\<lambda>i. if bf_pos b \<le> i \<and> i < bf_pos b + length bs
                                  then bs ! (i - bf_pos b) else bf_data b i),
                  bf_pos := bf_pos b + length bs\<rparr>))"

text \<open>The buffer after \<open>send\<close> accepted \<open>n\<close> bytes.\<close>

definition buf_sent :: "nat \<Rightarrow> buffer_t \<Rightarrow> buffer_t" where
  "buf_sent n b =
     (if n \<noteq> bf_pos b then
        b\<lparr>bf_data := (\<lambda>i. if i < bf_pos b - n then bf_data b (i + n) else bf_data b i),
          bf_pos := bf_pos b - n\<rparr>
      else b\<lparr>bf_pos := 0\<rparr>)"

definition buf_realloc :: "(nat \<Rightarrow> byte) \<Rightarrow> nat \<Rightarrow> buffer_t \<Rightarrow> buffer_t" where
  "buf_realloc junk n b =
     b\<lparr>bf_data := (\<lambda>i. if i < bf_size b then bf_data b i else junk i), bf_size := n\<rparr>"

text \<open>The pending bytes: what was received and not yet sent.\<close>

definition buf_bytes :: "buffer_t \<Rightarrow> byte list" where
  "buf_bytes b = map (bf_data b) [0..<bf_pos b]"

definition buf_ok :: "buffer_t \<Rightarrow> bool" where
  "buf_ok b \<longleftrightarrow> bf_pos b \<le> bf_size b"

subsection \<open>Buffers are queues of bytes\<close>

text \<open>The interface of a relay buffer: \<open>put\<close> appends what was received, \<open>sent\<close> drops what
  was sent from the front.  A relay session is a list of the two kinds of steps.\<close>

datatype relay_step = Received "byte list" | Sent nat

locale relay_buffer =
  fixes put :: "byte list \<Rightarrow> 'b \<Rightarrow> 'b option"
    and sent :: "nat \<Rightarrow> 'b \<Rightarrow> 'b"
    and bytes :: "'b \<Rightarrow> byte list"
    and room :: "'b \<Rightarrow> nat"
    and ok :: "'b \<Rightarrow> bool"
  assumes put_law: "ok b \<Longrightarrow> length bs \<le> room b \<Longrightarrow>
      \<exists>b'. put bs b = Some b' \<and> ok b' \<and> bytes b' = bytes b @ bs \<and> room b' = room b - length bs"
    and sent_law: "ok b \<Longrightarrow> n \<le> length (bytes b) \<Longrightarrow>
      ok (sent n b) \<and> bytes (sent n b) = drop n (bytes b) \<and> room (sent n b) = room b + n"
begin

text \<open>The run of a session: each step takes as many bytes as the buffer can hold or has.  It
  gives the buffer, and all bytes received and sent.\<close>

fun session :: "relay_step list \<Rightarrow> 'b \<Rightarrow> ('b \<times> byte list \<times> byte list) option" where
  "session [] b = Some (b, [], [])"
| "session (Received bs # ss) b =
     (let bs = take (room b) bs in
      case put bs b of None \<Rightarrow> None
      | Some b' \<Rightarrow> map_option (\<lambda>(b', rcvd, snt). (b', bs @ rcvd, snt)) (session ss b'))"
| "session (Sent n # ss) b =
     (let n = min n (length (bytes b)) in
      map_option (\<lambda>(b', rcvd, snt). (b', rcvd, take n (bytes b) @ snt)) (session ss (sent n b)))"

lemma session_fifo:
  "ok b \<Longrightarrow> \<exists>b' rcvd snt. session ss b = Some (b', rcvd, snt) \<and> ok b' \<and> bytes b @ rcvd = snt @ bytes b'"
proof (induction ss arbitrary: b)
  case Nil
  then show ?case by simp
next
  case (Cons s ss)
  show ?case
  proof (cases s)
    case (Received bs)
    let ?bs = "take (room b) bs"
    obtain b1 where b1: "put ?bs b = Some b1" "ok b1" "bytes b1 = bytes b @ ?bs"
      using put_law [OF Cons.prems, of ?bs] by auto
    obtain b' rcvd snt where "session ss b1 = Some (b', rcvd, snt)" "ok b'" "bytes b1 @ rcvd = snt @ bytes b'"
      using Cons.IH [OF b1(2)] by blast
    with Received b1 show ?thesis by (auto simp: Let_def)
  next
    case (Sent n)
    let ?n = "min n (length (bytes b))"
    have b1: "ok (sent ?n b)" "bytes (sent ?n b) = drop ?n (bytes b)"
      using sent_law [OF Cons.prems, of ?n] by auto
    obtain b' rcvd snt where ih: "session ss (sent ?n b) = Some (b', rcvd, snt)" "ok b'"
      "drop ?n (bytes b) @ rcvd = snt @ bytes b'"
      using Cons.IH [OF b1(1)] b1(2) by metis
    have "bytes b @ rcvd = take ?n (bytes b) @ drop ?n (bytes b) @ rcvd"
      by (simp only: append_take_drop_id append_assoc [symmetric])
    with Sent ih show ?thesis by (auto simp: Let_def)
  qed
qed

end

lemma buf_put_bytes:
  assumes "buf_ok b" "length bs \<le> buf_room b"
  shows "\<exists>b'. buf_put bs b = Some b' \<and> buf_ok b' \<and> buf_bytes b' = buf_bytes b @ bs
    \<and> buf_room b' = buf_room b - length bs"
proof -
  have "map (\<lambda>i. if bf_pos b \<le> i \<and> i < bf_pos b + length bs then bs ! (i - bf_pos b) else bf_data b i)
      [0..<bf_pos b + length bs] = map (bf_data b) [0..<bf_pos b] @ bs"
    by (rule nth_equalityI) (auto simp: nth_append)
  with assms show ?thesis
    by (auto simp: buf_put_def buf_ok_def buf_room_def buf_bytes_def)
qed

lemma buf_sent_bytes:
  assumes "buf_ok b" "n \<le> length (buf_bytes b)"
  shows "buf_ok (buf_sent n b) \<and> buf_bytes (buf_sent n b) = drop n (buf_bytes b)
    \<and> buf_room (buf_sent n b) = buf_room b + n"
proof -
  have "map (\<lambda>i. if i < bf_pos b - n then bf_data b (i + n) else bf_data b i) [0..<bf_pos b - n]
      = drop n (map (bf_data b) [0..<bf_pos b])"
    by (rule nth_equalityI) (auto simp: add.commute)
  with assms show ?thesis
    by (auto simp: buf_sent_def buf_ok_def buf_room_def buf_bytes_def)
qed

interpretation relay: relay_buffer buf_put buf_sent buf_bytes buf_room buf_ok
  by unfold_locales (use buf_put_bytes buf_sent_bytes in auto)

lemma buf_realloc_bytes:
  assumes "buf_ok b" "bf_size b \<le> n"
  shows "buf_bytes (buf_realloc junk n b) = buf_bytes b" "buf_ok (buf_realloc junk n b)"
  using assms by (auto simp: buf_realloc_def buf_bytes_def buf_ok_def)

lemma new_buffer_ok [simp]: "buf_ok (new_buffer junk)" "buf_bytes (new_buffer junk) = []"
  by (simp_all add: new_buffer_def buf_ok_def buf_bytes_def)

subsection \<open>Channels\<close>

record nrdpx_channel_t =
  ch_addr :: nat
  ch_id :: "64 word"
  ch_route :: nat
  ch_conn_time :: int
  ch_connected :: bool
  ch_in_source :: buffer_t
  ch_in_target :: buffer_t
  ch_source :: int
  ch_target :: int

text \<open>The options the kernel is asked for on one of the channel's sockets.\<close>

definition adjust_socket :: "sock_os \<Rightarrow> size_mode \<Rightarrow> int \<Rightarrow> int \<Rightarrow> (sockopt \<times> int) list" where
  "adjust_socket os mode max_buffer sock =
     (if mode \<noteq> MODE_SYSTEM
      then snd (nrdpx_socket_adjust_buffers os sock (mode = MODE_ALIGN) max_buffer) else [])"

definition adjust_source :: "sock_os \<Rightarrow> size_mode \<Rightarrow> int \<Rightarrow> nrdpx_channel_t \<Rightarrow> (sockopt \<times> int) list" where
  "adjust_source os mode max_buffer c = adjust_socket os mode max_buffer (ch_source c)"

definition adjust_target :: "sock_os \<Rightarrow> size_mode \<Rightarrow> int \<Rightarrow> nrdpx_channel_t \<Rightarrow> (sockopt \<times> int) list" where
  "adjust_target os mode max_buffer c = adjust_socket os mode max_buffer (ch_target c)"

text \<open>The new size of the buffer between a socket \<open>from\<close> and a socket \<open>to\<close>.\<close>

definition calc_buffer :: "sock_os \<Rightarrow> size_mode \<Rightarrow> int \<Rightarrow> int \<Rightarrow> int \<Rightarrow> int" where
  "calc_buffer os mode max_buffer from_sock to_sock =
     (case mode of
        MODE_ALIGN \<Rightarrow>
          (let snew = 0;
               snew = (case nrdpx_socket_get_recv_buffer os from_sock of
                         None \<Rightarrow> snew | Some sz \<Rightarrow> if sz > snew then sz else snew);
               snew = (case nrdpx_socket_get_send_buffer os to_sock of
                         None \<Rightarrow> snew | Some sz \<Rightarrow> if sz > snew then sz else snew)
           in if snew = 0 then max_buffer else snew)
      | MODE_MAXBUF \<Rightarrow> max_buffer
      | MODE_SYSTEM \<Rightarrow> NRDPX_BUFFER_SIZE_MAX)"

definition buf_grow :: "(nat \<Rightarrow> byte) \<Rightarrow> int \<Rightarrow> buffer_t \<Rightarrow> buffer_t" where
  "buf_grow junk snew b = (if snew > int (bf_size b) then buf_realloc junk (nat snew) b else b)"

definition adjust_buffers ::
  "sock_os \<Rightarrow> size_mode \<Rightarrow> int \<Rightarrow> (nat \<Rightarrow> byte) \<Rightarrow> nrdpx_channel_t \<Rightarrow> nrdpx_channel_t" where
  "adjust_buffers os mode max_buffer junk c =
     c\<lparr>ch_in_target := buf_grow junk (calc_buffer os mode max_buffer (ch_target c) (ch_source c)) (ch_in_target c),
       ch_in_source := buf_grow junk (calc_buffer os mode max_buffer (ch_source c) (ch_target c)) (ch_in_source c)\<rparr>"

definition chan_bufs_ok :: "nrdpx_channel_t \<Rightarrow> bool" where
  "chan_bufs_ok c \<longleftrightarrow> buf_ok (ch_in_source c) \<and> buf_ok (ch_in_target c)"

lemma buf_grow_facts:
  assumes "buf_ok b"
  shows "buf_ok (buf_grow junk n b)" "buf_bytes (buf_grow junk n b) = buf_bytes b"
    "bf_size b \<le> bf_size (buf_grow junk n b)" "bf_pos (buf_grow junk n b) = bf_pos b"
    "int (bf_size (buf_grow junk n b)) = max n (int (bf_size b))"
  using assms buf_realloc_bytes [of b "nat n" junk]
  by (auto simp: buf_grow_def, auto simp: buf_realloc_def)

lemma adjust_buffers_simps [simp]:
  "ch_addr (adjust_buffers os m n j c) = ch_addr c" "ch_route (adjust_buffers os m n j c) = ch_route c"
  "ch_source (adjust_buffers os m n j c) = ch_source c" "ch_target (adjust_buffers os m n j c) = ch_target c"
  "ch_id (adjust_buffers os m n j c) = ch_id c" "ch_conn_time (adjust_buffers os m n j c) = ch_conn_time c"
  "ch_connected (adjust_buffers os m n j c) = ch_connected c"
  by (simp_all add: adjust_buffers_def)

lemma adjust_buffers_ok:
  assumes "chan_bufs_ok c"
  shows "chan_bufs_ok (adjust_buffers os m n j c)"
    "buf_bytes (ch_in_source (adjust_buffers os m n j c)) = buf_bytes (ch_in_source c)"
    "buf_bytes (ch_in_target (adjust_buffers os m n j c)) = buf_bytes (ch_in_target c)"
  using assms by (auto simp: chan_bufs_ok_def adjust_buffers_def buf_grow_facts)

end
