(* ===== verification/Proxy.thy ===== *)
theory Proxy
  imports Channel
begin

text \<open>
  The proxy object, the channels' life and the main loop of \<open>src/src/nrdpx_server.cpp\<close>.

  The state is \<open>nrdpx_proxy_t\<close> with the parts of the process that its operations change: the
  heap of routes, the counter of channel identifiers and the open descriptors.  Servers, clients
  and balancers never move after the configuration is loaded, so a pointer to one is its index.
  A channel is stored in the vector \<open>px_channels\<close> under its address \<open>ch_addr\<close>.  Fresh
  addresses come from \<open>px_next_route\<close> and \<open>px_next_chan\<close>.

  An operation is \<open>None\<close> when the program would read or free memory that is not allocated,
  write outside a buffer, or use a descriptor that \<open>fd_set\<close> has no bit for.
\<close>

subsection \<open>The state\<close>

record nrdpx_listener_t =
  ls_host :: string
  ls_port :: int
  ls_sock :: int

definition listener_init :: "string \<Rightarrow> int \<Rightarrow> nrdpx_listener_t" where
  "listener_init h p =
     \<lparr>ls_host = (if h = [] then XTL_INET_IPV4_ANY else h),
      ls_port = (if p = 0 then NRDPX_CONN_PORT else p), ls_sock = NRD_NOSOCK\<rparr>"

definition listener_of_addr :: "string \<Rightarrow> nrdpx_listener_t" where
  "listener_of_addr a = (let (host, port) = parse_host_port a 0 in listener_init host port)"

record nrdpx_proxy_t =
  px_clients :: "nrdpx_client_t list"
  px_servers :: "nrdpx_server_t list"
  px_balancers :: "nrdpx_balancer_t list"
  px_channels :: "nrdpx_channel_t list"
  px_listeners :: "nrdpx_listener_t list"
  px_cache :: nrdpx_cache_t
  px_info_port :: int
  px_max_faults :: int
  px_max_buffer :: int
  px_socket_mode :: size_mode
  px_buffer_mode :: size_mode
  px_info_period :: int
  px_info_enabled :: bool
  px_conn_timeout :: int
  px_status_period :: int
  px_routes :: rheap
  px_next_route :: nat
  px_next_chan :: nat
  px_id_count :: "64 word"
  px_fds :: "int set"

definition new_proxy :: "int \<Rightarrow> nrdpx_proxy_t" where
  "new_proxy chktime =
     \<lparr>px_clients = [], px_servers = [], px_balancers = [], px_channels = [], px_listeners = [],
      px_cache = new_cache chktime, px_info_port = NRDPX_INFO_PORT, px_max_faults = 2,
      px_max_buffer = NRDPX_BUFFER_SIZE_MAX, px_socket_mode = MODE_SYSTEM,
      px_buffer_mode = MODE_SYSTEM, px_info_period = 15, px_info_enabled = True,
      px_conn_timeout = 30, px_status_period = 300,
      px_routes = (\<lambda>p. None), px_next_route = 0, px_next_chan = 0, px_id_count = 0, px_fds = {}\<rparr>"

text \<open>What the system answers to one operation: the rounding of doubles, the resolver, the
  socket calls, the peer of a socket, the clock, \<open>errno\<close> after \<open>connect\<close>, and the bytes found
  in memory from \<open>malloc\<close>.\<close>

record px_env =
  en_fl :: "rat \<Rightarrow> rat"
  en_res :: resolver
  en_os :: sock_os
  en_peer :: "int \<Rightarrow> addr_t option"
  en_time :: int
  en_errno :: int
  en_junk :: "nat \<Rightarrow> byte"

definition get :: "'a list \<Rightarrow> nat \<Rightarrow> 'a option" where
  "get xs i = (if i < length xs then Some (xs ! i) else None)"

subsection \<open>Channels\<close>

text \<open>The constructor.\<close>

definition channel_new ::
  "px_env \<Rightarrow> int \<Rightarrow> int \<Rightarrow> nat \<Rightarrow> int \<Rightarrow> nrdpx_proxy_t \<Rightarrow> (nrdpx_channel_t \<times> nrdpx_proxy_t) option" where
  "channel_new env src dst rte now w =
     do { r \<leftarrow> px_routes w rte;
          ci \<leftarrow> rt_client r; cl \<leftarrow> get (px_clients w) ci;
          si \<leftarrow> rt_server r; sv \<leftarrow> get (px_servers w) si;
          let count = px_id_count w + 1 in
          Some (\<lparr>ch_addr = px_next_chan w, ch_id = (if count = 0 then 1 else count), ch_route = rte,
                 ch_conn_time = now, ch_connected = False,
                 ch_in_source = new_buffer (en_junk env), ch_in_target = new_buffer (en_junk env),
                 ch_source = src, ch_target = dst\<rparr>,
                w\<lparr>px_next_chan := px_next_chan w + 1, px_id_count := count,
                  px_routes := (px_routes w)(rte \<mapsto>
                    r\<lparr>rt_act_time := en_time env, rt_num_slots := rt_num_slots r + 1\<rparr>),
                  px_clients := (px_clients w)[ci := cl\<lparr>cl_num_slots := cl_num_slots cl + 1\<rparr>],
                  px_servers := (px_servers w)[si := sv\<lparr>sv_num_slots := sv_num_slots sv + 1\<rparr>]\<rparr>) }"

text \<open>The destructor.\<close>

definition channel_destroy :: "int \<Rightarrow> nrdpx_channel_t \<Rightarrow> nrdpx_proxy_t \<Rightarrow> nrdpx_proxy_t option" where
  "channel_destroy t c w =
     do { let fds = nrdpx_socket_close (nrdpx_socket_close (px_fds w) (ch_source c)) (ch_target c) in
          do { r \<leftarrow> px_routes w (ch_route c);
               ci \<leftarrow> rt_client r; cl \<leftarrow> get (px_clients w) ci;
               si \<leftarrow> rt_server r; sv \<leftarrow> get (px_servers w) si;
               let w = w\<lparr>px_fds := fds,
                         px_clients := (px_clients w)[ci := cl\<lparr>cl_num_slots := xtl_max 0 (cl_num_slots cl - 1)\<rparr>],
                         px_servers := (px_servers w)[si := sv\<lparr>sv_num_slots := xtl_max 0 (sv_num_slots sv - 1)\<rparr>]\<rparr> in
               if \<not> rt_cached r then Some (w\<lparr>px_routes := (px_routes w)(ch_route c := None)\<rparr>)
               else Some (w\<lparr>px_routes := (px_routes w)(ch_route c \<mapsto>
                      r\<lparr>rt_act_time := t, rt_num_slots := xtl_max 0 (rt_num_slots r - 1)\<rparr>)\<rparr>) } }"

definition add_channel :: "nrdpx_channel_t \<Rightarrow> nrdpx_proxy_t \<Rightarrow> nrdpx_proxy_t" where
  "add_channel c w = w\<lparr>px_channels := px_channels w @ [c]\<rparr>"

fun erase_channel :: "nat \<Rightarrow> nrdpx_channel_t list \<Rightarrow> (nrdpx_channel_t \<times> nrdpx_channel_t list) option" where
  "erase_channel a [] = None"
| "erase_channel a (c # cs) =
     (if ch_addr c = a then Some (c, cs)
      else map_option (\<lambda>(d, ds). (d, c # ds)) (erase_channel a cs))"

definition del_channel :: "int \<Rightarrow> nat \<Rightarrow> nrdpx_proxy_t \<Rightarrow> nrdpx_proxy_t option" where
  "del_channel t a w =
     (case erase_channel a (px_channels w) of
        None \<Rightarrow> Some w
      | Some (c, cs) \<Rightarrow> channel_destroy t c (w\<lparr>px_channels := cs\<rparr>))"

definition nrdpx_channel_delete :: "int \<Rightarrow> nat option \<Rightarrow> nrdpx_proxy_t \<Rightarrow> nrdpx_proxy_t option" where
  "nrdpx_channel_delete t chn w = (case chn of None \<Rightarrow> Some w | Some a \<Rightarrow> del_channel t a w)"

subsection \<open>Creating a channel\<close>

text \<open>The first client of a balancer with a free slot whose sources contain the address.\<close>

fun pick_client :: "nrdpx_client_t list \<Rightarrow> addr_t \<Rightarrow> nat list \<Rightarrow> nat option" where
  "pick_client clients src [] = None"
| "pick_client clients src (p # ps) =
     (let cln = clients ! p in
      if cl_num_slots cln \<ge> cl_max_slots cln then pick_client clients src ps
      else if list_ex (is_addr_in_cidr src) (cl_sources cln) then Some p
      else pick_client clients src ps)"

definition server_usable :: "nat option \<Rightarrow> nrdpx_server_t list \<Rightarrow> nat \<Rightarrow> bool" where
  "server_usable nosvr servers p \<longleftrightarrow> Some p \<noteq> nosvr
     \<and> nrdpx_server_is_active (Some (servers ! p))
     \<and> nrdpx_server_slot_count (Some (servers ! p)) < nrdpx_server_slot_limit (Some (servers ! p))
     \<and> nrdpx_server_user_count (Some (servers ! p)) < nrdpx_server_user_limit (Some (servers ! p))"

text \<open>The loop over the balancers.  \<open>svrs\<close> is the vector \<open>servers\<close>, which the code does
  not clear between balancers.\<close>

fun route_scan ::
  "(rat \<Rightarrow> rat) \<Rightarrow> addr_t \<Rightarrow> nat option \<Rightarrow> nrdpx_client_t list \<Rightarrow> nrdpx_server_t list
   \<Rightarrow> (nat \<times> nrdpx_balancer_t) list \<Rightarrow> nat list \<Rightarrow> nrdpx_route_t \<Rightarrow> nrdpx_route_t" where
  "route_scan fl src nosvr clients servers [] svrs route = route"
| "route_scan fl src nosvr clients servers ((b, bal) # bals) svrs route =
     (let route = route\<lparr>rt_balancer := Some b\<rparr> in
      case pick_client clients src (bl_clients bal) of
        None \<Rightarrow> route_scan fl src nosvr clients servers bals svrs route
      | Some c \<Rightarrow>
          (let svrs = svrs @ filter (server_usable nosvr servers) (bl_servers bal);
               route = route\<lparr>rt_client := Some c,
                             rt_server := nrdpx_select_server fl (\<lambda>p. servers ! p) (Some bal) (Some c) svrs\<rparr>
           in if rt_server route \<noteq> None then route
              else route_scan fl src nosvr clients servers bals svrs route))"

text \<open>The route of a connection: the cached one, or a new one.\<close>

definition channel_route ::
  "px_env \<Rightarrow> addr_t \<Rightarrow> string \<Rightarrow> nat option \<Rightarrow> nrdpx_proxy_t \<Rightarrow> (nat \<times> nrdpx_proxy_t) option" where
  "channel_route env src_addr src_host nosvr w =
     do { (found, ca, h) \<leftarrow> cache_find (en_time env) src_host (px_cache w) (px_routes w);
          (route, ca, h) \<leftarrow>
            (case found of
               None \<Rightarrow> Some (None, ca, h)
             | Some p \<Rightarrow>
                 do { r \<leftarrow> h p;
                      if rt_server r = nosvr
                      then do { (ca, h) \<leftarrow> cache_remove src_host ca h; Some (None, ca, h) }
                      else Some (Some p, ca, h) });
          let w = w\<lparr>px_cache := ca, px_routes := h\<rparr> in
          (case route of
             Some p \<Rightarrow> Some (p, w)
           | None \<Rightarrow>
               let p = px_next_route w;
                   r = route_scan (en_fl env) src_addr nosvr (px_clients w) (px_servers w)
                         (enumerate 0 (px_balancers w)) [] new_route
               in Some (p, w\<lparr>px_routes := (px_routes w)(p \<mapsto> r), px_next_route := p + 1\<rparr>)) }"

text \<open>The checks of the route and the connection to its server: the server socket, and whether
  the channel can be made.\<close>

definition channel_connect ::
  "px_env \<Rightarrow> nat \<Rightarrow> nrdpx_proxy_t \<Rightarrow> (bool \<times> int \<times> nrdpx_proxy_t) option" where
  "channel_connect env p w =
     do { r \<leftarrow> px_routes w p;
          if rt_balancer r = None \<or> rt_client r = None \<or> rt_server r = None
          then Some (False, -1, w)
          else do { si \<leftarrow> rt_server r; sv \<leftarrow> get (px_servers w) si;
            if sv_port sv = 0 then Some (False, -1, w)
            else case host_to_addr (en_res env) (sv_host sv) False of
              None \<Rightarrow> Some (False, -1, w)
            | Some svr_addr \<Rightarrow>
                let svr_addr = fst (set_addr_port svr_addr (sv_port sv));
                    (svr_sock, fds) = nrdpx_socket_create (en_os env) (px_fds w) (sa_family svr_addr) False;
                    w = w\<lparr>px_fds := fds\<rparr>
                in if svr_sock = NRD_NOSOCK then Some (False, svr_sock, w)
                   else if nrdpx_socket_connect (en_os env) svr_sock (Some svr_addr) \<noteq> 0
                           \<and> is_error_fatal (en_errno env) True
                        then Some (False, svr_sock, w) else Some (True, svr_sock, w) } }"

text \<open>The code at \<open>ret_point\<close> for a channel that could not be made and for one that was.\<close>

definition create_failed ::
  "string \<Rightarrow> int \<Rightarrow> int \<Rightarrow> nat option \<Rightarrow> nrdpx_proxy_t \<Rightarrow> nrdpx_proxy_t option" where
  "create_failed src_host svr_sock src_sock route w =
     (let w = w\<lparr>px_fds := nrdpx_socket_close (nrdpx_socket_close (px_fds w) svr_sock) src_sock\<rparr> in
      case route of
        None \<Rightarrow> Some w
      | Some p \<Rightarrow>
          do { r \<leftarrow> px_routes w p;
               if rt_cached r
               then do { (ca, h) \<leftarrow> cache_remove src_host (px_cache w) (px_routes w);
                         Some (w\<lparr>px_cache := ca, px_routes := h\<rparr>) }
               else Some (w\<lparr>px_routes := (px_routes w)(p := None)\<rparr>) })"

definition create_done ::
  "px_env \<Rightarrow> string \<Rightarrow> nrdpx_channel_t \<Rightarrow> nat \<Rightarrow> nrdpx_proxy_t \<Rightarrow> nrdpx_proxy_t option" where
  "create_done env src_host c p w =
     do { r \<leftarrow> px_routes w p;
          w \<leftarrow> (if \<not> rt_cached r
               then do { (added, ca, h) \<leftarrow> cache_add (en_time env) src_host p (px_cache w) (px_routes w);
                         Some (w\<lparr>px_cache := ca, px_routes := h\<rparr>) }
               else Some w);
          Some (add_channel c w) }"

definition nrdpx_channel_create ::
  "px_env \<Rightarrow> int \<Rightarrow> int \<Rightarrow> nat option \<Rightarrow> nrdpx_proxy_t \<Rightarrow> (nat option \<times> nrdpx_proxy_t) option" where
  "nrdpx_channel_create env src_sock now nosvr w =
     (case en_peer env src_sock of
        None \<Rightarrow> do { w \<leftarrow> create_failed [] (-1) src_sock None w; Some (None, w) }
      | Some src_addr \<Rightarrow>
          let src_host = addr_to_host (en_res env) src_addr True in
          if src_host = [] then do { w \<leftarrow> create_failed src_host (-1) src_sock None w; Some (None, w) }
          else do {
            (p, w) \<leftarrow> channel_route env src_addr src_host nosvr w;
            (ok, svr_sock, w) \<leftarrow> channel_connect env p w;
            if \<not> ok then do { w \<leftarrow> create_failed src_host svr_sock src_sock (Some p) w; Some (None, w) }
            else do { (c, w) \<leftarrow> channel_new env src_sock svr_sock p now w;
                      w \<leftarrow> create_done env src_host c p w;
                      Some (Some (ch_addr c), w) } })"

end
