(* ===== verification/Proxy_Inv.thy ===== *)
theory Proxy_Inv
  imports Proxy
begin

text \<open>
  The invariant of the proxy's state and its preservation by the life of a channel: the slots
  of a server, of a client and of a route are exactly the channels that use it, every channel's
  route is allocated, a route that is not cached belongs to one channel, the cached routes are
  those of the cache's table, and the buffers are within their bounds.
\<close>

subsection \<open>Accounts\<close>

definition tally :: "('a \<Rightarrow> bool) \<Rightarrow> 'a list \<Rightarrow> int" where
  "tally P xs = int (length (filter P xs))"

lemma tally_simps [simp]:
  "tally P [] = 0" "tally P (x # xs) = (if P x then 1 else 0) + tally P xs"
  "tally P (xs @ ys) = tally P xs + tally P ys"
  by (simp_all add: tally_def)

lemma tally_nonneg [simp]: "0 \<le> tally P xs"
  by (simp add: tally_def)

lemma tally_pos: "x \<in> set xs \<Longrightarrow> P x \<Longrightarrow> 0 < tally P xs"
  using length_filter_pos [of x xs P] by (simp add: tally_def)

lemma tally_zero: "\<forall>x\<in>set xs. \<not> P x \<Longrightarrow> tally P xs = 0"
  by (simp add: tally_def filter_empty_conv)

lemma tally_cong: "(\<And>x. x \<in> set xs \<Longrightarrow> P x = Q x) \<Longrightarrow> tally P xs = tally Q xs"
  unfolding tally_def by (metis filter_cong)

definition chan_sv :: "rheap \<Rightarrow> nrdpx_channel_t \<Rightarrow> nat option" where
  "chan_sv h c = (case h (ch_route c) of None \<Rightarrow> None | Some r \<Rightarrow> rt_server r)"

definition chan_cl :: "rheap \<Rightarrow> nrdpx_channel_t \<Rightarrow> nat option" where
  "chan_cl h c = (case h (ch_route c) of None \<Rightarrow> None | Some r \<Rightarrow> rt_client r)"

definition refs_ok :: "nat \<Rightarrow> nat \<Rightarrow> nrdpx_route_t \<Rightarrow> bool" where
  "refs_ok ncl nsv r \<longleftrightarrow> rt_balancer r \<noteq> None \<and> (\<exists>i<ncl. rt_client r = Some i) \<and> (\<exists>i<nsv. rt_server r = Some i)"

definition route_slots :: "nrdpx_channel_t list \<Rightarrow> nat \<Rightarrow> int" where
  "route_slots cs p = tally (\<lambda>c. ch_route c = p) cs"

definition accounts :: "rheap \<Rightarrow> nrdpx_channel_t list \<Rightarrow> nrdpx_client_t list \<Rightarrow> nrdpx_server_t list \<Rightarrow> bool" where
  "accounts h cs cls svs \<longleftrightarrow>
     (\<forall>c\<in>set cs. h (ch_route c) \<noteq> None)
   \<and> (\<forall>p r. h p = Some r \<longrightarrow> refs_ok (length cls) (length svs) r \<and> rt_num_slots r = route_slots cs p
              \<and> (rt_cached r \<or> route_slots cs p = 1))
   \<and> (\<forall>i<length svs. sv_num_slots (svs ! i) = tally (\<lambda>c. chan_sv h c = Some i) cs)
   \<and> (\<forall>i<length cls. cl_num_slots (cls ! i) = tally (\<lambda>c. chan_cl h c = Some i) cs)"

lemma accountsI:
  assumes "\<And>c. c \<in> set cs \<Longrightarrow> h (ch_route c) \<noteq> None"
    "\<And>p r. h p = Some r \<Longrightarrow> refs_ok (length cls) (length svs) r \<and> rt_num_slots r = route_slots cs p
              \<and> (rt_cached r \<or> route_slots cs p = 1)"
    "\<And>i. i < length svs \<Longrightarrow> sv_num_slots (svs ! i) = tally (\<lambda>c. chan_sv h c = Some i) cs"
    "\<And>i. i < length cls \<Longrightarrow> cl_num_slots (cls ! i) = tally (\<lambda>c. chan_cl h c = Some i) cs"
  shows "accounts h cs cls svs"
  using assms unfolding accounts_def by blast

lemma accountsD:
  assumes "accounts h cs cls svs"
  shows "c \<in> set cs \<Longrightarrow> h (ch_route c) \<noteq> None"
    "h p = Some r \<Longrightarrow> refs_ok (length cls) (length svs) r"
    "h p = Some r \<Longrightarrow> rt_num_slots r = route_slots cs p"
    "h p = Some r \<Longrightarrow> rt_cached r \<or> route_slots cs p = 1"
    "i < length svs \<Longrightarrow> sv_num_slots (svs ! i) = tally (\<lambda>c. chan_sv h c = Some i) cs"
    "i < length cls \<Longrightarrow> cl_num_slots (cls ! i) = tally (\<lambda>c. chan_cl h c = Some i) cs"
  using assms unfolding accounts_def by blast+

text \<open>The parts that the accounts read of clients and servers.\<close>

lemma accounts_cong:
  assumes "accounts h cs cls svs" "map cl_num_slots cls' = map cl_num_slots cls"
    "map sv_num_slots svs' = map sv_num_slots svs"
    "map ch_route cs' = map ch_route cs"
  shows "accounts h cs' cls' svs'"
proof -
  have len: "length cls' = length cls" "length svs' = length svs"
    using assms(2,3) by (metis length_map)+
  have cl: "cl_num_slots (cls' ! i) = cl_num_slots (cls ! i)" if "i < length cls" for i
    using that len assms(2) by (metis nth_map)
  have sv: "sv_num_slots (svs' ! i) = sv_num_slots (svs ! i)" if "i < length svs" for i
    using that len assms(3) by (metis nth_map)
  have t: "tally (\<lambda>c. Q (ch_route c)) cs' = tally (\<lambda>c. Q (ch_route c)) cs" for Q
  proof -
    have "tally (\<lambda>c. Q (ch_route c)) xs = tally Q (map ch_route xs)" for xs
      by (simp add: tally_def filter_map comp_def)
    with assms(4) show ?thesis by metis
  qed
  have s: "set (map ch_route cs') = set (map ch_route cs)" using assms(4) by simp
  have al: "(\<forall>c\<in>set cs'. h (ch_route c) \<noteq> None) = (\<forall>c\<in>set cs. h (ch_route c) \<noteq> None)"
    using s by (simp add: set_eq_iff image_iff) metis
  show ?thesis
    using assms(1) unfolding accounts_def route_slots_def chan_sv_def chan_cl_def al
    by (simp add: len cl sv t [of "\<lambda>x. x = p" for p]
        t [of "\<lambda>x. (case h x of None \<Rightarrow> None | Some r \<Rightarrow> rt_server r) = Some i" for i]
        t [of "\<lambda>x. (case h x of None \<Rightarrow> None | Some r \<Rightarrow> rt_client r) = Some i" for i])
qed

lemma accounts_busy:
  assumes "accounts h cs cls svs" "c \<in> set cs"
  shows "\<exists>r. h (ch_route c) = Some r \<and> 0 < rt_num_slots r"
proof -
  from assms obtain r where r: "h (ch_route c) = Some r" unfolding accounts_def by auto
  moreover have "0 < route_slots cs (ch_route c)"
    unfolding route_slots_def using assms(2) by (intro tally_pos) auto
  ultimately show ?thesis using assms(1) by (auto simp: accounts_def)
qed

text \<open>Freeing idle cached routes changes no account.\<close>

lemma accounts_heap:
  assumes acc: "accounts h cs cls svs" and f: "frees_idle h h'"
  shows "accounts h' cs cls svs"
proof -
  have same: "h' (ch_route c) = h (ch_route c)" if "c \<in> set cs" for c
    using accounts_busy [OF acc that] frees_idle_busy [OF f] by force
  have t: "tally (\<lambda>c. chan_sv h' c = Some i) cs = tally (\<lambda>c. chan_sv h c = Some i) cs"
    "tally (\<lambda>c. chan_cl h' c = Some i) cs = tally (\<lambda>c. chan_cl h c = Some i) cs" for i
    by (auto intro!: tally_cong simp: chan_sv_def chan_cl_def same)
  show ?thesis
  proof (rule accountsI)
    fix p r assume "h' p = Some r"
    from frees_idle_sub [OF f this] accountsD(2-4) [OF acc]
    show "refs_ok (length cls) (length svs) r \<and> rt_num_slots r = route_slots cs p
      \<and> (rt_cached r \<or> route_slots cs p = 1)" by blast
  qed (use accountsD(1,5,6) [OF acc] same t in auto)
qed

text \<open>A new channel on the route \<open>p\<close>: cached and allocated, or new.\<close>

lemma accounts_attach:
  assumes acc: "accounts h cs cls svs"
    and p: "h p = Some r \<and> rt_cached r \<or> h p = None \<and> rt_num_slots r = 0 \<and> refs_ok (length cls) (length svs) r"
    and c: "ch_route c = p"
    and ci: "rt_client r = Some ci" and si: "rt_server r = Some si"
  shows "accounts (h(p \<mapsto> r\<lparr>rt_act_time := t, rt_num_slots := rt_num_slots r + 1\<rparr>)) (cs @ [c])
    (cls[ci := (cls ! ci)\<lparr>cl_num_slots := cl_num_slots (cls ! ci) + 1\<rparr>])
    (svs[si := (svs ! si)\<lparr>sv_num_slots := sv_num_slots (svs ! si) + 1\<rparr>])"
    (is "accounts ?h _ ?cls ?svs")
proof -
  let ?r = "r\<lparr>rt_act_time := t, rt_num_slots := rt_num_slots r + 1\<rparr>"
  have refs: "refs_ok (length cls) (length svs) r"
    using p accountsD(2) [OF acc] by blast
  have slots: "rt_num_slots r = route_slots cs p"
  proof (cases "h p")
    case None
    then have "\<forall>c\<in>set cs. ch_route c \<noteq> p" using accountsD(1) [OF acc] by metis
    with None p show ?thesis by (simp add: route_slots_def tally_zero)
  next
    case (Some x)
    with p accountsD(3) [OF acc] show ?thesis by auto
  qed
  have unc: "rt_cached r \<or> route_slots cs p = 0"
    using p slots by auto
  have rs: "chan_sv ?h x = chan_sv h x" "chan_cl ?h x = chan_cl h x" if "x \<in> set cs" for x
  proof -
    have "ch_route x = p \<Longrightarrow> h p = Some r" using accountsD(1) [OF acc that] p by auto
    then show "chan_sv ?h x = chan_sv h x" "chan_cl ?h x = chan_cl h x"
      by (auto simp: chan_sv_def chan_cl_def)
  qed
  have tc: "tally (\<lambda>x. chan_sv ?h x = Some i) cs = tally (\<lambda>x. chan_sv h x = Some i) cs"
    "tally (\<lambda>x. chan_cl ?h x = Some i) cs = tally (\<lambda>x. chan_cl h x = Some i) cs" for i
    by (auto intro!: tally_cong simp: rs)
  have new: "chan_sv ?h c = Some si" "chan_cl ?h c = Some ci"
    using c ci si by (simp_all add: chan_sv_def chan_cl_def)
  have rts: "route_slots (cs @ [c]) q = route_slots cs q + (if q = p then 1 else 0)" for q
    using c by (simp add: route_slots_def)
  show ?thesis
  proof (rule accountsI)
    fix q x assume x: "?h q = Some x"
    show "refs_ok (length ?cls) (length ?svs) x \<and> rt_num_slots x = route_slots (cs @ [c]) q
      \<and> (rt_cached x \<or> route_slots (cs @ [c]) q = 1)"
    proof (cases "q = p")
      case True
      with x have "x = ?r" by simp
      with True slots unc refs show ?thesis by (auto simp: rts refs_ok_def)
    next
      case False
      with x accountsD(2-4) [OF acc, of q x] show ?thesis by (simp add: rts)
    qed
  next
    fix x assume "x \<in> set (cs @ [c])"
    then show "?h (ch_route x) \<noteq> None" using accountsD(1) [OF acc] c by auto
  next
    fix i assume "i < length ?svs"
    then show "sv_num_slots (?svs ! i) = tally (\<lambda>x. chan_sv ?h x = Some i) (cs @ [c])"
      using accountsD(5) [OF acc, of i] new tc by (simp add: nth_list_update)
  next
    fix i assume "i < length ?cls"
    then show "cl_num_slots (?cls ! i) = tally (\<lambda>x. chan_cl ?h x = Some i) (cs @ [c])"
      using accountsD(6) [OF acc, of i] new tc by (simp add: nth_list_update)
  qed
qed

text \<open>The end of the channel \<open>c\<close>.\<close>

lemma accounts_detach:
  assumes acc: "accounts h (a @ c # b) cls svs"
    and r: "h (ch_route c) = Some r" and ci: "rt_client r = Some ci" and si: "rt_server r = Some si"
  shows "accounts (if rt_cached r then h(ch_route c \<mapsto> r\<lparr>rt_act_time := t, rt_num_slots := xtl_max 0 (rt_num_slots r - 1)\<rparr>)
      else h(ch_route c := None)) (a @ b)
    (cls[ci := (cls ! ci)\<lparr>cl_num_slots := xtl_max 0 (cl_num_slots (cls ! ci) - 1)\<rparr>])
    (svs[si := (svs ! si)\<lparr>sv_num_slots := xtl_max 0 (sv_num_slots (svs ! si) - 1)\<rparr>])"
    (is "accounts ?h _ ?cls ?svs")
proof -
  let ?p = "ch_route c" and ?r = "r\<lparr>rt_act_time := t, rt_num_slots := xtl_max 0 (rt_num_slots r - 1)\<rparr>"
  note route = accountsD(2-4) [OF acc r]
  have rts: "route_slots (a @ c # b) q = route_slots (a @ b) q + (if q = ?p then 1 else 0)" for q
    by (simp add: route_slots_def)
  have nn: "0 \<le> route_slots (a @ b) q" for q by (simp add: route_slots_def)
  have max1: "xtl_max 0 (n - 1) = n - 1" if "n = m + 1" "0 \<le> m" for n m :: int
    using that by (simp add: xtl_max_def)
  have free: "ch_route x \<noteq> ?p" if "x \<in> set (a @ b)" "\<not> rt_cached r" for x
  proof
    assume "ch_route x = ?p"
    with that(1) have "0 < route_slots (a @ b) ?p"
      unfolding route_slots_def by (intro tally_pos [of x]) auto
    with route that(2) rts [of ?p] show False by simp
  qed
  have rs: "chan_sv ?h x = chan_sv h x" "chan_cl ?h x = chan_cl h x" if "x \<in> set (a @ b)" for x
    using free [OF that] r by (auto simp: chan_sv_def chan_cl_def)
  have tc: "tally (\<lambda>x. chan_sv ?h x = Some i) (a @ b) = tally (\<lambda>x. chan_sv h x = Some i) (a @ b)"
    "tally (\<lambda>x. chan_cl ?h x = Some i) (a @ b) = tally (\<lambda>x. chan_cl h x = Some i) (a @ b)" for i
    by (intro tally_cong, simp only: rs)+
  have old: "chan_sv h c = Some si" "chan_cl h c = Some ci"
    using ci si r by (simp_all add: chan_sv_def chan_cl_def)
  show ?thesis
  proof (rule accountsI)
    fix q x assume x: "?h q = Some x"
    show "refs_ok (length ?cls) (length ?svs) x \<and> rt_num_slots x = route_slots (a @ b) q
      \<and> (rt_cached x \<or> route_slots (a @ b) q = 1)"
    proof (cases "q = ?p")
      case True
      with x have "x = ?r" "rt_cached r" by (auto split: if_splits)
      with True route max1 [OF _ nn] show ?thesis by (simp add: rts refs_ok_def)
    next
      case False
      with x have "h q = Some x" by (simp split: if_splits)
      with False accountsD(2-4) [OF acc, of q x] show ?thesis by (simp add: rts)
    qed
  next
    fix x assume x: "x \<in> set (a @ b)"
    then have "h (ch_route x) \<noteq> None" using accountsD(1) [OF acc, of x] by auto
    with free [OF x] show "?h (ch_route x) \<noteq> None" by auto
  next
    fix i assume "i < length ?svs"
    then show "sv_num_slots (?svs ! i) = tally (\<lambda>x. chan_sv ?h x = Some i) (a @ b)"
      using accountsD(5) [OF acc, of i] old unfolding tc
      by (cases "i = si") (simp_all add: max_absorb2)
  next
    fix i assume "i < length ?cls"
    then show "cl_num_slots (?cls ! i) = tally (\<lambda>x. chan_cl ?h x = Some i) (a @ b)"
      using accountsD(6) [OF acc, of i] old unfolding tc
      by (cases "i = ci") (simp_all add: max_absorb2)
  qed
qed

text \<open>A route changes its flag and its time, not its slots.\<close>

lemma accounts_flag:
  assumes acc: "accounts h cs cls svs" and r: "h p = Some r"
  shows "accounts (h(p \<mapsto> r\<lparr>rt_act_time := t, rt_cached := True\<rparr>)) cs cls svs" (is "accounts ?h _ _ _")
proof -
  have "chan_sv ?h c = chan_sv h c" "chan_cl ?h c = chan_cl h c" for c
    using r by (auto simp: chan_sv_def chan_cl_def)
  then show ?thesis
    using accountsD [OF acc] r
    by (intro accountsI) (auto simp: refs_ok_def split: if_splits)
qed

subsection \<open>The invariant\<close>

definition balancer_ok :: "nat \<Rightarrow> nat \<Rightarrow> nrdpx_balancer_t \<Rightarrow> bool" where
  "balancer_ok ncl nsv b \<longleftrightarrow> (\<forall>p\<in>set (bl_clients b). p < ncl) \<and> (\<forall>p\<in>set (bl_servers b). p < nsv)"

definition channel_ok :: "nat \<Rightarrow> nrdpx_channel_t \<Rightarrow> bool" where
  "channel_ok next c \<longleftrightarrow> ch_addr c < next \<and> chan_bufs_ok c"

definition world_ok :: "nrdpx_proxy_t \<Rightarrow> bool" where
  "world_ok w \<longleftrightarrow> cache_ok (px_cache w) (px_routes w)
     \<and> accounts (px_routes w) (px_channels w) (px_clients w) (px_servers w)
     \<and> (\<forall>p\<ge>px_next_route w. px_routes w p = None)
     \<and> distinct (map ch_addr (px_channels w))
     \<and> (\<forall>c\<in>set (px_channels w). channel_ok (px_next_chan w) c)
     \<and> (\<forall>b\<in>set (px_balancers w). balancer_ok (length (px_clients w)) (length (px_servers w)) b)"

lemma world_okD:
  assumes "world_ok w"
  shows "cache_ok (px_cache w) (px_routes w)"
    "accounts (px_routes w) (px_channels w) (px_clients w) (px_servers w)"
    "p \<ge> px_next_route w \<Longrightarrow> px_routes w p = None"
    "distinct (map ch_addr (px_channels w))"
    "c \<in> set (px_channels w) \<Longrightarrow> channel_ok (px_next_chan w) c"
    "b \<in> set (px_balancers w) \<Longrightarrow> balancer_ok (length (px_clients w)) (length (px_servers w)) b"
  using assms unfolding world_ok_def by blast+

lemma world_ok_fds [simp]: "world_ok (w\<lparr>px_fds := fds\<rparr>) = world_ok w"
  by (simp add: world_ok_def)

lemma world_ok_cache:
  assumes ok: "world_ok w" and c: "cache_ok ca h" and f: "frees_idle (px_routes w) h"
  shows "world_ok (w\<lparr>px_cache := ca, px_routes := h\<rparr>)"
proof -
  have "h p = None" if "px_next_route w \<le> p" for p
    using world_okD(3) [OF ok that] f unfolding frees_idle_def by metis
  with ok c accounts_heap [OF world_okD(2) [OF ok] f] show ?thesis
    by (simp add: world_ok_def)
qed

text \<open>A route that a channel can be attached to: a cached one, or a new one that is not yet in
  the accounts.\<close>

definition route_ready :: "nat \<Rightarrow> nrdpx_proxy_t \<Rightarrow> bool" where
  "route_ready p w \<longleftrightarrow> (\<exists>r. px_routes w p = Some r \<and>
     (rt_cached r \<and> world_ok w
      \<or> \<not> rt_cached r \<and> rt_num_slots r = 0 \<and> p < px_next_route w
        \<and> world_ok (w\<lparr>px_routes := (px_routes w)(p := None)\<rparr>)
        \<and> (rt_server r \<noteq> None \<longrightarrow> refs_ok (length (px_clients w)) (length (px_servers w)) r)))"

lemma route_ready_fds [simp]: "route_ready p (w\<lparr>px_fds := fds\<rparr>) = route_ready p w"
proof -
  have "world_ok (w\<lparr>px_fds := fds, px_routes := h\<rparr>) = world_ok (w\<lparr>px_routes := h\<rparr>)" for h
    by (simp add: world_ok_def)
  then show ?thesis by (simp add: route_ready_def)
qed

lemma route_ready_refs:
  assumes "route_ready p w" "px_routes w p = Some r" "rt_server r \<noteq> None"
  shows "refs_ok (length (px_clients w)) (length (px_servers w)) r"
  using assms accountsD(2) [OF world_okD(2), of w p r] by (auto simp: route_ready_def)

lemma pick_client_in: "pick_client cls a ps = Some c \<Longrightarrow> c \<in> set ps"
  by (induction ps) (auto simp: Let_def split: if_splits)

lemma route_scan_props:
  fixes fl a nosvr and cls :: "nrdpx_client_t list" and svs :: "nrdpx_server_t list" and r
  assumes "\<forall>b\<in>snd ` set bals. balancer_ok (length cls) (length svs) b" "\<forall>p\<in>set ps. p < length svs"
    "rt_server r = None"
  defines "r' \<equiv> route_scan fl a nosvr cls svs bals ps r"
  shows "rt_cached r' = rt_cached r \<and> rt_num_slots r' = rt_num_slots r
    \<and> (rt_server r' \<noteq> None \<longrightarrow> refs_ok (length cls) (length svs) r')"
  unfolding r'_def using assms(1-3)
proof (induction bals arbitrary: ps r)
  case (Cons x bals)
  obtain b bal where x: "x = (b, bal)" by fastforce
  have bal: "balancer_ok (length cls) (length svs) bal" using Cons.prems(1) x by simp
  show ?case
  proof (cases "pick_client cls a (bl_clients bal)")
    case None
    with Cons x show ?thesis by simp
  next
    case (Some c)
    let ?ps = "ps @ filter (server_usable nosvr svs) (bl_servers bal)"
    let ?s = "nrdpx_select_server fl (\<lambda>p. svs ! p) (Some bal) (Some c) ?ps"
    have ps: "\<forall>p\<in>set ?ps. p < length svs" using Cons.prems(2) bal by (auto simp: balancer_ok_def)
    show ?thesis
    proof (cases ?s)
      case None
      with Some x ps Cons.IH [of ?ps "r\<lparr>rt_balancer := Some b, rt_client := Some c, rt_server := None\<rparr>"] Cons.prems
      show ?thesis by (simp add: Let_def)
    next
      case (Some s)
      have "s < length svs" using select_server_member [OF Some] ps by blast
      moreover have "c < length cls"
        using pick_client_in [OF \<open>pick_client cls a (bl_clients bal) = Some c\<close>] bal by (simp add: balancer_ok_def)
      ultimately show ?thesis
        using Some \<open>pick_client cls a (bl_clients bal) = Some c\<close> x by (simp add: Let_def refs_ok_def)
    qed
  qed
qed simp

lemma channel_route_ok:
  assumes ok: "world_ok w"
  shows "\<exists>p w'. channel_route env a host nosvr w = Some (p, w') \<and> route_ready p w'
    \<and> px_channels w' = px_channels w \<and> px_servers w' = px_servers w \<and> px_clients w' = px_clients w
    \<and> px_fds w' = px_fds w \<and> px_next_chan w' = px_next_chan w"
proof -
  obtain found ca h where f: "cache_find (en_time env) host (px_cache w) (px_routes w) = Some (found, ca, h)"
    "cache_ok ca h" "frees_idle (px_routes w) h" "\<And>p. found = Some p \<Longrightarrow> cache_tab ca host = Some p"
    using rc.find_law [OF world_okD(1) [OF ok], of "en_time env" host] by blast
  define stage where "stage = (case found of
       None \<Rightarrow> Some (None, ca, h)
     | Some p \<Rightarrow> do { r \<leftarrow> h p;
          if rt_server r = nosvr then do { (ca, h) \<leftarrow> cache_remove host ca h; Some (None, ca, h) }
          else Some (Some p, ca, h) })"
  obtain route ca' h' where s: "stage = Some (route, ca', h')" "cache_ok ca' h'" "frees_idle (px_routes w) h'"
    "\<And>p. route = Some p \<Longrightarrow> \<exists>r. h' p = Some r \<and> rt_cached r"
  proof (cases found)
    case None
    with f that show ?thesis by (simp add: stage_def)
  next
    case (Some p)
    from f(4) [OF Some] rc.tab_alive [OF f(2)] obtain r where r: "h p = Some r" "rt_cached r" by blast
    show ?thesis
    proof (cases "rt_server r = nosvr")
      case True
      from rc.remove_law [OF f(2), of host] obtain ca1 h1 where
        "cache_remove host ca h = Some (ca1, h1)" "cache_ok ca1 h1" "frees_idle h h1" by blast
      with True Some r frees_idle_trans [OF f(3)] that show ?thesis by (simp add: stage_def)
    next
      case False
      with Some r f(2,3) that show ?thesis by (simp add: stage_def)
    qed
  qed
  let ?w = "w\<lparr>px_cache := ca', px_routes := h'\<rparr>"
  have w: "world_ok ?w" by (rule world_ok_cache [OF ok s(2,3)])
  show ?thesis
  proof (cases route)
    case (Some p)
    from s(4) [OF Some] w have "route_ready p ?w" by (auto simp: route_ready_def)
    with f(1) s(1) Some show ?thesis unfolding channel_route_def stage_def by simp
  next
    case None
    let ?p = "px_next_route w" and ?r = "route_scan (en_fl env) a nosvr (px_clients w) (px_servers w)
      (enumerate 0 (px_balancers w)) [] new_route"
    let ?w' = "w\<lparr>px_cache := ca', px_routes := h'(?p \<mapsto> ?r), px_next_route := ?p + 1\<rparr>"
    have bals: "\<forall>b\<in>snd ` set (enumerate 0 (px_balancers w)). balancer_ok (length (px_clients w)) (length (px_servers w)) b"
      using world_okD(6) [OF ok] by (metis enumerate_eq_zip image_set map_snd_enumerate)
    have hp: "h' ?p = None" using world_okD(3) [OF w, of ?p] by simp
    then have "h'(?p := None) = h'" by auto
    with w have "world_ok (?w'\<lparr>px_routes := (px_routes ?w')(?p := None)\<rparr>)"
      by (auto simp: world_ok_def)
    moreover have "\<not> rt_cached ?r \<and> rt_num_slots ?r = 0 \<and> (rt_server ?r \<noteq> None \<longrightarrow>
        refs_ok (length (px_clients w)) (length (px_servers w)) ?r)"
      using route_scan_props [OF bals, of "[]" new_route "en_fl env" a nosvr] by (simp add: new_route_def)
    ultimately have "route_ready ?p ?w'" by (simp add: route_ready_def)
    with f(1) s(1) None show ?thesis unfolding channel_route_def stage_def by (simp add: Let_def)
  qed
qed

subsection \<open>Creating and deleting channels\<close>

lemma get_Some [simp]: "i < length xs \<Longrightarrow> get xs i = Some (xs ! i)"
  by (simp add: get_def)

text \<open>The kernel gives out descriptors that are not open.\<close>

definition fresh_sockets :: "px_env \<Rightarrow> nrdpx_proxy_t \<Rightarrow> bool" where
  "fresh_sockets env w \<longleftrightarrow> (\<forall>fam. sys_socket (en_os env) fam \<notin> px_fds w)"

text \<open>The connection changes the open descriptors only, and is made only for a complete route.\<close>

lemma channel_connect_ok:
  assumes rdy: "route_ready p w"
  shows "\<exists>ok sock fds. channel_connect env p w = Some (ok, sock, w\<lparr>px_fds := fds\<rparr>)
    \<and> (ok \<longrightarrow> (\<exists>r. px_routes w p = Some r \<and> rt_server r \<noteq> None))
    \<and> (fresh_sockets env w \<longrightarrow> (if sock = NRD_NOSOCK then \<not> ok \<and> fds = px_fds w
         else sock \<notin> px_fds w \<and> fds = insert sock (px_fds w)))"
proof -
  from rdy obtain r where r: "px_routes w p = Some r" by (auto simp: route_ready_def)
  have created: "fresh_sockets env w \<Longrightarrow> nrdpx_socket_create (en_os env) (px_fds w) fam b = (sock, fds) \<Longrightarrow>
      sock \<noteq> NRD_NOSOCK \<Longrightarrow> sock \<notin> px_fds w \<and> fds = insert sock (px_fds w)" for fam b sock fds
    using socket_create_fds [of "en_os env" fam "px_fds w" b sock fds]
    by (auto simp: fresh_sockets_def nrdpx_socket_create_def Let_def socket_consts split: if_splits)
  have uncreated: "fresh_sockets env w \<Longrightarrow> nrdpx_socket_create (en_os env) (px_fds w) fam b = (NRD_NOSOCK, fds) \<Longrightarrow>
      fds = px_fds w" for fam b fds
    using socket_create_fds [of "en_os env" fam "px_fds w" b NRD_NOSOCK fds] by (simp add: fresh_sockets_def)
  show ?thesis
  proof (cases "rt_balancer r = None \<or> rt_client r = None \<or> rt_server r = None")
    case True
    with r show ?thesis
      by (intro exI [of _ False] exI [of _ "-1"] exI [of _ "px_fds w"]) (auto simp: channel_connect_def NRD_NOSOCK_def)
  next
    case False
    with route_ready_refs [OF rdy r] obtain si where si: "rt_server r = Some si" "si < length (px_servers w)"
      by (auto simp: refs_ok_def)
    show ?thesis
    proof (cases "sv_port (px_servers w ! si) = 0 \<or> host_to_addr (en_res env) (sv_host (px_servers w ! si)) False = None")
      case True
      with False r si show ?thesis
        by (intro exI [of _ False] exI [of _ "-1"] exI [of _ "px_fds w"])
          (auto simp: channel_connect_def NRD_NOSOCK_def)
    next
      case conn: False
      then obtain a where a: "host_to_addr (en_res env) (sv_host (px_servers w ! si)) False = Some a" by auto
      let ?a = "fst (set_addr_port a (sv_port (px_servers w ! si)))"
      obtain sock fds where sk: "nrdpx_socket_create (en_os env) (px_fds w) (sa_family ?a) False = (sock, fds)" by fastforce
      let ?ok = "sock \<noteq> NRD_NOSOCK \<and> \<not> (nrdpx_socket_connect (en_os env) sock (Some ?a) \<noteq> 0 \<and> is_error_fatal (en_errno env) True)"
      have "channel_connect env p w = Some (?ok, sock, w\<lparr>px_fds := fds\<rparr>)"
        using False r si conn a sk by (auto simp: channel_connect_def Let_def)
      with r si created [OF _ sk] uncreated sk show ?thesis
        by (intro exI [of _ ?ok] exI [of _ sock] exI [of _ fds]) auto
    qed
  qed
qed

lemma create_done_kept:
  assumes "px_routes w p = Some r" "\<not> rt_cached r"
    "cache_add (en_time env) host p (px_cache w) (px_routes w) = Some (False, px_cache w, px_routes w)"
  shows "create_done env host c p w = Some (add_channel c w)"
proof -
  have "w\<lparr>px_cache := px_cache w, px_routes := px_routes w\<rparr> = w" by simp
  with assms show ?thesis by (simp add: create_done_def)
qed

text \<open>A channel is attached to a ready route.\<close>

lemma channel_attach_ok:
  assumes rdy: "route_ready p w" and r: "px_routes w p = Some r" "rt_server r \<noteq> None"
  shows "\<exists>c w' w''. channel_new env src dst p now w = Some (c, w') \<and> create_done env host c p w' = Some w''
    \<and> world_ok w'' \<and> px_channels w'' = px_channels w @ [c] \<and> ch_source c = src \<and> ch_target c = dst
    \<and> ch_addr c = px_next_chan w \<and> px_fds w'' = px_fds w"
proof -
  from route_ready_refs [OF rdy r] obtain ci si where
    refs: "rt_client r = Some ci" "ci < length (px_clients w)" "rt_server r = Some si" "si < length (px_servers w)"
    "refs_ok (length (px_clients w)) (length (px_servers w)) r"
    by (auto simp: refs_ok_def)
  let ?base = "if rt_cached r then w else w\<lparr>px_routes := (px_routes w)(p := None)\<rparr>"
  have base: "px_clients ?base = px_clients w" "px_servers ?base = px_servers w" "px_channels ?base = px_channels w"
    "px_balancers ?base = px_balancers w" "px_next_chan ?base = px_next_chan w" "px_next_route ?base = px_next_route w"
    by simp_all
  have ok: "world_ok ?base" and unc: "\<not> rt_cached r \<Longrightarrow> rt_num_slots r = 0" "p < px_next_route w"
    using rdy r world_okD(3) [of w p] by (auto simp: route_ready_def not_less [symmetric])
  let ?r = "r\<lparr>rt_act_time := en_time env, rt_num_slots := rt_num_slots r + 1\<rparr>"
  let ?h = "(px_routes w)(p \<mapsto> ?r)"
  let ?cls = "(px_clients w)[ci := (px_clients w ! ci)\<lparr>cl_num_slots := cl_num_slots (px_clients w ! ci) + 1\<rparr>]"
  let ?svs = "(px_servers w)[si := (px_servers w ! si)\<lparr>sv_num_slots := sv_num_slots (px_servers w ! si) + 1\<rparr>]"
  let ?count = "px_id_count w + 1"
  define c where "c = \<lparr>ch_addr = px_next_chan w, ch_id = (if ?count = 0 then 1 else ?count), ch_route = p,
                 ch_conn_time = now, ch_connected = False,
                 ch_in_source = new_buffer (en_junk env), ch_in_target = new_buffer (en_junk env),
                 ch_source = src, ch_target = dst\<rparr>"
  let ?w = "w\<lparr>px_next_chan := px_next_chan w + 1, px_id_count := ?count, px_routes := ?h,
               px_clients := ?cls, px_servers := ?svs\<rparr>"
  have c: "ch_addr c = px_next_chan w" "ch_route c = p" "ch_source c = src" "ch_target c = dst" "chan_bufs_ok c"
    by (simp_all add: c_def chan_bufs_ok_def)
  have new: "channel_new env src dst p now w = Some (c, ?w)"
    using r refs by (simp add: channel_new_def c_def Let_def)
  have acc: "accounts ?h (px_channels w @ [c]) ?cls ?svs"
  proof (cases "rt_cached r")
    case True
    with ok have "accounts (px_routes w) (px_channels w) (px_clients w) (px_servers w)"
      by (simp add: world_okD)
    from accounts_attach [OF this _ _ refs(1,3), of p c "en_time env"] True r c show ?thesis by simp
  next
    case False
    with ok have "accounts ((px_routes w)(p := None)) (px_channels w) (px_clients w) (px_servers w)"
      using world_okD(2) [OF ok] by simp
    from accounts_attach [OF this _ _ refs(1,3), of p c "en_time env"] False unc(1) refs(5) c show ?thesis by simp
  qed
  have cache: "cache_ok (px_cache w) ?h"
  proof (cases "rt_cached r")
    case True
    with ok have "cache_ok (px_cache w) (px_routes w)" by (simp add: world_okD)
    from rc.ok_update [OF this r(1), of ?r] show ?thesis by simp
  next
    case False
    with ok have "cache_ok (px_cache w) ((px_routes w)(p := None))"
      using world_okD(1) [OF ok] by simp
    from rc.ok_new [OF this, of p ?r] False show ?thesis by simp
  qed
  have rest: "world_ok w2"
    if "cache_ok (px_cache w2) (px_routes w2)" "accounts (px_routes w2) (px_channels w @ [c]) ?cls ?svs"
      "\<And>q. q \<noteq> p \<Longrightarrow> px_routes w2 q = px_routes w q"
      "px_channels w2 = px_channels w @ [c]" "px_clients w2 = ?cls" "px_servers w2 = ?svs"
      "px_next_route w2 = px_next_route w" "px_next_chan w2 = px_next_chan w + 1" "px_balancers w2 = px_balancers w"
    for w2
  proof -
    have ch: "channel_ok (px_next_chan w) x" if "x \<in> set (px_channels w)" for x
      using that world_okD(5) [OF ok] by (simp only: base)
    then have "distinct (map ch_addr (px_channels w @ [c]))"
      using world_okD(4) [OF ok] unfolding base by (fastforce simp: channel_ok_def c)
    moreover have "\<forall>q\<ge>px_next_route w. px_routes w2 q = None"
    proof (intro allI impI)
      fix q assume q: "px_next_route w \<le> q"
      then have "px_routes ?base q = None" by (intro world_okD(3) [OF ok]) (simp only: base)
      with that(3) [of q] unc(2) q show "px_routes w2 q = None" by (simp split: if_splits)
    qed
    moreover have "\<forall>b\<in>set (px_balancers w). balancer_ok (length ?cls) (length ?svs) b"
      using world_okD(6) [OF ok] unfolding base length_list_update by blast
    moreover have "\<forall>x\<in>set (px_channels w @ [c]). channel_ok (px_next_chan w + 1) x"
      using ch less_SucI by (fastforce simp: channel_ok_def c)
    ultimately show ?thesis using that(1,2) unfolding world_ok_def that(4-9) by blast
  qed
  show ?thesis
  proof (cases "rt_cached r")
    case True
    have "create_done env host c p ?w = Some (add_channel c ?w)"
      using True r by (simp add: create_done_def)
    moreover have "world_ok (add_channel c ?w)"
      using cache acc by (intro rest) (simp_all add: add_channel_def)
    ultimately show ?thesis using new c by (simp add: add_channel_def)
  next
    case False
    have hp: "?h p = Some ?r" "\<not> rt_cached ?r" using False by simp_all
    from rc.add_law [OF cache hp, of "en_time env" host] show ?thesis
    proof
      assume "cache_add (en_time env) host p (px_cache w) ?h = Some (False, px_cache w, ?h) \<and>
        (\<not> ca_mode (px_cache w) \<noteq> CACHE_NONE \<or> cache_tab (px_cache w) host \<noteq> None)"
      then have "create_done env host c p ?w = Some (add_channel c ?w)"
        using hp by (intro create_done_kept [where r = ?r]) simp_all
      moreover have "world_ok (add_channel c ?w)"
        using cache acc by (intro rest) (simp_all add: add_channel_def)
      ultimately show ?thesis using new c by (simp add: add_channel_def)
    next
      let ?h2 = "?h(p \<mapsto> ?r\<lparr>rt_act_time := en_time env, rt_cached := True\<rparr>)"
      assume "\<exists>c'. cache_add (en_time env) host p (px_cache w) ?h = Some (True, c', ?h2) \<and> cache_ok c' ?h2
        \<and> cache_tab c' = (cache_tab (px_cache w))(host \<mapsto> p) \<and> cache_tab (px_cache w) host = None
        \<and> ca_mode (px_cache w) \<noteq> CACHE_NONE \<and> ca_mode c' \<noteq> CACHE_NONE"
      then obtain ca where ca: "cache_add (en_time env) host p (px_cache w) ?h = Some (True, ca, ?h2)" "cache_ok ca ?h2"
        by blast
      have acc2: "accounts ?h2 (px_channels w @ [c]) ?cls ?svs"
        by (rule accounts_flag [OF acc hp(1)])
      from ca have "create_done env host c p ?w = Some (add_channel c (?w\<lparr>px_cache := ca, px_routes := ?h2\<rparr>))"
        using hp by (simp add: create_done_def)
      moreover have "world_ok (add_channel c (?w\<lparr>px_cache := ca, px_routes := ?h2\<rparr>))"
        using ca(2) acc2 by (intro rest) (simp_all add: add_channel_def)
      ultimately show ?thesis using new c by (simp add: add_channel_def)
    qed
  qed
qed

lemma create_failed_ok:
  assumes "case route of None \<Rightarrow> world_ok w | Some p \<Rightarrow> route_ready p w"
  shows "\<exists>w'. create_failed host ssock src route w = Some w' \<and> world_ok w' \<and> px_channels w' = px_channels w
    \<and> px_fds w' = nrdpx_socket_close (nrdpx_socket_close (px_fds w) ssock) src"
proof (cases route)
  case None
  with assms show ?thesis by (simp add: create_failed_def)
next
  case (Some p)
  with assms obtain r where r: "px_routes w p = Some r" and rdy: "route_ready p w"
    by (auto simp: route_ready_def)
  let ?fds = "nrdpx_socket_close (nrdpx_socket_close (px_fds w) ssock) src"
  show ?thesis
  proof (cases "rt_cached r")
    case True
    with rdy r have ok: "world_ok w" by (auto simp: route_ready_def)
    obtain ca h where rm: "cache_remove host (px_cache w) (px_routes w) = Some (ca, h)" "cache_ok ca h"
      "frees_idle (px_routes w) h"
      using rc.remove_law [OF world_okD(1) [OF ok], of host] by blast
    have "world_ok (w\<lparr>px_fds := ?fds, px_cache := ca, px_routes := h\<rparr>)"
      using world_ok_cache [of "w\<lparr>px_fds := ?fds\<rparr>" ca h] ok rm by simp
    with Some True r rm show ?thesis by (simp add: create_failed_def)
  next
    case False
    with rdy r have "world_ok (w\<lparr>px_routes := (px_routes w)(p := None)\<rparr>)" by (auto simp: route_ready_def)
    then have "world_ok (w\<lparr>px_fds := ?fds, px_routes := (px_routes w)(p := None)\<rparr>)"
      by (simp add: world_ok_def)
    with Some False r show ?thesis by (simp add: create_failed_def)
  qed
qed

text \<open>\<open>nrdpx_channel_create\<close> touches only memory that is allocated, keeps the invariant, and
  adds the channel it returns, if any, as the last one.\<close>

lemma channel_create_ok:
  assumes ok: "world_ok w"
  shows "\<exists>res w'. nrdpx_channel_create env src now nosvr w = Some (res, w') \<and> world_ok w'
    \<and> (case res of None \<Rightarrow> px_channels w' = px_channels w
       | Some a \<Rightarrow> \<exists>c. ch_addr c = a \<and> ch_source c = src \<and> px_channels w' = px_channels w @ [c])
    \<and> (fresh_sockets env w \<and> src \<noteq> NRD_NOSOCK \<and> src \<in> px_fds w \<longrightarrow>
         (case res of None \<Rightarrow> px_fds w' = px_fds w - {src}
          | Some a \<Rightarrow> (let t = ch_target (last (px_channels w')) in
              t \<notin> px_fds w \<and> t \<noteq> NRD_NOSOCK \<and> px_fds w' = insert t (px_fds w))))"
proof -
  have early: ?thesis if "nrdpx_channel_create env src now nosvr w = do { w \<leftarrow> create_failed host (-1) src None w; Some (None, w) }" for host
    using create_failed_ok [where route = None and w = w and host = host and ssock = "-1" and src = src] ok that
    by (auto simp: nrdpx_socket_close_def NRD_NOSOCK_def)
  show ?thesis
  proof (cases "en_peer env src")
    case None
    then show ?thesis by (intro early [of "[]"]) (simp add: nrdpx_channel_create_def)
  next
    case (Some a)
    let ?host = "addr_to_host (en_res env) a True"
    show ?thesis
    proof (cases "?host = []")
      case True
      with Some show ?thesis by (intro early [of "[]"]) (simp add: nrdpx_channel_create_def)
    next
      case False
      obtain p w1 where w1: "channel_route env a ?host nosvr w = Some (p, w1)" "route_ready p w1"
        "px_channels w1 = px_channels w" "px_fds w1 = px_fds w"
        using channel_route_ok [OF ok, of env a ?host nosvr] by blast
      obtain k sock fds where cn: "channel_connect env p w1 = Some (k, sock, w1\<lparr>px_fds := fds\<rparr>)"
        "k \<longrightarrow> (\<exists>r. px_routes w1 p = Some r \<and> rt_server r \<noteq> None)"
        "fresh_sockets env w1 \<longrightarrow> (if sock = NRD_NOSOCK then \<not> k \<and> fds = px_fds w1
           else sock \<notin> px_fds w1 \<and> fds = insert sock (px_fds w1))"
        using channel_connect_ok [OF w1(2), of env] by blast
      let ?w2 = "w1\<lparr>px_fds := fds\<rparr>"
      have rdy: "route_ready p ?w2" using w1(2) by simp
      show ?thesis
      proof (cases k)
        case False
        from create_failed_ok [where route = "Some p" and w = ?w2 and host = ?host and ssock = sock and src = src] rdy obtain w3 where
          "create_failed ?host sock src (Some p) ?w2 = Some w3" "world_ok w3" "px_channels w3 = px_channels w"
          "px_fds w3 = nrdpx_socket_close (nrdpx_socket_close fds sock) src"
          using w1(3) by auto
        moreover have "px_fds w3 = px_fds w - {src}" if "fresh_sockets env w" "src \<noteq> NRD_NOSOCK"
          using that cn(3) w1(4) calculation(4)
          by (auto simp: fresh_sockets_def nrdpx_socket_close_def split: if_splits)
        ultimately show ?thesis using Some \<open>?host \<noteq> []\<close> w1 cn(1) False
          by (simp add: nrdpx_channel_create_def Let_def)
      next
        case True
        then obtain r where "px_routes ?w2 p = Some r" "rt_server r \<noteq> None" using cn(2) by auto
        from channel_attach_ok [OF rdy this, of env src sock now ?host] obtain c w3 w4 where
          "channel_new env src sock p now ?w2 = Some (c, w3)" "create_done env ?host c p w3 = Some w4"
          "world_ok w4" "px_channels w4 = px_channels w @ [c]" "ch_source c = src" "ch_target c = sock" "px_fds w4 = fds"
          using w1(3) by auto
        moreover have "sock \<notin> px_fds w \<and> sock \<noteq> NRD_NOSOCK \<and> fds = insert sock (px_fds w)" if "fresh_sockets env w"
          using that cn(3) w1(4) True by (auto simp: fresh_sockets_def split: if_splits)
        ultimately show ?thesis using Some \<open>?host \<noteq> []\<close> w1 cn(1) True
          by (simp add: nrdpx_channel_create_def Let_def)
      qed
    qed
  qed
qed

lemma erase_channel_Some:
  "erase_channel a cs = Some (c, cs') \<Longrightarrow> \<exists>x y. cs = x @ c # y \<and> cs' = x @ y \<and> ch_addr c = a"
proof (induction cs arbitrary: cs')
  case (Cons d cs)
  show ?case
  proof (cases "ch_addr d = a")
    case True
    with Cons.prems show ?thesis by (intro exI [of _ "[]"] exI [of _ cs]) auto
  next
    case False
    with Cons.prems obtain e where e: "erase_channel a cs = Some (c, e)" "cs' = d # e" by auto
    with Cons.IH [OF e(1)] obtain x y where "cs = x @ c # y" "e = x @ y" "ch_addr c = a" by blast
    with e show ?thesis by (intro exI [of _ "d # x"] exI [of _ y]) auto
  qed
qed simp

lemma erase_channel_nth:
  "distinct (map ch_addr cs) \<Longrightarrow> i < length cs \<Longrightarrow>
     erase_channel (ch_addr (cs ! i)) cs = Some (cs ! i, take i cs @ drop (Suc i) cs)"
proof (induction cs arbitrary: i)
  case (Cons d cs)
  then show ?case by (cases i) (auto simp: image_iff)
qed simp

lemma channel_destroy_ok:
  assumes ok: "world_ok w" and cs: "px_channels w = a @ c # b"
  shows "\<exists>w'. channel_destroy t c (w\<lparr>px_channels := a @ b\<rparr>) = Some w' \<and> world_ok w' \<and> px_channels w' = a @ b
    \<and> px_fds w' = nrdpx_socket_close (nrdpx_socket_close (px_fds w) (ch_source c)) (ch_target c)"
proof -
  note acc = world_okD(2) [OF ok, unfolded cs]
  obtain r where r: "px_routes w (ch_route c) = Some r"
    using accountsD(1) [OF acc, of c] by auto
  obtain ci si where refs: "rt_client r = Some ci" "ci < length (px_clients w)" "rt_server r = Some si" "si < length (px_servers w)"
    using accountsD(2) [OF acc r] by (auto simp: refs_ok_def)
  let ?r = "r\<lparr>rt_act_time := t, rt_num_slots := xtl_max 0 (rt_num_slots r - 1)\<rparr>"
  let ?h = "if rt_cached r then (px_routes w)(ch_route c \<mapsto> ?r) else (px_routes w)(ch_route c := None)"
  let ?cls = "(px_clients w)[ci := (px_clients w ! ci)\<lparr>cl_num_slots := xtl_max 0 (cl_num_slots (px_clients w ! ci) - 1)\<rparr>]"
  let ?svs = "(px_servers w)[si := (px_servers w ! si)\<lparr>sv_num_slots := xtl_max 0 (sv_num_slots (px_servers w ! si) - 1)\<rparr>]"
  let ?w = "w\<lparr>px_channels := a @ b, px_fds := nrdpx_socket_close (nrdpx_socket_close (px_fds w) (ch_source c)) (ch_target c),
     px_clients := ?cls, px_servers := ?svs, px_routes := ?h\<rparr>"
  have d: "channel_destroy t c (w\<lparr>px_channels := a @ b\<rparr>) = Some ?w"
    using r refs by (simp add: channel_destroy_def Let_def)
  have cache: "cache_ok (px_cache w) ?h"
    using rc.ok_update [OF world_okD(1) [OF ok] r, of ?r] rc.ok_delete [OF world_okD(1) [OF ok] r] by simp
  have "world_ok ?w"
    using accounts_detach [OF acc r refs(1,3), of t] cache ok r
    unfolding world_ok_def by (auto simp: cs)
  with d show ?thesis by auto
qed

lemma del_channel_ok:
  assumes ok: "world_ok w"
  shows "\<exists>w'. del_channel t a w = Some w' \<and> world_ok w'"
proof (cases "erase_channel a (px_channels w)")
  case None
  with ok show ?thesis by (simp add: del_channel_def)
next
  case (Some e)
  obtain c cs where e: "e = (c, cs)" by fastforce
  from erase_channel_Some [OF Some [unfolded e]] obtain x y where "px_channels w = x @ c # y" "cs = x @ y" by blast
  with channel_destroy_ok [OF ok] Some e show ?thesis by (fastforce simp: del_channel_def)
qed

lemma del_channel_nth:
  assumes ok: "world_ok w" and i: "i < length (px_channels w)"
  shows "\<exists>w'. del_channel t (ch_addr (px_channels w ! i)) w = Some w' \<and> world_ok w'
    \<and> px_channels w' = take i (px_channels w) @ drop (Suc i) (px_channels w)
    \<and> px_fds w' = nrdpx_socket_close (nrdpx_socket_close (px_fds w) (ch_source (px_channels w ! i)))
        (ch_target (px_channels w ! i))"
proof -
  have "px_channels w = take i (px_channels w) @ px_channels w ! i # drop (Suc i) (px_channels w)"
    using i by (simp add: id_take_nth_drop)
  from channel_destroy_ok [OF ok this, of t] erase_channel_nth [OF world_okD(4) [OF ok] i]
  show ?thesis by (auto simp: del_channel_def)
qed

end
