(* ===== verification/Mainloop.thy ===== *)
theory Mainloop
  imports Proxy_Inv
begin

text \<open>
  \<open>nrdpx_proxy_t::fill_fds\<close> and \<open>nrdpx_main_proc\<close> of \<open>src/src/nrdpx_server.cpp\<close>: which
  sockets are watched, and one iteration of the main loop (accepting connections, connection
  errors, and the four reads and writes on every channel).

  The answers of the system during an iteration are the fields of \<open>loop_env\<close>; \<open>k\<close> counts the
  listeners and passes of the iteration, so that the system may answer differently each time.
\<close>

subsection \<open>Descriptor sets\<close>

definition FD_SETSIZE :: int where "FD_SETSIZE = 1024"

definition FD_SET :: "int \<Rightarrow> int set \<Rightarrow> int set option" where
  "FD_SET fd S = (if 0 \<le> fd \<and> fd < FD_SETSIZE then Some (insert fd S) else None)"

text \<open>\<open>FD_SET\<close> under a condition, with the new maximum.\<close>

definition watch :: "bool \<Rightarrow> int \<Rightarrow> int set \<times> int \<Rightarrow> (int set \<times> int) option" where
  "watch cond fd = (\<lambda>(S, ret).
     if cond then map_option (\<lambda>S. (S, xtl_max fd ret)) (FD_SET fd S) else Some (S, ret))"

fun fill_listeners :: "nrdpx_listener_t list \<Rightarrow> int set \<times> int \<Rightarrow> (int set \<times> int) option" where
  "fill_listeners [] s = Some s"
| "fill_listeners (l # ls) s = do { s \<leftarrow> watch True (ls_sock l) s; fill_listeners ls s }"

definition fill_channel ::
  "bool \<Rightarrow> bool \<Rightarrow> nrdpx_channel_t \<Rightarrow> int set \<times> int set \<times> int \<Rightarrow> (int set \<times> int set \<times> int) option" where
  "fill_channel read_set write_set c = (\<lambda>(R, W, ret).
     do { (R, ret) \<leftarrow> watch (read_set \<and> bf_pos (ch_in_source c) < bf_size (ch_in_source c)) (ch_source c) (R, ret);
          (R, ret) \<leftarrow> watch (read_set \<and> bf_pos (ch_in_target c) < bf_size (ch_in_target c)) (ch_target c) (R, ret);
          (W, ret) \<leftarrow> watch (write_set \<and> bf_pos (ch_in_source c) > 0) (ch_target c) (W, ret);
          (W, ret) \<leftarrow> watch (write_set \<and> bf_pos (ch_in_target c) > 0) (ch_source c) (W, ret);
          Some (R, W, ret) })"

fun fill_channels ::
  "bool \<Rightarrow> bool \<Rightarrow> nrdpx_channel_t list \<Rightarrow> int set \<times> int set \<times> int \<Rightarrow> (int set \<times> int set \<times> int) option" where
  "fill_channels read_set write_set [] s = Some s"
| "fill_channels read_set write_set (c # cs) s =
     do { s \<leftarrow> fill_channel read_set write_set c s; fill_channels read_set write_set cs s }"

text \<open>\<open>fill_fds\<close>: \<open>read_set\<close> and \<open>write_set\<close> say which sets the caller passes.\<close>

definition fill_fds :: "bool \<Rightarrow> bool \<Rightarrow> nrdpx_proxy_t \<Rightarrow> (int set \<times> int set \<times> int) option" where
  "fill_fds read_set write_set w =
     (if \<not> read_set \<and> \<not> write_set then Some ({}, {}, 0)
      else do { (R, ret) \<leftarrow> (if read_set then fill_listeners (px_listeners w) ({}, NRD_NOSOCK)
                              else Some ({}, NRD_NOSOCK));
                fill_channels read_set write_set (px_channels w) (R, {}, ret) })"

subsection \<open>One iteration\<close>

record loop_env =
  le_sel_rc :: int
  le_sel_errno :: int
  le_read :: "int set"
  le_write :: "int set"
  le_now :: int
  le_env :: "nat \<Rightarrow> px_env"
  le_recv :: "nat \<Rightarrow> int \<Rightarrow> byte list \<times> int"
  le_send :: "nat \<Rightarrow> int \<Rightarrow> int \<times> int"

definition set_chan :: "nat \<Rightarrow> nrdpx_channel_t \<Rightarrow> nrdpx_proxy_t \<Rightarrow> nrdpx_proxy_t" where
  "set_chan i c w = w\<lparr>px_channels := (px_channels w)[i := c]\<rparr>"

text \<open>The server of a channel, \<open>chn->route->server\<close>, as an index.\<close>

definition chan_server :: "nrdpx_channel_t \<Rightarrow> nrdpx_proxy_t \<Rightarrow> nat option" where
  "chan_server c w = do { r \<leftarrow> px_routes w (ch_route c); rt_server r }"

definition set_connected :: "px_env \<Rightarrow> nat \<Rightarrow> nrdpx_proxy_t \<Rightarrow> nrdpx_proxy_t option" where
  "set_connected env i w =
     (let c = px_channels w ! i in
      if ch_connected c then Some w
      else let c = (adjust_buffers (en_os env) (px_buffer_mode w) (px_max_buffer w) (en_junk env) c)
                     \<lparr>ch_connected := True\<rparr>
           in do { s \<leftarrow> chan_server c w; sv \<leftarrow> get (px_servers w) s;
                   Some (set_chan i c (w\<lparr>px_servers := (px_servers w)[s := sv\<lparr>sv_num_faults := 0\<rparr>]\<rparr>)) })"

text \<open>What \<open>recv\<close> delivers into \<open>room\<close> bytes and how many of \<open>pos\<close> bytes \<open>send\<close> accepts: at
  most what was asked for.  The second component is \<open>errno\<close>, looked at when the call
  returned zero or less.\<close>

definition recv_bytes :: "loop_env \<Rightarrow> nat \<Rightarrow> int \<Rightarrow> nat \<Rightarrow> byte list \<times> int" where
  "recv_bytes le k sock room = (let (bs, err) = le_recv le k sock in (take room bs, err))"

definition send_count :: "loop_env \<Rightarrow> nat \<Rightarrow> int \<Rightarrow> nat \<Rightarrow> nat \<times> int" where
  "send_count le k sock pos = (let (n, err) = le_send le k sock in (nat (xtl_min n (int pos)), err))"

text \<open>The four steps on channel \<open>i\<close>; the first result says whether the channel lives on.\<close>

definition read_source :: "loop_env \<Rightarrow> nat \<Rightarrow> nat \<Rightarrow> nrdpx_proxy_t \<Rightarrow> (bool \<times> nrdpx_proxy_t) option" where
  "read_source le k i w =
     (let c = px_channels w ! i; b = ch_in_source c in
      if ch_source c \<in> le_read le \<and> bf_pos b < bf_size b then
        let (bs, err) = recv_bytes le k (ch_source c) (buf_room b) in
        if bs = [] then Some (\<not> is_error_fatal err False, w)
        else do { b \<leftarrow> buf_put bs b; Some (True, set_chan i (c\<lparr>ch_in_source := b\<rparr>) w) }
      else Some (True, w))"

definition read_target :: "loop_env \<Rightarrow> nat \<Rightarrow> nat \<Rightarrow> nrdpx_proxy_t \<Rightarrow> (bool \<times> nrdpx_proxy_t) option" where
  "read_target le k i w =
     (let c = px_channels w ! i; b = ch_in_target c in
      if ch_target c \<in> le_read le \<and> bf_pos b < bf_size b then
        do { w \<leftarrow> set_connected (le_env le k) i w;
             let c = px_channels w ! i; b = ch_in_target c;
                 (bs, err) = recv_bytes le k (ch_target c) (buf_room b) in
             if bs = [] then Some (\<not> is_error_fatal err False, w)
             else do { b \<leftarrow> buf_put bs b; Some (True, set_chan i (c\<lparr>ch_in_target := b\<rparr>) w) } }
      else Some (True, w))"

definition write_source :: "loop_env \<Rightarrow> nat \<Rightarrow> nat \<Rightarrow> nrdpx_proxy_t \<Rightarrow> (bool \<times> nrdpx_proxy_t) option" where
  "write_source le k i w =
     (let c = px_channels w ! i; b = ch_in_target c in
      if ch_source c \<in> le_write le \<and> bf_pos b > 0 then
        let (n, err) = send_count le k (ch_source c) (bf_pos b) in
        if n = 0 then Some (\<not> is_error_fatal err False, w)
        else Some (True, set_chan i (c\<lparr>ch_in_target := buf_sent n b\<rparr>) w)
      else Some (True, w))"

definition write_target :: "loop_env \<Rightarrow> nat \<Rightarrow> nat \<Rightarrow> nrdpx_proxy_t \<Rightarrow> (bool \<times> nrdpx_proxy_t) option" where
  "write_target le k i w =
     (let c = px_channels w ! i; b = ch_in_source c in
      if ch_target c \<in> le_write le \<and> bf_pos b > 0 then
        do { w \<leftarrow> set_connected (le_env le k) i w;
             let c = px_channels w ! i; b = ch_in_source c;
                 (n, err) = send_count le k (ch_target c) (bf_pos b) in
             if n = 0 then Some (\<not> is_error_fatal err False, w)
             else Some (True, set_chan i (c\<lparr>ch_in_source := buf_sent n b\<rparr>) w) }
      else Some (True, w))"

text \<open>The steps one after the other until one ends the channel.\<close>

definition and_then ::
  "(nrdpx_proxy_t \<Rightarrow> (bool \<times> nrdpx_proxy_t) option) \<Rightarrow> (nrdpx_proxy_t \<Rightarrow> (bool \<times> nrdpx_proxy_t) option)
   \<Rightarrow> nrdpx_proxy_t \<Rightarrow> (bool \<times> nrdpx_proxy_t) option" where
  "and_then f g w = do { (alive, w) \<leftarrow> f w; if alive then g w else Some (False, w) }"

definition chan_io :: "loop_env \<Rightarrow> nat \<Rightarrow> nat \<Rightarrow> nrdpx_proxy_t \<Rightarrow> (bool \<times> nrdpx_proxy_t) option" where
  "chan_io le k i =
     and_then (read_source le k i) (and_then (read_target le k i)
       (and_then (write_source le k i) (write_target le k i)))"

text \<open>The error of a channel that is not connected yet; \<open>0\<close> for none.\<close>

definition connect_error :: "loop_env \<Rightarrow> nat \<Rightarrow> nrdpx_proxy_t \<Rightarrow> nrdpx_channel_t \<Rightarrow> int" where
  "connect_error le k w c =
     (if ch_connected c then 0
      else if ch_conn_time c + px_conn_timeout w < le_now le then -1
      else let err = nrdpx_socket_error (en_os (le_env le k)) (ch_target c)
           in if err \<noteq> 0 \<and> \<not> is_error_fatal err True then 0 else err)"

text \<open>The server of a failed channel gets a fault, and is deactivated at the limit.\<close>

definition count_fault :: "int \<Rightarrow> nrdpx_server_t \<Rightarrow> nrdpx_server_t" where
  "count_fault max_faults s =
     (let s = s\<lparr>sv_num_faults := sv_num_faults s + 1\<rparr> in
      if sv_num_faults s \<ge> max_faults then nrdpx_server_deactivate s else s)"

definition connect_failed :: "loop_env \<Rightarrow> nat \<Rightarrow> nat \<Rightarrow> nrdpx_proxy_t \<Rightarrow> nrdpx_proxy_t option" where
  "connect_failed le k i w =
     (let c = px_channels w ! i in
      do { s \<leftarrow> chan_server c w; sv \<leftarrow> get (px_servers w) s;
           let w = w\<lparr>px_servers := (px_servers w)[s := count_fault (px_max_faults w) sv]\<rparr> in
           do { (new, w) \<leftarrow> nrdpx_channel_create (le_env le k) (ch_source c) (le_now le) (Some s) w;
                let w = set_chan i ((px_channels w ! i)\<lparr>ch_source := NRD_NOSOCK\<rparr>) w in
                nrdpx_channel_delete (en_time (le_env le k)) (Some (ch_addr c)) w } })"

text \<open>One pass of the loop over the channels: the state and the next index.\<close>

definition chan_pass :: "loop_env \<Rightarrow> nat \<Rightarrow> nat \<Rightarrow> nrdpx_proxy_t \<Rightarrow> (nat \<times> nrdpx_proxy_t) option" where
  "chan_pass le k i w =
     (let c = px_channels w ! i in
      if connect_error le k w c \<noteq> 0 then do { w \<leftarrow> connect_failed le k i w; Some (i, w) }
      else if le_sel_rc le = 0 then Some (i + 1, w)
      else do { (alive, w) \<leftarrow> chan_io le k i w;
                if alive then Some (i + 1, w)
                else do { w \<leftarrow> nrdpx_channel_delete (en_time (le_env le k)) (Some (ch_addr c)) w;
                          Some (i, w) } })"

text \<open>The loop over the channels, which may get new ones while it runs; \<open>False\<close> when the fuel
  ends before the loop does.\<close>

fun chan_loop :: "nat \<Rightarrow> loop_env \<Rightarrow> nat \<Rightarrow> nat \<Rightarrow> nrdpx_proxy_t \<Rightarrow> (bool \<times> nrdpx_proxy_t) option" where
  "chan_loop 0 le k i w = Some (i \<ge> length (px_channels w), w)"
| "chan_loop (Suc fuel) le k i w =
     (if i < length (px_channels w)
      then do { (i, w) \<leftarrow> chan_pass le k i w; chan_loop fuel le (k + 1) i w }
      else Some (True, w))"

fun accept_loop :: "loop_env \<Rightarrow> nat \<Rightarrow> nrdpx_listener_t list \<Rightarrow> nrdpx_proxy_t \<Rightarrow> nrdpx_proxy_t option" where
  "accept_loop le k [] w = Some w"
| "accept_loop le k (l # ls) w =
     (if ls_sock l \<noteq> NRD_NOSOCK \<and> ls_sock l \<in> le_read le then
        let (new_sd, fds) = nrdpx_socket_accept (en_os (le_env le k)) (px_fds w) (ls_sock l);
            w = w\<lparr>px_fds := fds\<rparr>
        in if new_sd \<noteq> NRD_NOSOCK
           then do { (chn, w) \<leftarrow> nrdpx_channel_create (le_env le k) new_sd (le_now le) None w;
                     accept_loop le (k + 1) ls w }
           else accept_loop le (k + 1) ls w
      else accept_loop le (k + 1) ls w)"

text \<open>The sockets that the processes at the other end see: \<open>select\<close> reports a subset of what
  it was asked for unless it failed, when the sets are as \<open>fill_fds\<close> left them.\<close>

definition le_selected :: "loop_env \<Rightarrow> int set \<Rightarrow> int set \<Rightarrow> loop_env" where
  "le_selected le R W =
     (if le_sel_rc le < 0 then le\<lparr>le_read := R, le_write := W\<rparr>
      else le\<lparr>le_read := le_read le \<inter> R, le_write := le_write le \<inter> W\<rparr>)"

datatype iteration = Iterated bool nrdpx_proxy_t | Selector_failed

definition main_iteration :: "nat \<Rightarrow> loop_env \<Rightarrow> nrdpx_proxy_t \<Rightarrow> iteration option" where
  "main_iteration fuel le w =
     do { (R, W, max_sd) \<leftarrow> fill_fds True True w;
          let le = le_selected le R W in
          if le_sel_rc le < 0 \<and> is_error_fatal (le_sel_errno le) False then Some Selector_failed
          else do { w \<leftarrow> (if le_sel_rc le \<noteq> 0 then accept_loop le 0 (px_listeners w) w else Some w);
                    (finished, w) \<leftarrow> chan_loop fuel le (length (px_listeners w)) 0 w;
                    Some (Iterated finished w) } }"

text \<open>The delay at the end of an iteration: the milliseconds slept, if any, and the new \<open>slp\<close>;
  \<open>moved\<close> says that bytes were sent or received.\<close>

definition throttle :: "nat \<Rightarrow> bool \<Rightarrow> nat option \<times> nat" where
  "throttle slp moved =
     (let slp = (if slp < 25 then slp + 1 else slp) in
      if \<not> moved then (Some slp, slp) else if slp \<ge> 25 then (Some 0, 0) else (None, slp))"

subsection \<open>The loop keeps the invariant\<close>

lemma map_nums_update:
  "i < length xs \<Longrightarrow> f x = f (xs ! i) \<Longrightarrow> map f (xs[i := x]) = map f xs"
  by (metis list_update_id map_update)

lemma set_chan_ok:
  assumes ok: "world_ok w" and i: "i < length (px_channels w)"
    and c: "ch_addr c = ch_addr (px_channels w ! i)" "ch_route c = ch_route (px_channels w ! i)" "chan_bufs_ok c"
  shows "world_ok (set_chan i c w)"
proof -
  let ?cs = "(px_channels w)[i := c]"
  have a: "map ch_addr ?cs = map ch_addr (px_channels w)" and r: "map ch_route ?cs = map ch_route (px_channels w)"
    using i c by (simp_all add: map_nums_update)
  have "channel_ok (px_next_chan w) x" if x: "x \<in> set ?cs" for x
  proof (cases "x = c")
    case True
    with c world_okD(5) [OF ok, of "px_channels w ! i"] i show ?thesis by (simp add: channel_ok_def)
  next
    case False
    with x have "x \<in> set (px_channels w)" using set_update_subset_insert by fastforce
    then show ?thesis by (rule world_okD(5) [OF ok])
  qed
  moreover have "accounts (px_routes w) ?cs (px_clients w) (px_servers w)"
    by (rule accounts_cong [OF world_okD(2) [OF ok] refl refl r])
  ultimately show ?thesis
    using ok a by (auto simp: world_ok_def set_chan_def)
qed

lemma set_server_ok:
  assumes ok: "world_ok w" and s: "s < length (px_servers w)" and n: "sv_num_slots sv = sv_num_slots (px_servers w ! s)"
  shows "world_ok (w\<lparr>px_servers := (px_servers w)[s := sv]\<rparr>)"
proof -
  have "accounts (px_routes w) (px_channels w) (px_clients w) ((px_servers w)[s := sv])"
    using s n by (intro accounts_cong [OF world_okD(2) [OF ok] refl _ refl] map_nums_update)
  with ok show ?thesis by (auto simp: world_ok_def)
qed

lemma chan_server_ok:
  assumes ok: "world_ok w" and c: "c \<in> set (px_channels w)"
  shows "\<exists>s. chan_server c w = Some s \<and> s < length (px_servers w)"
proof -
  obtain r where r: "px_routes w (ch_route c) = Some r"
    using accountsD(1) [OF world_okD(2) [OF ok] c] by blast
  with accountsD(2) [OF world_okD(2) [OF ok] r] show ?thesis by (auto simp: chan_server_def refs_ok_def)
qed

text \<open>What a step on channel \<open>i\<close> leaves alone: the other channels, and everything of channel
  \<open>i\<close> but its flag and its buffers.\<close>

definition same_chan :: "nrdpx_channel_t \<Rightarrow> nrdpx_channel_t \<Rightarrow> bool" where
  "same_chan c c' \<longleftrightarrow> ch_addr c' = ch_addr c \<and> ch_route c' = ch_route c \<and> ch_source c' = ch_source c
     \<and> ch_target c' = ch_target c \<and> ch_id c' = ch_id c \<and> ch_conn_time c' = ch_conn_time c"

definition keeps :: "nat \<Rightarrow> nrdpx_proxy_t \<Rightarrow> nrdpx_proxy_t \<Rightarrow> bool" where
  "keeps i w w' \<longleftrightarrow> world_ok w' \<and> length (px_channels w') = length (px_channels w)
     \<and> same_chan (px_channels w ! i) (px_channels w' ! i)
     \<and> (\<forall>j. j \<noteq> i \<longrightarrow> px_channels w' ! j = px_channels w ! j) \<and> px_fds w' = px_fds w
     \<and> px_routes w' = px_routes w \<and> px_listeners w' = px_listeners w"

lemma keeps_refl: "world_ok w \<Longrightarrow> keeps i w w"
  by (simp add: keeps_def same_chan_def)

lemma keeps_trans: "keeps i w1 w2 \<Longrightarrow> keeps i w2 w3 \<Longrightarrow> keeps i w1 w3"
  by (simp add: keeps_def same_chan_def)

lemma keeps_set_chan:
  assumes "world_ok w" "i < length (px_channels w)" "same_chan (px_channels w ! i) c" "chan_bufs_ok c"
  shows "keeps i w (set_chan i c w)"
  using assms set_chan_ok [OF assms(1,2), of c]
  by (simp add: keeps_def set_chan_def same_chan_def)

lemma chan_bufs:
  assumes "world_ok w" "i < length (px_channels w)"
  shows "buf_ok (ch_in_source (px_channels w ! i))" "buf_ok (ch_in_target (px_channels w ! i))"
  using world_okD(5) [OF assms(1), of "px_channels w ! i"] assms(2)
  by (auto simp: channel_ok_def chan_bufs_ok_def)

lemma set_connected_ok:
  assumes ok: "world_ok w" and i: "i < length (px_channels w)"
  shows "\<exists>w'. set_connected env i w = Some w' \<and> keeps i w w'
    \<and> buf_bytes (ch_in_source (px_channels w' ! i)) = buf_bytes (ch_in_source (px_channels w ! i))
    \<and> buf_bytes (ch_in_target (px_channels w' ! i)) = buf_bytes (ch_in_target (px_channels w ! i))"
proof (cases "ch_connected (px_channels w ! i)")
  case True
  with ok show ?thesis by (simp add: set_connected_def keeps_refl)
next
  case False
  let ?c = "px_channels w ! i"
  let ?c' = "(adjust_buffers (en_os env) (px_buffer_mode w) (px_max_buffer w) (en_junk env) ?c)\<lparr>ch_connected := True\<rparr>"
  obtain s where s: "chan_server ?c w = Some s" "s < length (px_servers w)"
    using chan_server_ok [OF ok nth_mem [OF i]] by blast
  have "chan_server ?c' w = Some s" using s by (simp add: chan_server_def)
  let ?w1 = "w\<lparr>px_servers := (px_servers w)[s := (px_servers w ! s)\<lparr>sv_num_faults := 0\<rparr>]\<rparr>"
  have w1: "world_ok ?w1" using s(2) by (intro set_server_ok [OF ok]) simp_all
  have bufs: "chan_bufs_ok ?c" using chan_bufs [OF ok i] by (simp add: chan_bufs_ok_def)
  have same: "same_chan ?c ?c'" by (simp add: same_chan_def)
  have b: "chan_bufs_ok ?c'" using adjust_buffers_ok(1) [OF bufs] by (simp add: chan_bufs_ok_def)
  have "keeps i ?w1 (set_chan i ?c' ?w1)"
    using keeps_set_chan [OF w1, of i ?c'] i same b by simp
  moreover have "keeps i w ?w1" using w1 by (simp add: keeps_def same_chan_def)
  ultimately have "keeps i w (set_chan i ?c' ?w1)" by (rule keeps_trans [rotated])
  with \<open>chan_server ?c' w = Some s\<close> False s i adjust_buffers_ok(2,3) [OF bufs] show ?thesis
    by (simp add: set_connected_def Let_def set_chan_def)
qed

subsection \<open>Bytes are relayed in order\<close>

text \<open>What a step did to channel \<open>i\<close>: \<open>gs\<close> and \<open>gt\<close> came from the source and the target
  socket, \<open>ss\<close> was sent to the target and \<open>st\<close> to the source.\<close>

definition relays :: "nat \<Rightarrow> nrdpx_proxy_t \<Rightarrow> nrdpx_proxy_t \<Rightarrow> byte list \<Rightarrow> byte list \<Rightarrow> byte list \<Rightarrow> byte list \<Rightarrow> bool" where
  "relays i w w' gs ss gt st \<longleftrightarrow> keeps i w w'
     \<and> buf_bytes (ch_in_source (px_channels w ! i)) @ gs = ss @ buf_bytes (ch_in_source (px_channels w' ! i))
     \<and> buf_bytes (ch_in_target (px_channels w ! i)) @ gt = st @ buf_bytes (ch_in_target (px_channels w' ! i))"

lemma pending_drop: "x = s @ y \<Longrightarrow> s = take n x \<Longrightarrow> y = drop n x"
  by (metis append_take_drop_id same_append_eq)

lemma relays_refl: "world_ok w \<Longrightarrow> relays i w w [] [] [] []"
  by (simp add: relays_def keeps_refl)

lemma append_shift: "a @ g1 = s1 @ b \<Longrightarrow> b @ g2 = s2 @ c \<Longrightarrow> a @ g1 @ g2 = (s1 @ s2) @ c"
  by (metis append.assoc)

lemma relays_trans:
  "relays i w1 w2 gs1 ss1 gt1 st1 \<Longrightarrow> relays i w2 w3 gs2 ss2 gt2 st2 \<Longrightarrow>
     relays i w1 w3 (gs1 @ gs2) (ss1 @ ss2) (gt1 @ gt2) (st1 @ st2)"
  unfolding relays_def using keeps_trans append_shift by blast

lemma set_connected_relays:
  assumes "world_ok w" "i < length (px_channels w)"
  shows "\<exists>w'. set_connected env i w = Some w' \<and> relays i w w' [] [] [] []"
  using set_connected_ok [OF assms, of env] by (force simp: relays_def)

lemma recv_bytes_len: "recv_bytes le k sock room = (bs, err) \<Longrightarrow> length bs \<le> room"
  by (auto simp: recv_bytes_def split: prod.splits)

lemma recv_bytes_from: "recv_bytes le k sock room = (bs, err) \<Longrightarrow> \<exists>n. bs = take n (fst (le_recv le k sock))"
  by (auto simp: recv_bytes_def split: prod.splits)

lemma send_count_le: "send_count le k sock pos = (n, err) \<Longrightarrow> n \<le> pos"
  by (auto simp: send_count_def split: prod.splits)

lemma put_source:
  assumes ok: "world_ok w" and i: "i < length (px_channels w)"
    and len: "length bs \<le> buf_room (ch_in_source (px_channels w ! i))"
  shows "\<exists>b. buf_put bs (ch_in_source (px_channels w ! i)) = Some b
    \<and> relays i w (set_chan i ((px_channels w ! i)\<lparr>ch_in_source := b\<rparr>) w) bs [] [] []"
proof -
  note bufs = chan_bufs [OF ok i]
  from relay.put_law [OF bufs(1) len] obtain b where b: "buf_put bs (ch_in_source (px_channels w ! i)) = Some b"
    "buf_ok b" "buf_bytes b = buf_bytes (ch_in_source (px_channels w ! i)) @ bs" by blast
  have "keeps i w (set_chan i ((px_channels w ! i)\<lparr>ch_in_source := b\<rparr>) w)"
    using b bufs by (intro keeps_set_chan [OF ok i]) (simp_all add: same_chan_def chan_bufs_ok_def)
  with b i show ?thesis by (simp add: relays_def set_chan_def)
qed

lemma put_target:
  assumes ok: "world_ok w" and i: "i < length (px_channels w)"
    and len: "length bs \<le> buf_room (ch_in_target (px_channels w ! i))"
  shows "\<exists>b. buf_put bs (ch_in_target (px_channels w ! i)) = Some b
    \<and> relays i w (set_chan i ((px_channels w ! i)\<lparr>ch_in_target := b\<rparr>) w) [] [] bs []"
proof -
  note bufs = chan_bufs [OF ok i]
  from relay.put_law [OF bufs(2) len] obtain b where b: "buf_put bs (ch_in_target (px_channels w ! i)) = Some b"
    "buf_ok b" "buf_bytes b = buf_bytes (ch_in_target (px_channels w ! i)) @ bs" by blast
  have "keeps i w (set_chan i ((px_channels w ! i)\<lparr>ch_in_target := b\<rparr>) w)"
    using b bufs by (intro keeps_set_chan [OF ok i]) (simp_all add: same_chan_def chan_bufs_ok_def)
  with b i show ?thesis by (simp add: relays_def set_chan_def)
qed

lemma sent_source:
  assumes ok: "world_ok w" and i: "i < length (px_channels w)"
    and len: "n \<le> bf_pos (ch_in_source (px_channels w ! i))"
  shows "relays i w (set_chan i ((px_channels w ! i)\<lparr>ch_in_source := buf_sent n (ch_in_source (px_channels w ! i))\<rparr>) w)
    [] (take n (buf_bytes (ch_in_source (px_channels w ! i)))) [] []"
proof -
  note bufs = chan_bufs [OF ok i]
  have "n \<le> length (buf_bytes (ch_in_source (px_channels w ! i)))" using len by (simp add: buf_bytes_def)
  note sent = relay.sent_law [OF bufs(1) this]
  have "keeps i w (set_chan i ((px_channels w ! i)\<lparr>ch_in_source := buf_sent n (ch_in_source (px_channels w ! i))\<rparr>) w)"
    using sent bufs by (intro keeps_set_chan [OF ok i]) (simp_all add: same_chan_def chan_bufs_ok_def)
  with sent i show ?thesis by (simp add: relays_def set_chan_def)
qed

lemma sent_target:
  assumes ok: "world_ok w" and i: "i < length (px_channels w)"
    and len: "n \<le> bf_pos (ch_in_target (px_channels w ! i))"
  shows "relays i w (set_chan i ((px_channels w ! i)\<lparr>ch_in_target := buf_sent n (ch_in_target (px_channels w ! i))\<rparr>) w)
    [] [] [] (take n (buf_bytes (ch_in_target (px_channels w ! i))))"
proof -
  note bufs = chan_bufs [OF ok i]
  have "n \<le> length (buf_bytes (ch_in_target (px_channels w ! i)))" using len by (simp add: buf_bytes_def)
  note sent = relay.sent_law [OF bufs(2) this]
  have "keeps i w (set_chan i ((px_channels w ! i)\<lparr>ch_in_target := buf_sent n (ch_in_target (px_channels w ! i))\<rparr>) w)"
    using sent bufs by (intro keeps_set_chan [OF ok i]) (simp_all add: same_chan_def chan_bufs_ok_def)
  with sent i show ?thesis by (simp add: relays_def set_chan_def)
qed

lemma relays_ok: "relays i w w' gs ss gt st \<Longrightarrow> world_ok w' \<and> length (px_channels w') = length (px_channels w)
    \<and> same_chan (px_channels w ! i) (px_channels w' ! i)"
  by (simp add: relays_def keeps_def)

text \<open>What each step takes from a socket and what it sends of the pending bytes, as functions of
  the channel before the pass.\<close>

definition got_source :: "loop_env \<Rightarrow> nat \<Rightarrow> nrdpx_channel_t \<Rightarrow> byte list" where
  "got_source le k c =
     (if ch_source c \<in> le_read le then take (buf_room (ch_in_source c)) (fst (le_recv le k (ch_source c))) else [])"

definition connected_target :: "px_env \<Rightarrow> nrdpx_proxy_t \<Rightarrow> nrdpx_channel_t \<Rightarrow> buffer_t" where
  "connected_target env w c =
     ch_in_target (if ch_connected c then c
                   else adjust_buffers (en_os env) (px_buffer_mode w) (px_max_buffer w) (en_junk env) c)"

definition got_target :: "loop_env \<Rightarrow> nat \<Rightarrow> nrdpx_proxy_t \<Rightarrow> nrdpx_channel_t \<Rightarrow> byte list" where
  "got_target le k w c =
     (if ch_target c \<in> le_read le \<and> 0 < buf_room (ch_in_target c)
      then take (buf_room (connected_target (le_env le k) w c)) (fst (le_recv le k (ch_target c))) else [])"

definition sent_to :: "loop_env \<Rightarrow> nat \<Rightarrow> int \<Rightarrow> nat" where
  "sent_to le k sock = (if sock \<in> le_write le then nat (fst (le_send le k sock)) else 0)"

lemma room_pos: "0 < buf_room b \<longleftrightarrow> bf_pos b < bf_size b"
  by (simp add: buf_room_def)

lemma send_count_take:
  "send_count le k sock pos = (n, err) \<Longrightarrow> length bs = pos \<Longrightarrow> take n bs = take (nat (fst (le_send le k sock))) bs"
  by (auto simp: send_count_def min_def split: prod.splits)

lemma read_source_relays:
  assumes ok: "world_ok w" and i: "i < length (px_channels w)"
  shows "\<exists>alive w'. read_source le k i w = Some (alive, w') \<and> relays i w w' (got_source le k (px_channels w ! i)) [] [] []
    \<and> got_target le k w' (px_channels w' ! i) = got_target le k w (px_channels w ! i)"
proof -
  let ?c = "px_channels w ! i"
  obtain bs err where r: "recv_bytes le k (ch_source ?c) (buf_room (ch_in_source ?c)) = (bs, err)" by fastforce
  have bs: "bs = take (buf_room (ch_in_source ?c)) (fst (le_recv le k (ch_source ?c)))"
    using r by (auto simp: recv_bytes_def split: prod.splits)
  from put_source [OF ok i recv_bytes_len [OF r]] obtain b where
    b: "buf_put bs (ch_in_source ?c) = Some b" "relays i w (set_chan i (?c\<lparr>ch_in_source := b\<rparr>) w) bs [] [] []" by blast
  show ?thesis
  proof (cases "ch_source ?c \<in> le_read le \<and> bf_pos (ch_in_source ?c) < bf_size (ch_in_source ?c) \<and> bs \<noteq> []")
    case True
    then have "read_source le k i w = Some (True, set_chan i (?c\<lparr>ch_in_source := b\<rparr>) w)"
      using r b by (simp add: read_source_def Let_def)
    moreover have "got_source le k ?c = bs" using True bs by (simp add: got_source_def)
    moreover have "got_target le k (set_chan i (?c\<lparr>ch_in_source := b\<rparr>) w) (?c\<lparr>ch_in_source := b\<rparr>) = got_target le k w ?c"
      by (simp add: got_target_def connected_target_def set_chan_def adjust_buffers_def)
    ultimately show ?thesis
      using b(2) i by (intro exI [of _ True] exI [of _ "set_chan i (?c\<lparr>ch_in_source := b\<rparr>) w"]) (simp add: set_chan_def)
  next
    case False
    then have "got_source le k ?c = []" using bs by (auto simp: got_source_def buf_room_def)
    then show ?thesis
      using False r relays_refl [OF ok, of i] by (auto simp: read_source_def Let_def)
  qed
qed

lemma set_connected_target:
  assumes "set_connected env i w = Some w'" "i < length (px_channels w)"
  shows "ch_in_target (px_channels w' ! i) = connected_target env w (px_channels w ! i)"
  using assms
  by (cases "ch_connected (px_channels w ! i)")
     (auto simp: set_connected_def connected_target_def set_chan_def Let_def split: Option.bind_splits)

lemma read_target_relays:
  assumes ok: "world_ok w" and i: "i < length (px_channels w)"
  shows "\<exists>alive w'. read_target le k i w = Some (alive, w') \<and> relays i w w' [] [] (got_target le k w (px_channels w ! i)) []"
proof (cases "ch_target (px_channels w ! i) \<in> le_read le
    \<and> bf_pos (ch_in_target (px_channels w ! i)) < bf_size (ch_in_target (px_channels w ! i))")
  case False
  then have "got_target le k w (px_channels w ! i) = []" by (auto simp: got_target_def room_pos)
  with False relays_refl [OF ok, of i] show ?thesis by (auto simp: read_target_def Let_def)
next
  case True
  obtain w1 where w1: "set_connected (le_env le k) i w = Some w1" "relays i w w1 [] [] [] []"
    using set_connected_relays [OF ok i] by blast
  note ok1 = relays_ok [OF w1(2)]
  let ?c = "px_channels w1 ! i"
  have i1: "i < length (px_channels w1)" and tgt: "ch_target ?c = ch_target (px_channels w ! i)"
    using ok1 i by (simp_all add: same_chan_def)
  obtain bs err where r: "recv_bytes le k (ch_target ?c) (buf_room (ch_in_target ?c)) = (bs, err)" by fastforce
  have bs: "got_target le k w (px_channels w ! i) = bs"
    using r True set_connected_target [OF w1(1) i] tgt
    by (auto simp: recv_bytes_def got_target_def room_pos split: prod.splits)
  from put_target [OF _ i1 recv_bytes_len [OF r]] ok1 obtain b where
    b: "buf_put bs (ch_in_target ?c) = Some b" "relays i w1 (set_chan i (?c\<lparr>ch_in_target := b\<rparr>) w1) [] [] bs []" by blast
  show ?thesis
  proof (cases "bs = []")
    case True
    with \<open>ch_target (px_channels w ! i) \<in> le_read le \<and> _\<close> r w1 bs show ?thesis
      by (auto simp: read_target_def Let_def)
  next
    case False
    have "relays i w (set_chan i (?c\<lparr>ch_in_target := b\<rparr>) w1) [] [] bs []"
      using relays_trans [OF w1(2) b(2)] by simp
    with False \<open>ch_target (px_channels w ! i) \<in> le_read le \<and> _\<close> r b w1 bs show ?thesis
      by (auto simp: read_target_def Let_def)
  qed
qed

lemma write_source_relays:
  assumes ok: "world_ok w" and i: "i < length (px_channels w)"
  shows "\<exists>alive w'. write_source le k i w = Some (alive, w') \<and> relays i w w' [] [] []
    (take (sent_to le k (ch_source (px_channels w ! i))) (buf_bytes (ch_in_target (px_channels w ! i))))"
proof -
  let ?c = "px_channels w ! i"
  obtain n err where r: "send_count le k (ch_source ?c) (bf_pos (ch_in_target ?c)) = (n, err)" by fastforce
  have n: "take n (buf_bytes (ch_in_target ?c)) = take (nat (fst (le_send le k (ch_source ?c)))) (buf_bytes (ch_in_target ?c))"
    by (rule send_count_take [OF r]) (simp add: buf_bytes_def)
  note s = sent_target [OF ok i send_count_le [OF r]]
  show ?thesis
  proof (cases "ch_source ?c \<in> le_write le \<and> bf_pos (ch_in_target ?c) > 0 \<and> n \<noteq> 0")
    case True
    with r s n show ?thesis by (auto simp: write_source_def sent_to_def Let_def)
  next
    case False
    then have "take (sent_to le k (ch_source ?c)) (buf_bytes (ch_in_target ?c)) = []"
      using n by (auto simp: sent_to_def buf_bytes_def)
    with False r relays_refl [OF ok, of i] show ?thesis by (auto simp: write_source_def Let_def)
  qed
qed

lemma write_target_relays:
  assumes ok: "world_ok w" and i: "i < length (px_channels w)"
  shows "\<exists>alive w'. write_target le k i w = Some (alive, w') \<and> relays i w w' []
    (take (sent_to le k (ch_target (px_channels w ! i))) (buf_bytes (ch_in_source (px_channels w ! i)))) [] []"
proof (cases "ch_target (px_channels w ! i) \<in> le_write le \<and> bf_pos (ch_in_source (px_channels w ! i)) > 0")
  case False
  then have "take (sent_to le k (ch_target (px_channels w ! i))) (buf_bytes (ch_in_source (px_channels w ! i))) = []"
    by (auto simp: sent_to_def buf_bytes_def)
  with False relays_refl [OF ok, of i] show ?thesis by (auto simp: write_target_def Let_def)
next
  case True
  obtain w1 where w1: "set_connected (le_env le k) i w = Some w1" "relays i w w1 [] [] [] []"
    using set_connected_relays [OF ok i] by blast
  note ok1 = relays_ok [OF w1(2)]
  let ?c = "px_channels w1 ! i"
  have i1: "i < length (px_channels w1)" and tgt: "ch_target ?c = ch_target (px_channels w ! i)"
    using ok1 i by (simp_all add: same_chan_def)
  have bytes: "buf_bytes (ch_in_source ?c) = buf_bytes (ch_in_source (px_channels w ! i))"
    using w1(2) by (simp add: relays_def)
  obtain n err where r: "send_count le k (ch_target ?c) (bf_pos (ch_in_source ?c)) = (n, err)" by fastforce
  have n: "take n (buf_bytes (ch_in_source ?c)) = take (nat (fst (le_send le k (ch_target ?c)))) (buf_bytes (ch_in_source ?c))"
    by (rule send_count_take [OF r]) (simp add: buf_bytes_def)
  have st: "take (sent_to le k (ch_target (px_channels w ! i))) (buf_bytes (ch_in_source (px_channels w ! i)))
      = take n (buf_bytes (ch_in_source ?c))"
    using True n tgt bytes by (simp add: sent_to_def)
  have s: "relays i w1 (set_chan i (?c\<lparr>ch_in_source := buf_sent n (ch_in_source ?c)\<rparr>) w1) []
    (take n (buf_bytes (ch_in_source ?c))) [] []"
    using ok1 by (intro sent_source [OF _ i1 send_count_le [OF r]]) simp
  have s': "relays i w (set_chan i (?c\<lparr>ch_in_source := buf_sent n (ch_in_source ?c)\<rparr>) w1) []
      (take n (buf_bytes (ch_in_source ?c))) [] []"
    using relays_trans [OF w1(2) s] by simp
  show ?thesis
    using True r w1 s' unfolding st by (cases "n = 0") (auto simp: write_target_def Let_def)
qed

text \<open>One pass over a channel takes from each socket what the socket delivers and sends on, in
  order, what it took before; when one of the steps ends the channel the later ones are skipped.\<close>

lemma chan_io_relays:
  fixes le k w i
  assumes ok: "world_ok w" and i: "i < length (px_channels w)"
  defines "c \<equiv> px_channels w ! i"
  defines "gs \<equiv> got_source le k c" and "gt \<equiv> got_target le k w c"
  shows "\<exists>alive w'. chan_io le k i w = Some (alive, w') \<and> (\<exists>gt' ss st. relays i w w' gs ss gt' st
    \<and> (gt' = gt \<or> gt' = [])
    \<and> (alive \<longrightarrow> gt' = gt \<and> ss = take (sent_to le k (ch_target c)) (buf_bytes (ch_in_source c) @ gs)
                \<and> st = take (sent_to le k (ch_source c)) (buf_bytes (ch_in_target c) @ gt)))"
proof -
  obtain a1 w1 where s1: "read_source le k i w = Some (a1, w1)" "relays i w w1 gs [] [] []"
    "got_target le k w1 (px_channels w1 ! i) = gt"
    using read_source_relays [OF ok i, of le k] unfolding gs_def gt_def c_def by blast
  note k1 = relays_ok [OF s1(2)]
  obtain a2 w2 where s2: "read_target le k i w1 = Some (a2, w2)" "relays i w1 w2 [] [] gt []"
    using read_target_relays [of w1 i le k] k1 i s1(3) by auto
  note k2 = relays_ok [OF s2(2)] and r2 = relays_trans [OF s1(2) s2(2)]
  define st where "st = take (sent_to le k (ch_source (px_channels w2 ! i))) (buf_bytes (ch_in_target (px_channels w2 ! i)))"
  obtain a3 w3 where s3: "write_source le k i w2 = Some (a3, w3)" "relays i w2 w3 [] [] [] st"
    using write_source_relays [of w2 i le k] k1 k2 i unfolding st_def by auto
  note k3 = relays_ok [OF s3(2)] and r3 = relays_trans [OF r2 s3(2)]
  define ss where "ss = take (sent_to le k (ch_target (px_channels w3 ! i))) (buf_bytes (ch_in_source (px_channels w3 ! i)))"
  obtain a4 w4 where s4: "write_target le k i w3 = Some (a4, w4)" "relays i w3 w4 [] ss [] []"
    using write_target_relays [of w3 i le k] k1 k2 k3 i unfolding ss_def by auto
  note r4 = relays_trans [OF r3 s4(2)]
  have st: "st = take (sent_to le k (ch_source c)) (buf_bytes (ch_in_target c) @ gt)"
    using k1 k2 r2 by (simp add: st_def c_def same_chan_def relays_def)
  have ss: "ss = take (sent_to le k (ch_target c)) (buf_bytes (ch_in_source c) @ gs)"
    using k1 k2 k3 r3 by (simp add: ss_def c_def same_chan_def relays_def)
  consider "\<not> a1" | "a1" "\<not> a2" | "a1" "a2" "\<not> a3" | "a1" "a2" "a3" by blast
  then show ?thesis
  proof cases
    case 1
    with s1(1,2) show ?thesis by (auto simp: chan_io_def and_then_def)
  next
    case 2
    with s1(1) s2(1) r2 show ?thesis by (auto simp: chan_io_def and_then_def)
  next
    case 3
    with s1(1) s2(1) s3(1) r3 show ?thesis by (auto simp: chan_io_def and_then_def)
  next
    case 4
    with s1(1) s2(1) s3(1) s4(1) have "chan_io le k i w = Some (a4, w4)" by (simp add: chan_io_def and_then_def)
    moreover have "relays i w w4 gs ss gt st" using r4 by simp
    ultimately show ?thesis using ss st by blast
  qed
qed

lemma chan_io_ok:
  assumes ok: "world_ok w" and i: "i < length (px_channels w)"
  shows "\<exists>alive w'. chan_io le k i w = Some (alive, w') \<and> keeps i w w'"
  using chan_io_relays [OF assms, of le k] by (auto simp: relays_def)

text \<open>The bytes that wait after a pass.\<close>

lemma chan_io_pass:
  assumes "world_ok w" "i < length (px_channels w)"
  shows "\<exists>alive w'. chan_io le k i w = Some (alive, w') \<and> world_ok w' \<and> px_fds w' = px_fds w
    \<and> (\<forall>j. j \<noteq> i \<longrightarrow> px_channels w' ! j = px_channels w ! j)
    \<and> (alive \<longrightarrow> (let c = px_channels w ! i; c' = px_channels w' ! i in
         buf_bytes (ch_in_source c')
           = drop (sent_to le k (ch_target c)) (buf_bytes (ch_in_source c) @ got_source le k c)
       \<and> buf_bytes (ch_in_target c')
           = drop (sent_to le k (ch_source c)) (buf_bytes (ch_in_target c) @ got_target le k w c)))"
proof -
  obtain alive w' gt ss st where io: "chan_io le k i w = Some (alive, w')"
    and r: "relays i w w' (got_source le k (px_channels w ! i)) ss gt st"
    and a: "alive \<longrightarrow> gt = got_target le k w (px_channels w ! i)
      \<and> ss = take (sent_to le k (ch_target (px_channels w ! i)))
               (buf_bytes (ch_in_source (px_channels w ! i)) @ got_source le k (px_channels w ! i))
      \<and> st = take (sent_to le k (ch_source (px_channels w ! i)))
               (buf_bytes (ch_in_target (px_channels w ! i)) @ got_target le k w (px_channels w ! i))"
    using chan_io_relays [OF assms, of le k] by blast
  from r have
    e1: "buf_bytes (ch_in_source (px_channels w ! i)) @ got_source le k (px_channels w ! i)
      = ss @ buf_bytes (ch_in_source (px_channels w' ! i))"
    and e2: "buf_bytes (ch_in_target (px_channels w ! i)) @ gt = st @ buf_bytes (ch_in_target (px_channels w' ! i))"
    by (simp_all add: relays_def)
  have "alive \<Longrightarrow> buf_bytes (ch_in_source (px_channels w' ! i)) = drop (sent_to le k (ch_target (px_channels w ! i)))
      (buf_bytes (ch_in_source (px_channels w ! i)) @ got_source le k (px_channels w ! i))"
    "alive \<Longrightarrow> buf_bytes (ch_in_target (px_channels w' ! i)) = drop (sent_to le k (ch_source (px_channels w ! i)))
      (buf_bytes (ch_in_target (px_channels w ! i)) @ got_target le k w (px_channels w ! i))"
    using pending_drop [OF e1] pending_drop [OF e2] a by blast+
  with io r show ?thesis unfolding Let_def relays_def keeps_def by blast
qed

subsection \<open>Passes and iterations\<close>

lemma count_fault_slots [simp]: "sv_num_slots (count_fault m s) = sv_num_slots s"
  by (simp add: count_fault_def nrdpx_server_deactivate_def Let_def)

lemma connect_failed_ok:
  assumes ok: "world_ok w" and i: "i < length (px_channels w)"
  shows "\<exists>w'. connect_failed le k i w = Some w' \<and> world_ok w'"
proof -
  let ?c = "px_channels w ! i"
  obtain s where s: "chan_server ?c w = Some s" "s < length (px_servers w)"
    using chan_server_ok [OF ok nth_mem [OF i]] by blast
  let ?w1 = "w\<lparr>px_servers := (px_servers w)[s := count_fault (px_max_faults w) (px_servers w ! s)]\<rparr>"
  have w1: "world_ok ?w1" using s(2) by (intro set_server_ok [OF ok]) simp_all
  obtain new w2 where w2: "nrdpx_channel_create (le_env le k) (ch_source ?c) (le_now le) (Some s) ?w1 = Some (new, w2)"
    "world_ok w2" "\<exists>cs. px_channels w2 = px_channels w @ cs"
  proof -
    from channel_create_ok [OF w1, of "le_env le k" "ch_source ?c" "le_now le" "Some s"] obtain res w' where
      r: "nrdpx_channel_create (le_env le k) (ch_source ?c) (le_now le) (Some s) ?w1 = Some (res, w')" "world_ok w'"
      "case res of None \<Rightarrow> px_channels w' = px_channels ?w1
       | Some a \<Rightarrow> \<exists>c'. ch_addr c' = a \<and> ch_source c' = ch_source ?c \<and> px_channels w' = px_channels ?w1 @ [c']" by blast
    then have "\<exists>cs. px_channels w' = px_channels w @ cs" by (cases res) auto
    with r that show ?thesis by blast
  qed
  have i2: "i < length (px_channels w2)" and c2: "px_channels w2 ! i = ?c"
    using w2(3) i by (auto simp: nth_append)
  have w3: "world_ok (set_chan i ((px_channels w2 ! i)\<lparr>ch_source := NRD_NOSOCK\<rparr>) w2)"
    using chan_bufs [OF w2(2) i2] by (intro set_chan_ok [OF w2(2) i2]) (simp_all add: chan_bufs_ok_def)
  from del_channel_ok [OF w3, of "en_time (le_env le k)" "ch_addr ?c"] s w2 show ?thesis
    by (auto simp: connect_failed_def Let_def nrdpx_channel_delete_def)
qed

lemma chan_pass_ok:
  assumes ok: "world_ok w" and i: "i < length (px_channels w)"
  shows "\<exists>i' w'. chan_pass le k i w = Some (i', w') \<and> world_ok w'"
proof (cases "connect_error le k w (px_channels w ! i) \<noteq> 0")
  case True
  with connect_failed_ok [OF ok i, of le k] show ?thesis by (auto simp: chan_pass_def Let_def)
next
  case False
  from chan_io_ok [OF ok i, of le k] obtain alive w1 where
    w1: "chan_io le k i w = Some (alive, w1)" "world_ok w1" by (auto simp: keeps_def)
  from del_channel_ok [OF w1(2)] obtain w2 where
    "del_channel (en_time (le_env le k)) (ch_addr (px_channels w ! i)) w1 = Some w2" "world_ok w2" by blast
  with False w1 ok show ?thesis by (auto simp: chan_pass_def Let_def nrdpx_channel_delete_def)
qed

lemma chan_loop_ok:
  "world_ok w \<Longrightarrow> \<exists>fin w'. chan_loop fuel le k i w = Some (fin, w') \<and> world_ok w'"
proof (induction fuel arbitrary: k i w)
  case (Suc fuel)
  show ?case
  proof (cases "i < length (px_channels w)")
    case True
    from chan_pass_ok [OF Suc.prems True, of le k] obtain i' w' where
      p: "chan_pass le k i w = Some (i', w')" "world_ok w'" by blast
    from Suc.IH [OF p(2), of "k + 1" i'] True p(1) show ?thesis by auto
  qed (use Suc.prems in auto)
qed auto

text \<open>The loop over channels that are connected ends: each pass leaves the channels it has not
  reached as they are, and there is one fewer of them.\<close>

lemma chan_pass_moves:
  assumes ok: "world_ok w" and i: "i < length (px_channels w)"
    and err: "connect_error le k w (px_channels w ! i) = 0"
  shows "\<exists>i' w'. chan_pass le k i w = Some (i', w') \<and> world_ok w'
    \<and> drop i' (px_channels w') = drop (Suc i) (px_channels w)"
proof -
  obtain alive w1 where w1: "chan_io le k i w = Some (alive, w1)" "keeps i w w1"
    using chan_io_ok [OF ok i, of le k] by blast
  have len: "length (px_channels w1) = length (px_channels w)" and ok1: "world_ok w1"
    and addr: "ch_addr (px_channels w1 ! i) = ch_addr (px_channels w ! i)"
    using w1(2) by (simp_all add: keeps_def same_chan_def)
  have rest: "drop (Suc i) (px_channels w1) = drop (Suc i) (px_channels w)"
    by (rule nth_equalityI) (use w1(2) len in \<open>simp_all add: keeps_def\<close>)
  show ?thesis
  proof (cases "le_sel_rc le = 0 \<or> alive")
    case True
    then show ?thesis using err ok ok1 rest w1(1) by (auto simp: chan_pass_def Let_def)
  next
    case False
    obtain w2 where w2: "del_channel (en_time (le_env le k)) (ch_addr (px_channels w1 ! i)) w1 = Some w2" "world_ok w2"
      "px_channels w2 = take i (px_channels w1) @ drop (Suc i) (px_channels w1)"
      using del_channel_nth [OF ok1] i len by metis
    have "drop i (px_channels w2) = drop (Suc i) (px_channels w)" using w2(3) i len rest by simp
    with False err w1(1) w2(1,2) addr show ?thesis
      by (auto simp: chan_pass_def Let_def nrdpx_channel_delete_def)
  qed
qed

text \<open>The end of a connection is seen before what waits is sent: the channel goes at once.\<close>

lemma closed_source_ends:
  assumes ok: "world_ok w" and i: "i < length (px_channels w)" and c: "c = px_channels w ! i"
    and sel: "connect_error le k w c = 0" "le_sel_rc le \<noteq> 0"
    and src: "ch_source c \<in> le_read le" "bf_pos (ch_in_source c) < bf_size (ch_in_source c)"
    and rc: "le_recv le k (ch_source c) = ([], err)" "is_error_fatal err False"
  shows "\<exists>w'. chan_pass le k i w = Some (i, w') \<and> px_channels w' = take i (px_channels w) @ drop (Suc i) (px_channels w)
    \<and> px_fds w' = nrdpx_socket_close (nrdpx_socket_close (px_fds w) (ch_source c)) (ch_target c)"
proof -
  have "chan_io le k i w = Some (False, w)"
    using c src rc by (simp add: chan_io_def and_then_def read_source_def recv_bytes_def Let_def)
  with sel c del_channel_nth [OF ok i, of "en_time (le_env le k)"] show ?thesis
    by (auto simp: chan_pass_def Let_def nrdpx_channel_delete_def)
qed

lemma chan_loop_connected:
  "world_ok w \<Longrightarrow> \<forall>c\<in>set (drop i (px_channels w)). ch_connected c \<Longrightarrow> length (px_channels w) - i \<le> fuel \<Longrightarrow>
     \<exists>w'. chan_loop fuel le k i w = Some (True, w') \<and> world_ok w'"
proof (induction fuel arbitrary: k i w)
  case (Suc fuel)
  show ?case
  proof (cases "i < length (px_channels w)")
    case True
    have "px_channels w ! i \<in> set (drop i (px_channels w))"
      using True by (simp add: Cons_nth_drop_Suc [symmetric])
    with Suc.prems(2) have "ch_connected (px_channels w ! i)" by blast
    then have "connect_error le k w (px_channels w ! i) = 0" by (simp add: connect_error_def)
    from chan_pass_moves [OF Suc.prems(1) True this] obtain i' w' where
      p: "chan_pass le k i w = Some (i', w')" "world_ok w'" "drop i' (px_channels w') = drop (Suc i) (px_channels w)"
      by blast
    have "length (px_channels w') - i' = length (px_channels w) - Suc i" using arg_cong [OF p(3), of length] by simp
    then have l: "length (px_channels w') - i' \<le> fuel" using Suc.prems(3) True by simp
    have "set (drop (Suc i) (px_channels w)) \<subseteq> set (drop i (px_channels w))"
      by (rule set_drop_subset_set_drop) simp
    then have c: "\<forall>c\<in>set (drop i' (px_channels w')). ch_connected c" using Suc.prems(2) p(3) by auto
    from Suc.IH [OF p(2) c l, of "k + 1"] obtain w'' where
      "chan_loop fuel le (k + 1) i' w' = Some (True, w'')" "world_ok w''" by blast
    with True p(1) show ?thesis by simp
  qed (use Suc.prems in auto)
qed auto

lemma accept_loop_ok: "world_ok w \<Longrightarrow> \<exists>w'. accept_loop le k ls w = Some w' \<and> world_ok w'"
proof (induction ls arbitrary: k w)
  case (Cons l ls)
  obtain sd fds where a: "nrdpx_socket_accept (en_os (le_env le k)) (px_fds w) (ls_sock l) = (sd, fds)" by fastforce
  have "world_ok (w\<lparr>px_fds := fds\<rparr>)" using Cons.prems by simp
  from channel_create_ok [OF this, of "le_env le k" sd "le_now le" None] obtain res w1 where
    w1: "nrdpx_channel_create (le_env le k) sd (le_now le) None (w\<lparr>px_fds := fds\<rparr>) = Some (res, w1)" "world_ok w1"
    by blast
  from a w1 Cons.IH [OF w1(2), of "k + 1"] Cons.IH [OF \<open>world_ok (w\<lparr>px_fds := fds\<rparr>)\<close>, of "k + 1"]
    Cons.IH [OF Cons.prems, of "k + 1"]
  show ?case by (simp add: Let_def)
qed simp

lemma main_iteration_ok:
  assumes ok: "world_ok w" and f: "fill_fds True True w \<noteq> None"
  shows "\<exists>it. main_iteration fuel le w = Some it \<and> (case it of Selector_failed \<Rightarrow> True | Iterated fin w' \<Rightarrow> world_ok w')"
proof -
  obtain R W m where RW: "fill_fds True True w = Some (R, W, m)" using f by (metis not_None_eq prod_cases3)
  let ?le = "le_selected le R W"
  have "\<exists>w1. (if le_sel_rc ?le \<noteq> 0 then accept_loop ?le 0 (px_listeners w) w else Some w) = Some w1 \<and> world_ok w1"
    using accept_loop_ok [OF ok, of ?le 0 "px_listeners w"] ok by (cases "le_sel_rc ?le = 0") simp_all
  then obtain w1 where
    w1: "(if le_sel_rc ?le \<noteq> 0 then accept_loop ?le 0 (px_listeners w) w else Some w) = Some w1" "world_ok w1" by blast
  obtain fin w2 where w2: "chan_loop fuel ?le (length (px_listeners w1)) 0 w1 = Some (fin, w2)" "world_ok w2"
    using chan_loop_ok [OF w1(2)] by blast
  show ?thesis
  proof (cases "le_sel_rc ?le < 0 \<and> is_error_fatal (le_sel_errno ?le) False")
    case True
    then show ?thesis using RW by (simp add: main_iteration_def Let_def)
  next
    case False
    then have "main_iteration fuel le w = Some (Iterated fin w2)"
      unfolding main_iteration_def RW using w1(1) w2(1) by (simp only: Let_def bind.bind_lunit case_prod_conv if_False)
    with w2(2) show ?thesis by simp
  qed
qed

subsection \<open>Which sockets are watched\<close>

definition fd_valid :: "int \<Rightarrow> bool" where
  "fd_valid fd \<longleftrightarrow> 0 \<le> fd \<and> fd < FD_SETSIZE"

definition reads_of :: "nrdpx_channel_t \<Rightarrow> int set" where
  "reads_of c = (if bf_pos (ch_in_source c) < bf_size (ch_in_source c) then {ch_source c} else {})
     \<union> (if bf_pos (ch_in_target c) < bf_size (ch_in_target c) then {ch_target c} else {})"

definition writes_of :: "nrdpx_channel_t \<Rightarrow> int set" where
  "writes_of c = (if bf_pos (ch_in_source c) > 0 then {ch_target c} else {})
     \<union> (if bf_pos (ch_in_target c) > 0 then {ch_source c} else {})"

text \<open>\<open>m\<close> is at least every descriptor of a set, and one of them unless it is the start value.\<close>

definition fd_max :: "int set \<Rightarrow> int \<Rightarrow> bool" where
  "fd_max S m \<longleftrightarrow> (\<forall>fd\<in>S. fd \<le> m) \<and> (m = NRD_NOSOCK \<or> m \<in> S)"

lemma watch_valid:
  "cond \<longrightarrow> fd_valid fd \<Longrightarrow> \<exists>m'. watch cond fd (S, m) = Some (S \<union> (if cond then {fd} else {}), m')
     \<and> (\<forall>T. S \<subseteq> T \<longrightarrow> fd_max T m \<longrightarrow> fd_max (T \<union> (if cond then {fd} else {})) m')"
  by (auto simp: watch_def FD_SET_def fd_valid_def fd_max_def)

lemma watch_invalid: "cond \<Longrightarrow> \<not> fd_valid fd \<Longrightarrow> watch cond fd s = None"
  by (cases s) (simp add: watch_def FD_SET_def fd_valid_def)

lemma fill_listeners_spec:
  "\<forall>l\<in>set ls. fd_valid (ls_sock l) \<Longrightarrow> fd_max S m \<Longrightarrow>
     \<exists>m'. fill_listeners ls (S, m) = Some (S \<union> ls_sock ` set ls, m') \<and> fd_max (S \<union> ls_sock ` set ls) m'"
proof (induction ls arbitrary: S m)
  case (Cons l ls)
  obtain m1 where m1: "watch True (ls_sock l) (S, m) = Some (S \<union> {ls_sock l}, m1)" "fd_max (S \<union> {ls_sock l}) m1"
    using watch_valid [of True "ls_sock l" S m] Cons.prems by auto
  from Cons.IH [OF _ m1(2)] Cons.prems m1(1) show ?case by auto
qed simp

lemma fill_channel_spec:
  assumes "fd_valid (ch_source c)" "fd_valid (ch_target c)" "fd_max (R \<union> W) m"
  shows "\<exists>m'. fill_channel True True c (R, W, m) = Some (R \<union> reads_of c, W \<union> writes_of c, m')
    \<and> fd_max ((R \<union> reads_of c) \<union> (W \<union> writes_of c)) m'"
proof -
  let ?a = "bf_pos (ch_in_source c) < bf_size (ch_in_source c)" and ?b = "bf_pos (ch_in_target c) < bf_size (ch_in_target c)"
  let ?d = "bf_pos (ch_in_source c) > 0" and ?e = "bf_pos (ch_in_target c) > 0"
  let ?R1 = "R \<union> (if ?a then {ch_source c} else {})"
  let ?R2 = "?R1 \<union> (if ?b then {ch_target c} else {})"
  let ?W1 = "W \<union> (if ?d then {ch_target c} else {})"
  let ?W2 = "?W1 \<union> (if ?e then {ch_source c} else {})"
  obtain m1 where m1: "watch ?a (ch_source c) (R, m) = Some (?R1, m1)" "fd_max (R \<union> W \<union> (if ?a then {ch_source c} else {})) m1"
    using watch_valid [of ?a "ch_source c" R m] assms by blast
  have sub1: "?R1 \<subseteq> R \<union> W \<union> (if ?a then {ch_source c} else {})"
    and sub2: "W \<subseteq> (R \<union> W \<union> (if ?a then {ch_source c} else {})) \<union> (if ?b then {ch_target c} else {})" by blast+
  obtain m2 where m2: "watch ?b (ch_target c) (?R1, m1) = Some (?R2, m2)"
    "fd_max ((R \<union> W \<union> (if ?a then {ch_source c} else {})) \<union> (if ?b then {ch_target c} else {})) m2"
    using watch_valid [of ?b "ch_target c" ?R1 m1] assms(2) m1(2) sub1 by blast
  obtain m3 where m3: "watch ?d (ch_target c) (W, m2) = Some (?W1, m3)"
    "fd_max (((R \<union> W \<union> (if ?a then {ch_source c} else {})) \<union> (if ?b then {ch_target c} else {})) \<union> (if ?d then {ch_target c} else {})) m3"
    using watch_valid [of ?d "ch_target c" W m2] assms(2) m2(2) sub2 by blast
  have sub: "?W1 \<subseteq> ((R \<union> W \<union> (if ?a then {ch_source c} else {})) \<union> (if ?b then {ch_target c} else {})) \<union> (if ?d then {ch_target c} else {})"
    by blast
  obtain m4 where m4: "watch ?e (ch_source c) (?W1, m3) = Some (?W2, m4)"
    "fd_max ((((R \<union> W \<union> (if ?a then {ch_source c} else {})) \<union> (if ?b then {ch_target c} else {})) \<union> (if ?d then {ch_target c} else {}))
       \<union> (if ?e then {ch_source c} else {})) m4"
    using watch_valid [of ?e "ch_source c" ?W1 m3] assms(1) m3(2) sub by blast
  have sets: "?R2 = R \<union> reads_of c" "?W2 = W \<union> writes_of c" unfolding reads_of_def writes_of_def by blast+
  have "fill_channel True True c (R, W, m) = Some (?R2, ?W2, m4)"
    using m1(1) m2(1) m3(1) m4(1) by (simp add: fill_channel_def del: Un_insert_right)
  moreover have "(((R \<union> W \<union> (if ?a then {ch_source c} else {})) \<union> (if ?b then {ch_target c} else {})) \<union> (if ?d then {ch_target c} else {}))
       \<union> (if ?e then {ch_source c} else {}) = ?R2 \<union> ?W2" by blast
  ultimately show ?thesis using m4(2) sets by simp
qed

lemma fill_channels_spec:
  "\<forall>c\<in>set cs. fd_valid (ch_source c) \<and> fd_valid (ch_target c) \<Longrightarrow> fd_max (R \<union> W) m \<Longrightarrow>
     \<exists>m'. fill_channels True True cs (R, W, m) = Some (R \<union> \<Union>(reads_of ` set cs), W \<union> \<Union>(writes_of ` set cs), m')
       \<and> fd_max ((R \<union> \<Union>(reads_of ` set cs)) \<union> (W \<union> \<Union>(writes_of ` set cs))) m'"
proof (induction cs arbitrary: R W m)
  case (Cons c cs)
  obtain m1 where m1: "fill_channel True True c (R, W, m) = Some (R \<union> reads_of c, W \<union> writes_of c, m1)"
    "fd_max ((R \<union> reads_of c) \<union> (W \<union> writes_of c)) m1"
    using fill_channel_spec [of c R W m] Cons.prems by auto
  from Cons.IH [OF _ m1(2)] Cons.prems(1) m1(1) show ?case by (simp add: Un_assoc)
qed simp

lemma fill_fds_spec:
  assumes "\<forall>l\<in>set (px_listeners w). fd_valid (ls_sock l)"
    "\<forall>c\<in>set (px_channels w). fd_valid (ch_source c) \<and> fd_valid (ch_target c)"
  shows "\<exists>m. fill_fds True True w = Some (ls_sock ` set (px_listeners w) \<union> \<Union>(reads_of ` set (px_channels w)),
      \<Union>(writes_of ` set (px_channels w)), m)
    \<and> fd_max (ls_sock ` set (px_listeners w) \<union> \<Union>(reads_of ` set (px_channels w)) \<union> \<Union>(writes_of ` set (px_channels w))) m"
proof -
  obtain m where m: "fill_listeners (px_listeners w) ({}, NRD_NOSOCK) = Some (ls_sock ` set (px_listeners w), m)"
    "fd_max (ls_sock ` set (px_listeners w)) m"
    using fill_listeners_spec [OF assms(1), of "{}" NRD_NOSOCK] by (auto simp: fd_max_def)
  with fill_channels_spec [OF assms(2), of "ls_sock ` set (px_listeners w)" "{}" m]
  show ?thesis by (simp add: fill_fds_def)
qed

text \<open>A descriptor that \<open>fd_set\<close> has no bit for.\<close>

lemma fill_channels_overflow:
  "c \<in> set cs \<Longrightarrow> bf_pos (ch_in_source c) < bf_size (ch_in_source c) \<Longrightarrow> \<not> fd_valid (ch_source c) \<Longrightarrow>
     fill_channels True True cs s = None"
proof (induction cs arbitrary: s)
  case (Cons d cs)
  show ?case
  proof (cases "c = d")
    case True
    obtain R W m where s: "s = (R, W, m)" by (metis prod_cases3)
    with Cons.prems True show ?thesis by (simp add: fill_channel_def watch_invalid)
  next
    case False
    with Cons have "fill_channels True True cs s' = None" for s' by simp
    then show ?thesis by (cases "fill_channel True True d s") simp_all
  qed
qed simp

text \<open>An iteration on descriptors below \<open>FD_SETSIZE\<close>, whatever \<open>select\<close> and the sockets answer.\<close>

lemma main_iteration_safe:
  assumes "world_ok w" "\<forall>l\<in>set (px_listeners w). fd_valid (ls_sock l)"
    "\<forall>c\<in>set (px_channels w). fd_valid (ch_source c) \<and> fd_valid (ch_target c)"
  shows "\<exists>it. main_iteration fuel le w = Some it \<and> (case it of Selector_failed \<Rightarrow> True | Iterated fin w' \<Rightarrow> world_ok w')"
  using main_iteration_ok [OF assms(1)] fill_fds_spec [OF assms(2,3)] by fastforce

text \<open>Every channel is watched for reading or for writing.\<close>

lemma channel_watched:
  assumes "chan_bufs_ok c" "0 < bf_size (ch_in_source c)"
  shows "reads_of c \<noteq> {} \<or> writes_of c \<noteq> {}"
  using assms by (auto simp: reads_of_def writes_of_def chan_bufs_ok_def buf_ok_def)

end
