(* ===== verification/Nrdtype.thy ===== *)
theory Nrdtype
  imports Prelude
begin

text \<open>
  \<open>src/src/com/include/nrdtype.h\<close>: the numbers and the macros that put a word together from two
  halves and take it apart.  A cast between the integer types keeps or cuts the bits.
\<close>

unbundle bit_operations_syntax

definition NRD_MAXUINT :: "32 word" where "NRD_MAXUINT = 0xFFFFFFFF"
definition NRD_MAXUSHORT :: "16 word" where "NRD_MAXUSHORT = 0xFFFF"
definition NRD_MAXUCHAR :: "8 word" where "NRD_MAXUCHAR = 0xFF"
definition NRD_MAXINT :: int where "NRD_MAXINT = 0x7FFFFFFF"
definition NRD_MAXSHORT :: int where "NRD_MAXSHORT = 0x7FFF"
definition NRD_MAXCHAR :: int where "NRD_MAXCHAR = 0x7F"

definition NRD_MAKELONG :: "32 word \<Rightarrow> 32 word \<Rightarrow> 32 word" where
  "NRD_MAKELONG lo hi =
     ucast (ucast (lo AND 0xFFFF) :: 16 word) OR push_bit 16 (ucast (ucast (hi AND 0xFFFF) :: 16 word))"

definition NRD_MAKEUINT :: "32 word \<Rightarrow> 32 word \<Rightarrow> 32 word" where
  "NRD_MAKEUINT lo hi = NRD_MAKELONG lo hi"

definition NRD_LOSHORT :: "32 word \<Rightarrow> 16 word" where "NRD_LOSHORT l = ucast (l AND 0xFFFF)"
definition NRD_HISHORT :: "32 word \<Rightarrow> 16 word" where "NRD_HISHORT l = ucast (drop_bit 16 l)"
definition NRD_LOWORD :: "32 word \<Rightarrow> 16 word" where "NRD_LOWORD l = NRD_LOSHORT l"
definition NRD_HIWORD :: "32 word \<Rightarrow> 16 word" where "NRD_HIWORD l = NRD_HISHORT l"

text \<open>The halves are what the word was made of, and the word is made of its halves.\<close>

lemma bit_low: "bit (0xFFFF :: int) n \<longleftrightarrow> n < 16"
proof -
  have "(0xFFFF :: int) = mask 16" by (simp add: mask_eq_exp_minus_1)
  then show ?thesis by (simp only: bit_mask_iff) simp
qed

lemma bit_makelong:
  "bit (NRD_MAKELONG lo hi) n \<longleftrightarrow> (if n < 16 then bit lo n else n < 32 \<and> bit hi (n - 16))"
  by (auto simp: NRD_MAKELONG_def bit_or_iff bit_unsigned_iff bit_and_iff bit_push_bit_iff bit_low dest: bit_imp_le_length)

lemma halves_of_makelong:
  "NRD_LOWORD (NRD_MAKELONG lo hi) = ucast lo" "NRD_HIWORD (NRD_MAKELONG lo hi) = ucast hi"
  by (auto intro!: bit_eqI simp: NRD_LOWORD_def NRD_HIWORD_def NRD_LOSHORT_def NRD_HISHORT_def bit_unsigned_iff
      bit_and_iff bit_drop_bit_eq bit_makelong bit_low dest: bit_imp_le_length)

lemma makelong_of_halves: "NRD_MAKELONG (ucast (NRD_LOWORD l)) (ucast (NRD_HIWORD l)) = l"
  by (auto intro!: bit_eqI simp: NRD_LOWORD_def NRD_HIWORD_def NRD_LOSHORT_def NRD_HISHORT_def bit_unsigned_iff
      bit_and_iff bit_drop_bit_eq bit_makelong bit_low dest: bit_imp_le_length split: if_splits)

end
