(* ===== verification/Tracker.thy ===== *)
theory Tracker
  imports Mainloop Nrdtype
begin

text \<open>
  \<open>nrdpx_check_server\<close> and \<open>nrdpx_info_callback\<close> of \<open>src/src/nrdpx_server.cpp\<close>: how the
  servers' status follows the events of the network browser and its timer.

  \<open>nrdpx_check_server\<close> has its static \<open>_check_socket\<close> as an argument and result; its steps, with
  signals between them, are in \<open>Checker\<close>, those of the callback in \<open>Interleave\<close>.  The
  clock \<open>clk\<close> gives the readings of \<open>time\<close> during a callback in their order; \<open>k\<close> is the
  number of the last reading, which the local variable \<open>now\<close> holds.  The requests for information that the callback
  makes are returned as a list of host and port.
\<close>

definition NRDNBT_INFO :: byte where "NRDNBT_INFO = 1"

definition info_proto :: "32 word" where "info_proto = NRD_MAKEUINT 0 5"

subsection \<open>Checking a server\<close>

record check_state =
  ck_socket :: int
  ck_fds :: "int set"

definition check_close :: "check_state \<Rightarrow> check_state" where
  "check_close ck = \<lparr>ck_socket = NRD_NOSOCK, ck_fds = nrdpx_socket_close (ck_fds ck) (ck_socket ck)\<rparr>"

definition nrdpx_check_server ::
  "sock_os \<Rightarrow> resolver \<Rightarrow> string \<Rightarrow> int \<Rightarrow> check_state \<Rightarrow> bool \<times> check_state" where
  "nrdpx_check_server os R host port ck =
     (let ck = (if ck_socket ck \<noteq> NRD_NOSOCK then check_close ck else ck) in
      if port = 0 \<or> host = [] then (False, ck)
      else case host_to_addr R host False of
        None \<Rightarrow> (False, ck)
      | Some addr \<Rightarrow>
          let (sock, fds) = nrdpx_socket_create os (ck_fds ck) (sa_family addr) True;
              ck = \<lparr>ck_socket = sock, ck_fds = fds\<rparr>
          in if sock = NRD_NOSOCK then (False, ck)
             else let addr = fst (set_addr_port addr port);
                      ret = (nrdpx_socket_connect os sock (Some addr) = 0)
                  in (ret, check_close ck))"

subsection \<open>Events\<close>

text \<open>A message about the server \<open>s\<close>.\<close>

definition sync_server :: "nrdpx_server_t \<Rightarrow> nrdpx_server_t" where
  "sync_server s =
     (let s = (if ni_cmax (sv_info s) \<noteq> 0 \<and> uint (ni_cmax (sv_info s)) < sv_max_slots s
               then s\<lparr>sv_max_slots := uint (ni_cmax (sv_info s))\<rparr> else s)
      in if svc_port (sv_info s) \<noteq> 0 \<and> word_of_int (sv_port s) \<noteq> svc_port (sv_info s)
         then s\<lparr>sv_port := sint (svc_port (sv_info s))\<rparr> else s)"

definition tracker_item :: "int \<Rightarrow> int \<Rightarrow> HNRD_NBSITEM \<Rightarrow> nrdpx_server_t \<Rightarrow> nrdpx_server_t" where
  "tracker_item now info_period item s =
     (if sv_check_mode s \<ge> CHECK_INFO \<and> \<not> sv_first_check s then
        let s = s\<lparr>sv_info_time := now + info_period\<rparr> in
        if svc_pver (it_info item) \<noteq> info_proto then s\<lparr>sv_check_mode := CHECK_CONN\<rparr>
        else if it_state item = NRDNBS_HERE \<or> it_state item = NRDNBS_LIST then
          let s = s\<lparr>sv_info := it_info item\<rparr> in
          if sv_check_mode s \<ge> CHECK_SYNC then sync_server s else s
        else if it_state item = NRDNBS_LOST then nrdpx_server_deactivate s
        else s
      else s)"

text \<open>The timer: the status check, and whether the server's information is requested.  Each of
  them reads the clock again when it has done its work.\<close>

definition tracker_status ::
  "sock_os \<Rightarrow> resolver \<Rightarrow> bool \<Rightarrow> (nat \<Rightarrow> int) \<Rightarrow> nat \<Rightarrow> int \<Rightarrow> nrdpx_server_t \<Rightarrow> check_state
   \<Rightarrow> nrdpx_server_t \<times> check_state \<times> nat" where
  "tracker_status os R terminated clk k status_period s ck =
     (if sv_check_mode s \<ge> CHECK_CONN \<and> (sv_first_check s \<or> clk k > sv_stat_time s) then
        let (s, ck) =
          (if \<not> terminated \<and> (sv_first_check s \<or> \<not> nrdpx_server_is_active (Some s)
                                 \<or> nrdpx_server_slot_count (Some s) = 0)
           then (let (ret, ck) = nrdpx_check_server os R (sv_host s) (sv_port s) ck in
                 (if ret then nrdpx_server_activate s else nrdpx_server_deactivate s, ck))
           else (s, ck))
        in (s\<lparr>sv_stat_time := clk (k + 1) + status_period\<rparr>, ck, k + 1)
      else (s, ck, k))"

definition tracker_timer ::
  "sock_os \<Rightarrow> resolver \<Rightarrow> bool \<Rightarrow> (nat \<Rightarrow> int) \<Rightarrow> nat \<Rightarrow> int \<Rightarrow> int \<Rightarrow> nrdpx_server_t \<Rightarrow> check_state
   \<Rightarrow> nrdpx_server_t \<times> check_state \<times> nat \<times> (string \<times> int) list" where
  "tracker_timer os R terminated clk k status_period info_period s ck =
     (let (s, ck, k) = tracker_status os R terminated clk k status_period s ck;
          active = nrdpx_server_is_active (Some s);
          s = s\<lparr>sv_first_check := False\<rparr>
      in if active \<and> sv_check_mode s \<ge> CHECK_INFO \<and> clk k > sv_info_time s
         then (s\<lparr>sv_info_time := clk (k + 1) + info_period\<rparr>, ck, k + 1, [(sv_host s, sv_info_port s)])
         else (s, ck, k, []))"

text \<open>The item an event carries; an item with another data type counts as none.\<close>

fun event_item :: "nb_event \<Rightarrow> HNRD_NBSITEM option" where
  "event_item (EVT_SVRINFO item) = Some item"
| "event_item (EVT_SVRHERE item) = Some item"
| "event_item (EVT_SVRLOST item) = Some item"
| "event_item ev = None"

fun event_logged :: "nb_event \<Rightarrow> bool" where
  "event_logged (EVT_SVRINFO item) = False"
| "event_logged (EVT_SVRHERE item) = False"
| "event_logged (EVT_SVRLOST item) = False"
| "event_logged EVT_ONTIMER = False"
| "event_logged ev = True"

definition valid_item :: "nb_event \<Rightarrow> HNRD_NBSITEM option" where
  "valid_item ev = (case event_item ev of
     None \<Rightarrow> None
   | Some item \<Rightarrow> if ni_type (it_info item) \<noteq> NRDNBT_INFO then None else Some item)"

fun tracker_loop ::
  "sock_os \<Rightarrow> resolver \<Rightarrow> bool \<Rightarrow> (nat \<Rightarrow> int) \<Rightarrow> nat \<Rightarrow> nrdpx_proxy_t \<Rightarrow> HNRD_NBSITEM option
   \<Rightarrow> nrdpx_server_t list \<Rightarrow> check_state \<Rightarrow> nrdpx_server_t list \<times> check_state \<times> (string \<times> int) list" where
  "tracker_loop os R terminated clk k px item [] ck = ([], ck, [])"
| "tracker_loop os R terminated clk k px item (s # ss) ck =
     (let (s, ck, k, rq1) =
        (case item of
           Some it \<Rightarrow>
             (if is_same_host R (sv_host s) (it_host it)
              then (tracker_item (clk k) (px_info_period px) it s, ck, k, []) else (s, ck, k, []))
         | None \<Rightarrow> tracker_timer os R terminated clk k (px_status_period px) (px_info_period px) s ck);
        (ss, ck, rq2) = tracker_loop os R terminated clk k px item ss ck
      in (s # ss, ck, rq1 @ rq2))"

definition nrdpx_info_callback ::
  "sock_os \<Rightarrow> resolver \<Rightarrow> bool \<Rightarrow> (nat \<Rightarrow> int) \<Rightarrow> nb_event \<Rightarrow> nrdpx_proxy_t \<Rightarrow> check_state
   \<Rightarrow> nrdpx_proxy_t \<times> check_state \<times> (string \<times> int) list" where
  "nrdpx_info_callback os R terminated clk ev px ck =
     (if event_logged ev then (px, ck, [])
      else let (ss, ck, rq) = tracker_loop os R terminated clk 0 px (valid_item ev) (px_servers px) ck
           in (px\<lparr>px_servers := ss\<rparr>, ck, rq))"

subsection \<open>Facts\<close>

text \<open>A check leaves no socket behind, whatever it finds.\<close>

lemma check_server_closed:
  assumes "\<And>fam. sys_socket os fam \<notin> fds" "nrdpx_check_server os R host port \<lparr>ck_socket = NRD_NOSOCK, ck_fds = fds\<rparr> = (ret, ck)"
  shows "ck = \<lparr>ck_socket = NRD_NOSOCK, ck_fds = fds\<rparr>"
proof -
  have cl: "nrdpx_socket_close fds' NRD_NOSOCK = fds'" for fds' by (simp add: nrdpx_socket_close_def)
  have cr: "s \<noteq> NRD_NOSOCK \<Longrightarrow> nrdpx_socket_create os fds fam True = (s, fds') \<Longrightarrow> nrdpx_socket_close fds' s = fds"
    "nrdpx_socket_create os fds fam True = (NRD_NOSOCK, fds') \<Longrightarrow> fds' = fds" for s fam fds'
    using assms(1) [of fam] by (auto simp: nrdpx_socket_create_def nrdpx_socket_close_def Let_def socket_consts split: if_splits)
  from assms(2) show ?thesis
    by (auto simp: nrdpx_check_server_def check_close_def Let_def cl dest: cr split: if_splits option.splits prod.splits)
qed

lemma server_slots_kept [simp]:
  "sv_num_slots (nrdpx_server_deactivate s) = sv_num_slots s" "sv_num_slots (nrdpx_server_activate s) = sv_num_slots s"
  "sv_num_slots (sync_server s) = sv_num_slots s"
  by (simp_all add: nrdpx_server_deactivate_def nrdpx_server_activate_def sync_server_def Let_def)

lemma tracker_item_slots [simp]: "sv_num_slots (tracker_item now p it s) = sv_num_slots s"
  by (simp add: tracker_item_def Let_def)

lemma tracker_timer_slots: "tracker_timer os R tm clk k sp ip s ck = (s', ck', k', rq) \<Longrightarrow> sv_num_slots s' = sv_num_slots s"
  by (auto simp: tracker_timer_def tracker_status_def Let_def split: prod.splits if_splits)

text \<open>What holds of the change of one server holds of the changes of all.\<close>

lemma tracker_loop_each:
  assumes "tracker_loop os R tm clk k px item ss ck = (ss', ck', rq)"
    and item: "\<And>now it s. P s (tracker_item now (px_info_period px) it s)"
    and timer: "\<And>k s ck s' ck' k' rq. tracker_timer os R tm clk k (px_status_period px) (px_info_period px) s ck
      = (s', ck', k', rq) \<Longrightarrow> P s s'"
    and same: "\<And>s. P s s"
  shows "list_all2 P ss ss'"
  using assms(1)
proof (induction ss arbitrary: ss' ck ck' rq k)
  case (Cons s ss)
  from Cons.prems obtain s1 ck1 k1 rq1 ss1 ck2 rq2 where
    one: "(case item of Some it \<Rightarrow> (if is_same_host R (sv_host s) (it_host it)
              then (tracker_item (clk k) (px_info_period px) it s, ck, k, []) else (s, ck, k, []))
         | None \<Rightarrow> tracker_timer os R tm clk k (px_status_period px) (px_info_period px) s ck) = (s1, ck1, k1, rq1)"
    and rest: "tracker_loop os R tm clk k1 px item ss ck1 = (ss1, ck2, rq2)" "ss' = s1 # ss1"
    by (auto simp: Let_def split: prod.splits)
  from one item timer same have "P s s1" by (auto split: option.splits if_splits)
  with Cons.IH [OF rest(1)] rest(2) show ?case by simp
qed simp

lemma tracker_loop_slots:
  assumes "tracker_loop os R tm clk k px item ss ck = (ss', ck', rq)"
  shows "map sv_num_slots ss' = map sv_num_slots ss"
proof -
  have "list_all2 (\<lambda>s s'. sv_num_slots s' = sv_num_slots s) ss ss'"
    by (rule tracker_loop_each [OF assms]) (auto dest: tracker_timer_slots)
  then show ?thesis by (auto simp: list_all2_conv_all_nth intro!: nth_equalityI)
qed

lemma info_callback_ok:
  assumes ok: "world_ok px" and cb: "nrdpx_info_callback os R tm clk ev px ck = (px', ck', rq)"
  shows "world_ok px'"
proof (cases "event_logged ev")
  case True
  with ok cb show ?thesis by (simp add: nrdpx_info_callback_def)
next
  case False
  then obtain ss where ss: "tracker_loop os R tm clk 0 px (valid_item ev) (px_servers px) ck = (ss, ck', rq)"
    "px' = px\<lparr>px_servers := ss\<rparr>"
    using cb by (auto simp: nrdpx_info_callback_def split: prod.splits)
  note slots = tracker_loop_slots [OF ss(1)]
  then have len: "length ss = length (px_servers px)" by (metis length_map)
  have "accounts (px_routes px) (px_channels px) (px_clients px) ss"
    by (rule accounts_cong [OF world_okD(2) [OF ok] refl slots refl])
  with ok len show ?thesis by (simp add: ss(2) world_ok_def)
qed

lemma active_fields [simp]:
  "nrdpx_server_is_active (Some (s\<lparr>sv_stat_time := a\<rparr>)) = nrdpx_server_is_active (Some s)"
  "nrdpx_server_is_active (Some (s\<lparr>sv_first_check := b\<rparr>)) = nrdpx_server_is_active (Some s)"
  "nrdpx_server_is_active (Some (s\<lparr>sv_info_time := a\<rparr>)) = nrdpx_server_is_active (Some s)"
  by (simp_all add: nrdpx_server_is_active_def)

text \<open>The timer does not probe a server that is active and in use: it stays active.\<close>

lemma tracker_timer_busy:
  assumes "\<not> sv_first_check s" "nrdpx_server_is_active (Some s)" "sv_num_slots s \<noteq> 0"
    "tracker_timer os R tm clk k sp ip s ck = (s', ck', k', rq)"
  shows "nrdpx_server_is_active (Some s') \<and> ck' = ck \<and> sv_info s' = sv_info s"
  using assms
  by (auto simp: tracker_timer_def tracker_status_def Let_def server_getters
      split: prod.splits if_splits)

text \<open>A server that was never checked is probed by the first timer, and its state afterwards is what
  the probe found; the next check is due a period after the probe has ended.\<close>

lemma tracker_timer_probes:
  assumes "sv_check_mode s \<ge> CHECK_CONN" "sv_first_check s" "\<not> tm"
    "nrdpx_check_server os R (sv_host s) (sv_port s) ck = (ret, ck1)"
    "tracker_timer os R tm clk k sp ip s ck = (s', ck', k', rq)"
  shows "nrdpx_server_is_active (Some s') = ret \<and> \<not> sv_first_check s' \<and> sv_stat_time s' = clk (k + 1) + sp"
  using assms by (auto simp: tracker_timer_def tracker_status_def Let_def split: prod.splits if_splits)

text \<open>A message never raises a server's limit, and marks a lost server inactive.\<close>

lemma tracker_item_limit: "sv_max_slots (tracker_item now p it s) \<le> sv_max_slots s"
  by (auto simp: tracker_item_def sync_server_def nrdpx_server_deactivate_def Let_def)

lemma check_mode_less: "CHECK_INFO \<le> m \<longleftrightarrow> m = CHECK_INFO \<or> m = CHECK_SYNC" "CHECK_SYNC \<le> m \<longleftrightarrow> m = CHECK_SYNC"
  "CHECK_CONN \<le> m \<longleftrightarrow> m \<noteq> CHECK_NONE"
  by (cases m; simp add: less_eq_check_mode_def)+

end
