(* ===== verification/Checker.thy ===== *)
theory Checker
  imports Tracker
begin

text \<open>
  \<open>nrdpx_check_server\<close> step by step.  A check runs on a thread of the browser and blocks in
  \<open>connect\<close>; meanwhile a signal handler may call the function without a host to abort it.  The
  static \<open>_check_socket\<close> is guarded by \<open>_check_mutex\<close> where it is changed, so that the guarded
  blocks are steps, but it is read without the mutex for the test and for \<open>connect\<close>.

  It is shown that a check that is aborted any number of times, at any of its steps, leaves no
  descriptor behind and ends as the undisturbed \<open>nrdpx_check_server\<close> could have ended with
  another answer of \<open>connect\<close>.
\<close>

subsection \<open>Steps\<close>

text \<open>The places in the code: the first block, the lookup of the host, the block that creates the
  socket, the test of the socket, the call of \<open>connect\<close> with the socket it reads, the return of
  \<open>connect\<close>, the last block, the end.\<close>

datatype check_pc =
    C_start string int
  | C_resolve string int
  | C_create addr_t int
  | C_made addr_t int
  | C_connect addr_t
  | C_connecting int addr_t
  | C_close bool
  | C_done bool

definition check_abort :: "check_state \<Rightarrow> check_state" where
  "check_abort ck = (if ck_socket ck \<noteq> NRD_NOSOCK then check_close ck else ck)"

fun check_step :: "sock_os \<Rightarrow> resolver \<Rightarrow> check_pc \<Rightarrow> check_state \<Rightarrow> check_pc \<times> check_state" where
  "check_step os R (C_start host port) ck =
     (if port = 0 \<or> host = [] then C_done False else C_resolve host port, check_abort ck)"
| "check_step os R (C_resolve host port) ck =
     (case host_to_addr R host False of None \<Rightarrow> C_done False | Some addr \<Rightarrow> C_create addr port, ck)"
| "check_step os R (C_create addr port) ck =
     (let (sock, fds) = nrdpx_socket_create os (ck_fds ck) (sa_family addr) True
      in (C_made addr port, \<lparr>ck_socket = sock, ck_fds = fds\<rparr>))"
| "check_step os R (C_made addr port) ck =
     (if ck_socket ck = NRD_NOSOCK then C_done False else C_connect (fst (set_addr_port addr port)), ck)"
| "check_step os R (C_connect addr) ck = (C_connecting (ck_socket ck) addr, ck)"
| "check_step os R (C_connecting sock addr) ck = (C_close (nrdpx_socket_connect os sock (Some addr) = 0), ck)"
| "check_step os R (C_close ret) ck = (C_done ret, check_close ck)"
| "check_step os R (C_done ret) ck = (C_done ret, ck)"

text \<open>The call of a signal handler.\<close>

lemma check_abort_server: "nrdpx_check_server os R [] 0 ck = (False, check_abort ck)"
  by (simp add: nrdpx_check_server_def check_abort_def)

text \<open>A new descriptor is none of the open ones.\<close>

definition fresh_sock :: "sock_os \<Rightarrow> int set \<Rightarrow> bool" where
  "fresh_sock os fds \<longleftrightarrow> (\<forall>fam. sys_socket os fam \<notin> fds)"

inductive check_trans :: "resolver \<Rightarrow> check_pc \<times> check_state \<Rightarrow> check_pc \<times> check_state \<Rightarrow> bool" for R where
  ct_step: "fresh_sock os (ck_fds ck) \<Longrightarrow> check_trans R (pc, ck) (check_step os R pc ck)"
| ct_abort: "check_trans R (pc, ck) (pc, check_abort ck)"

inductive check_reach :: "resolver \<Rightarrow> check_pc \<times> check_state \<Rightarrow> check_pc \<times> check_state \<Rightarrow> bool" for R s where
  cr_start: "check_reach R s s"
| cr_step: "check_reach R s t \<Longrightarrow> check_trans R t u \<Longrightarrow> check_reach R s u"

subsection \<open>No abort disturbs a check\<close>

text \<open>The socket of a check is the only descriptor it opened.\<close>

definition check_owns :: "int set \<Rightarrow> check_state \<Rightarrow> bool" where
  "check_owns fds ck \<longleftrightarrow> ck = \<lparr>ck_socket = NRD_NOSOCK, ck_fds = fds\<rparr>
     \<or> ck_socket ck \<noteq> NRD_NOSOCK \<and> ck_socket ck \<notin> fds \<and> ck_fds ck = insert (ck_socket ck) fds"

lemma check_owns_abort: "check_owns fds ck \<Longrightarrow> check_abort ck = \<lparr>ck_socket = NRD_NOSOCK, ck_fds = fds\<rparr>"
  by (auto simp: check_owns_def check_abort_def check_close_def nrdpx_socket_close_def)

lemma check_owns_close: "check_owns fds ck \<Longrightarrow> check_close ck = \<lparr>ck_socket = NRD_NOSOCK, ck_fds = fds\<rparr>"
  by (auto simp: check_owns_def check_close_def nrdpx_socket_close_def)

lemma check_owns_free [simp]: "check_owns fds \<lparr>ck_socket = NRD_NOSOCK, ck_fds = fds\<rparr>"
  by (simp add: check_owns_def)

lemma check_owns_create:
  assumes "fresh_sock os fds" "nrdpx_socket_create os fds fam True = (sock, fds')"
  shows "check_owns fds \<lparr>ck_socket = sock, ck_fds = fds'\<rparr>"
  using assms by (auto simp: check_owns_def fresh_sock_def nrdpx_socket_create_def Let_def split: if_splits)

text \<open>What a check has behind it at each place: it could still end as the undisturbed
  check does for some answers of the system.\<close>

definition outcome :: "resolver \<Rightarrow> string \<Rightarrow> int \<Rightarrow> int set \<Rightarrow> bool \<Rightarrow> bool" where
  "outcome R host port fds ret \<longleftrightarrow> (\<exists>os. fresh_sock os fds \<and>
     nrdpx_check_server os R host port \<lparr>ck_socket = NRD_NOSOCK, ck_fds = fds\<rparr>
       = (ret, \<lparr>ck_socket = NRD_NOSOCK, ck_fds = fds\<rparr>))"

fun check_inv :: "resolver \<Rightarrow> string \<Rightarrow> int \<Rightarrow> int set \<Rightarrow> check_pc \<times> check_state \<Rightarrow> bool" where
  "check_inv R h p fds (C_start host port, ck) \<longleftrightarrow> host = h \<and> port = p \<and> check_owns fds ck"
| "check_inv R h p fds (C_resolve host port, ck) \<longleftrightarrow> host = h \<and> port = p \<and> p \<noteq> 0 \<and> h \<noteq> []
     \<and> ck = \<lparr>ck_socket = NRD_NOSOCK, ck_fds = fds\<rparr>"
| "check_inv R h p fds (C_create addr port, ck) \<longleftrightarrow> port = p \<and> p \<noteq> 0 \<and> h \<noteq> [] \<and> host_to_addr R h False = Some addr
     \<and> ck = \<lparr>ck_socket = NRD_NOSOCK, ck_fds = fds\<rparr>"
| "check_inv R h p fds (C_made addr port, ck) \<longleftrightarrow> outcome R h p fds False
     \<and> (ck_socket ck \<noteq> NRD_NOSOCK \<longrightarrow> outcome R h p fds True) \<and> check_owns fds ck"
| "check_inv R h p fds (C_connect addr, ck) \<longleftrightarrow> outcome R h p fds False \<and> outcome R h p fds True \<and> check_owns fds ck"
| "check_inv R h p fds (C_connecting sock addr, ck) \<longleftrightarrow>
     outcome R h p fds False \<and> outcome R h p fds True \<and> check_owns fds ck"
| "check_inv R h p fds (C_close ret, ck) \<longleftrightarrow> outcome R h p fds ret \<and> check_owns fds ck"
| "check_inv R h p fds (C_done ret, ck) \<longleftrightarrow> outcome R h p fds ret
     \<and> ck = \<lparr>ck_socket = NRD_NOSOCK, ck_fds = fds\<rparr>"

text \<open>The answer of \<open>connect\<close> decides the outcome of a check that has its socket.\<close>

lemma outcome_connect:
  assumes "p \<noteq> 0" "h \<noteq> []" "host_to_addr R h False = Some addr" "fresh_sock os fds"
    "nrdpx_socket_create os fds (sa_family addr) True = (sock, fds')"
  shows "outcome R h p fds False" "sock \<noteq> NRD_NOSOCK \<Longrightarrow> outcome R h p fds True"
proof -
  let ?os = "\<lambda>r. os\<lparr>sys_connect := \<lambda>s a. r\<rparr>"
  have c: "nrdpx_socket_create (?os r) fds (sa_family addr) True = (sock, fds')" for r
    using assms(5) by (auto simp: nrdpx_socket_create_def Let_def split: if_splits)
  have f: "fresh_sock (?os r) fds" for r using assms(4) by (simp add: fresh_sock_def)
  note own = check_owns_create [OF assms(4,5)]
  have cl: "sock \<noteq> NRD_NOSOCK \<Longrightarrow> check_close \<lparr>ck_socket = sock, ck_fds = fds'\<rparr> = \<lparr>ck_socket = NRD_NOSOCK, ck_fds = fds\<rparr>"
    "sock = NRD_NOSOCK \<Longrightarrow> fds' = fds"
    using check_owns_close [OF own] own by (auto simp: check_owns_def)
  have r: "nrdpx_check_server (?os r) R h p \<lparr>ck_socket = NRD_NOSOCK, ck_fds = fds\<rparr>
      = (sock \<noteq> NRD_NOSOCK \<and> r = 0, \<lparr>ck_socket = NRD_NOSOCK, ck_fds = fds\<rparr>)" for r
    using assms(1-3) c [of r] cl by (auto simp: nrdpx_check_server_def nrdpx_socket_connect_def Let_def)
  show "outcome R h p fds False" unfolding outcome_def using f [of "-1"] r [of "-1"] by auto
  show "sock \<noteq> NRD_NOSOCK \<Longrightarrow> outcome R h p fds True" unfolding outcome_def using f [of 0] r [of 0] by auto
qed

lemma outcome_early:
  assumes "p = 0 \<or> h = [] \<or> host_to_addr R h False = None" "fresh_sock os fds"
  shows "outcome R h p fds False"
  unfolding outcome_def using assms by (intro exI [of _ os]) (auto simp: nrdpx_check_server_def Let_def)

lemma check_step_inv:
  assumes inv: "check_inv R h p fds (pc, ck)" and fresh: "fresh_sock os (ck_fds ck)"
  shows "check_inv R h p fds (check_step os R pc ck)"
proof (cases pc)
  case (C_start host port)
  have "fresh_sock os fds" using inv fresh C_start by (auto simp: check_owns_def fresh_sock_def)
  with inv C_start show ?thesis by (auto simp: check_owns_abort intro: outcome_early)
next
  case (C_resolve host port)
  with inv fresh show ?thesis by (auto split: option.splits intro: outcome_early)
next
  case (C_create addr port)
  obtain sock fds' where c: "nrdpx_socket_create os fds (sa_family addr) True = (sock, fds')" by fastforce
  with inv fresh C_create outcome_connect [OF _ _ _ _ c] check_owns_create [OF _ c] show ?thesis by simp
next
  case (C_connecting sock addr)
  with inv show ?thesis by (cases "nrdpx_socket_connect os sock (Some addr) = 0") simp_all
qed (use inv in \<open>auto simp: check_owns_close check_owns_def\<close>)

lemma check_abort_inv:
  assumes "check_inv R h p fds (pc, ck)"
  shows "check_inv R h p fds (pc, check_abort ck)"
proof (cases "ck_socket ck = NRD_NOSOCK")
  case False
  with assms show ?thesis by (cases pc) (auto simp: check_owns_abort)
qed (use assms in \<open>simp add: check_abort_def\<close>)

lemma check_reach_inv:
  "check_reach R (C_start h p, \<lparr>ck_socket = NRD_NOSOCK, ck_fds = fds\<rparr>) s \<Longrightarrow> check_inv R h p fds s"
proof (induction rule: check_reach.induct)
  case (cr_step t u)
  from cr_step(2,3) show ?case by (cases rule: check_trans.cases) (auto intro: check_step_inv check_abort_inv)
qed simp

lemma check_inv_owns: "check_inv R h p fds (pc, ck) \<Longrightarrow> check_owns fds ck"
  by (cases pc) auto

text \<open>Without a signal the steps are the function.\<close>

lemma check_steps_server:
  "((\<lambda>(pc, ck). check_step os R pc ck) ^^ 7) (C_start host port, ck)
     = (let (ret, ck') = nrdpx_check_server os R host port ck in (C_done ret, ck'))"
proof -
  have a: "check_abort ck = (if ck_socket ck \<noteq> NRD_NOSOCK then check_close ck else ck)" by (simp add: check_abort_def)
  show ?thesis
    unfolding nrdpx_check_server_def a [symmetric]
    by (auto simp: eval_nat_numeral Let_def split: prod.splits option.splits)
qed

end
