(* ===== verification/Config.thy ===== *)
theory Config
  imports Text
begin

text \<open>
  The configuration reader, \<open>src/src/nrdpx_config.h\<close> and \<open>src/src/nrdpx_config.cpp\<close>.

  A section has a name, a hash map from keys to items (a value and its cached list form) and
  the pointer a caller attached to it.  \<open>load_from_file\<close> walks over the characters of the
  file with the state \<open>load_state\<close>: \<open>ld_ln\<close> is the text from \<open>ln\<close> to \<open>cc\<close> (\<open>None\<close> for a
  null \<open>ln\<close>), in which a character the loop overwrote with NUL is NUL.  The file system is an
  argument: the contents of a path, \<open>None\<close> when it cannot be opened.
\<close>

record item_t =
  it_val :: string
  it_vls :: "string list"

record 'd nrdpx_section_t =
  sc_items :: "string \<Rightarrow> item_t option"
  sc_name :: string
  sc_data :: "'d option"

record 'd nrdpx_config_t =
  cf_sects :: "'d nrdpx_section_t list"
  cf_class :: string

definition new_section :: "string \<Rightarrow> 'd nrdpx_section_t" where
  "new_section sName = \<lparr>sc_items = Map.empty, sc_name = sName, sc_data = None\<rparr>"

definition new_config :: "'d nrdpx_config_t" where
  "new_config = \<lparr>cf_sects = [], cf_class = []\<rparr>"

subsection \<open>Reading a section\<close>

definition is_list_sep :: "char \<Rightarrow> bool" where
  "is_list_sep c \<longleftrightarrow> c = CHR '' '' \<or> c = CHR 0x09 \<or> c = CHR '',''"

text \<open>The loop of \<open>get_strings\<close>: \<open>txt\<close> is set inside quotes, \<open>str\<close> when \<open>str\<close> points at the
  last string of \<open>vls\<close>.\<close>

fun split_loop :: "string \<Rightarrow> bool \<Rightarrow> bool \<Rightarrow> string list \<Rightarrow> string list" where
  "split_loop [] txt str vls = vls"
| "split_loop (c # cs) txt str vls =
     (let txt = (if c = CHR 0x22 then \<not> txt else txt) in
      if \<not> txt \<and> is_list_sep c then split_loop cs txt False vls
      else let vls = (if str then vls else vls @ [[]])
           in split_loop cs txt True (butlast vls @ [last vls @ [c]]))"

definition get_strings :: "'d nrdpx_section_t \<Rightarrow> string \<Rightarrow> string list \<times> 'd nrdpx_section_t" where
  "get_strings sc sKey =
     (case sc_items sc sKey of
        None \<Rightarrow> ([], sc)
      | Some it \<Rightarrow>
          if it_vls it \<noteq> [] then (it_vls it, sc)
          else let vls = split_loop (c_str (it_val it)) False False [];
                   vls = (if vls = [] then [[]] else vls)
               in (vls, sc\<lparr>sc_items := (sc_items sc)(sKey \<mapsto> it\<lparr>it_vls := vls\<rparr>)\<rparr>))"

definition get_string :: "'d nrdpx_section_t \<Rightarrow> string \<Rightarrow> string \<Rightarrow> string" where
  "get_string sc sKey sDef = (case sc_items sc sKey of None \<Rightarrow> sDef | Some it \<Rightarrow> it_val it)"

definition get_integer :: "'d nrdpx_section_t \<Rightarrow> string \<Rightarrow> int \<Rightarrow> int" where
  "get_integer sc sKey iDef =
     (let s = get_string sc sKey [] in if s = [] then iDef else stoi s)"

definition get_boolean :: "'d nrdpx_section_t \<Rightarrow> string \<Rightarrow> bool \<Rightarrow> bool" where
  "get_boolean sc sKey bDef =
     (let s = get_string sc sKey [] in
      if s = [] then bDef
      else stricmp_eq s ''true'' \<or> stricmp_eq s ''yes'' \<or> stricmp_eq s ''1'')"

definition key_exists :: "'d nrdpx_section_t \<Rightarrow> string \<Rightarrow> bool" where
  "key_exists sc sKey \<longleftrightarrow> sc_items sc sKey \<noteq> None"

definition set_data :: "'d nrdpx_section_t \<Rightarrow> 'd option \<Rightarrow> 'd nrdpx_section_t" where
  "set_data sc pData = sc\<lparr>sc_data := pData\<rparr>"

definition get_data :: "'d nrdpx_section_t \<Rightarrow> 'd option" where
  "get_data sc = sc_data sc"

subsection \<open>Finding sections\<close>

text \<open>A section pointer is its index in \<open>m_sects\<close>.\<close>

fun find_index :: "('a \<Rightarrow> bool) \<Rightarrow> 'a list \<Rightarrow> nat option" where
  "find_index P [] = None"
| "find_index P (x # xs) = (if P x then Some 0 else map_option Suc (find_index P xs))"

definition first_section :: "'d nrdpx_config_t \<Rightarrow> 'd nrdpx_section_t option" where
  "first_section cfg = (case cf_sects cfg of [] \<Rightarrow> None | sc # _ \<Rightarrow> Some sc)"

definition find_section :: "'d nrdpx_config_t \<Rightarrow> string \<Rightarrow> bool \<Rightarrow> nat option" where
  "find_section cfg sName bClass =
     (if sName = [] then None
      else let s = (if bClass \<and> cf_class cfg \<noteq> [] then cf_class cfg @ ''.'' @ sName else sName)
           in find_index (\<lambda>sc. stricmp_eq (sc_name sc) s) (cf_sects cfg))"

definition find_by_value :: "'d nrdpx_config_t \<Rightarrow> string \<Rightarrow> string \<Rightarrow> bool \<Rightarrow> nat option" where
  "find_by_value cfg sKey sVal bCase =
     find_index (\<lambda>sc. case sc_items sc sKey of
         None \<Rightarrow> False
       | Some it \<Rightarrow> (\<not> bCase \<and> stricmp_eq (it_val it) sVal) \<or> (bCase \<and> c_str (it_val it) = c_str sVal))
       (cf_sects cfg)"

definition find_by_int :: "'d nrdpx_config_t \<Rightarrow> string \<Rightarrow> int \<Rightarrow> nat option" where
  "find_by_int cfg sKey iVal = find_by_value cfg sKey (itos iVal) False"

subsection \<open>Loading\<close>

fun kv_loop :: "string \<Rightarrow> bool \<Rightarrow> string \<Rightarrow> string \<Rightarrow> string \<times> string" where
  "kv_loop [] b k v = (k, v)"
| "kv_loop (c # cs) b k v =
     (if \<not> b \<and> c = CHR ''='' then kv_loop cs True k v
      else if \<not> b then kv_loop cs b (k @ [c]) v
      else kv_loop cs b k (v @ [c]))"

definition add_item :: "'d nrdpx_section_t \<Rightarrow> string \<Rightarrow> 'd nrdpx_section_t" where
  "add_item sc ln =
     (if ln = [] then sc
      else let (k, v) = kv_loop ln False [] [];
               k = strim k;
               v = strim v;
               v = (if v \<noteq> [] \<and> v ! 0 = CHR 0x22 then substr v 1 (length v - 1) else v);
               v = (if v \<noteq> [] \<and> v ! (length v - 1) = CHR 0x22 then substr v 0 (length v - 1) else v)
           in if k \<noteq> [] then sc\<lparr>sc_items := (sc_items sc)(k \<mapsto> \<lparr>it_val = v, it_vls = []\<rparr>)\<rparr> else sc)"

definition add_sect :: "'d nrdpx_config_t \<Rightarrow> 'd nrdpx_section_t \<Rightarrow> 'd nrdpx_config_t" where
  "add_sect cfg sc =
     (case find_section cfg (sc_name sc) False of
        None \<Rightarrow> cfg\<lparr>cf_sects := cf_sects cfg @ [sc]\<rparr>
      | Some i \<Rightarrow>
          (let esc = cf_sects cfg ! i in
           cfg\<lparr>cf_sects := (cf_sects cfg)[i := esc\<lparr>sc_items := sc_items esc ++ sc_items sc\<rparr>]\<rparr>))"

record 'd load_state =
  ld_ln :: "string option"
  ld_sc :: "'d nrdpx_section_t option"
  ld_tp :: bool
  ld_cm :: bool
  ld_cfg :: "'d nrdpx_config_t"

definition load_step :: "char \<Rightarrow> 'd load_state \<Rightarrow> 'd load_state" where
  "load_step c st =
     (if c = cr \<or> c = lf then
        (case (ld_ln st, ld_sc st) of
           (Some ln, Some sc) \<Rightarrow>
             if \<not> ld_cm st \<and> \<not> ld_tp st
             then st\<lparr>ld_sc := Some (add_item sc ln), ld_ln := None, ld_tp := False\<rparr>
             else st\<lparr>ld_ln := None, ld_tp := False\<rparr>
         | _ \<Rightarrow> st\<lparr>ld_ln := None, ld_tp := False\<rparr>)
      else (case ld_ln st of
        None \<Rightarrow>
          if c = CHR ''['' then
            (case ld_sc st of
               Some sc \<Rightarrow> st\<lparr>ld_ln := Some [c], ld_sc := None, ld_tp := True, ld_cm := False,
                             ld_cfg := add_sect (ld_cfg st) sc\<rparr>
             | None \<Rightarrow> st\<lparr>ld_ln := Some [c], ld_tp := True, ld_cm := False\<rparr>)
          else st\<lparr>ld_ln := Some [c], ld_tp := False, ld_cm := (c = CHR '';'' \<or> c = CHR ''#'')\<rparr>
      | Some ln \<Rightarrow>
          if ld_tp st \<and> ld_sc st = None \<and> c = CHR '']'' then
            (let name = c_str (tl ln); cls = cf_class (ld_cfg st) in
             st\<lparr>ld_ln := Some (tl ln @ [CHR 0x00]),
                ld_sc := (if tl ln \<noteq> [] \<and> (cls = [] \<or> strnicmp_eq cls name (length cls))
                          then Some (new_section name) else None)\<rparr>)
          else st\<lparr>ld_ln := Some (ln @ [c])\<rparr>))"

definition load_start :: "'d nrdpx_config_t \<Rightarrow> string \<Rightarrow> 'd load_state" where
  "load_start cfg sClass =
     \<lparr>ld_ln = None, ld_sc = None, ld_tp = False, ld_cm = False, ld_cfg = cfg\<lparr>cf_class := sClass\<rparr>\<rparr>"

definition load_finish :: "'d load_state \<Rightarrow> 'd nrdpx_config_t" where
  "load_finish st = (case ld_sc st of Some sc \<Rightarrow> add_sect (ld_cfg st) sc | None \<Rightarrow> ld_cfg st)"

definition load_text :: "'d nrdpx_config_t \<Rightarrow> string \<Rightarrow> string \<Rightarrow> 'd nrdpx_config_t" where
  "load_text cfg sClass buf = load_finish (fold load_step (c_str buf) (load_start cfg sClass))"

definition load_from_file ::
  "(string \<Rightarrow> string option) \<Rightarrow> string \<Rightarrow> string \<Rightarrow> 'd nrdpx_config_t \<Rightarrow> bool \<times> 'd nrdpx_config_t" where
  "load_from_file fs filePath sClass cfg =
     (case fs (c_str filePath) of
        None \<Rightarrow> (False, cfg)
      | Some buf \<Rightarrow> if buf = [] then (False, cfg) else (True, load_text cfg sClass buf))"

definition clear_config :: "'d nrdpx_config_t \<Rightarrow> 'd nrdpx_config_t" where
  "clear_config cfg = cfg\<lparr>cf_sects := []\<rparr>"

subsection \<open>One line at a time\<close>

definition in_line :: "string \<Rightarrow> bool" where
  "in_line xs \<longleftrightarrow> cr \<notin> set xs \<and> lf \<notin> set xs"

lemma in_line_simps [simp]:
  "in_line []" "in_line (c # xs) \<longleftrightarrow> c \<noteq> cr \<and> c \<noteq> lf \<and> in_line xs"
  "in_line (xs @ ys) \<longleftrightarrow> in_line xs \<and> in_line ys"
  by (auto simp: in_line_def)

lemma load_step_text:
  "ld_ln st = Some t \<Longrightarrow> c \<noteq> cr \<Longrightarrow> c \<noteq> lf \<Longrightarrow> \<not> (ld_tp st \<and> ld_sc st = None \<and> c = CHR '']'') \<Longrightarrow>
     load_step c st = st\<lparr>ld_ln := Some (t @ [c])\<rparr>"
  by (auto simp: load_step_def)

lemma fold_load_text:
  "ld_ln st = Some t \<Longrightarrow> in_line xs \<Longrightarrow> (ld_tp st \<Longrightarrow> ld_sc st = None \<Longrightarrow> CHR '']'' \<notin> set xs) \<Longrightarrow>
     fold load_step xs st = st\<lparr>ld_ln := Some (t @ xs)\<rparr>"
proof (induction xs arbitrary: st t)
  case (Cons c xs)
  from Cons.prems have "load_step c st = st\<lparr>ld_ln := Some (t @ [c])\<rparr>"
    by (intro load_step_text) auto
  with Cons.IH [of "st\<lparr>ld_ln := Some (t @ [c])\<rparr>" "t @ [c]"] Cons.prems show ?case by simp
qed simp

lemma newline_cases: "c = cr \<or> c = lf \<Longrightarrow> load_step c st =
    (case (ld_ln st, ld_sc st) of
       (Some ln, Some sc) \<Rightarrow>
         if \<not> ld_cm st \<and> \<not> ld_tp st
         then st\<lparr>ld_sc := Some (add_item sc ln), ld_ln := None, ld_tp := False\<rparr>
         else st\<lparr>ld_ln := None, ld_tp := False\<rparr>
     | _ \<Rightarrow> st\<lparr>ld_ln := None, ld_tp := False\<rparr>)"
  by (simp add: load_step_def)

lemma not_newline [simp]:
  "CHR ''['' \<noteq> cr" "CHR ''['' \<noteq> lf" "CHR '']'' \<noteq> cr" "CHR '']'' \<noteq> lf" "CHR '';'' \<noteq> cr" "CHR '';'' \<noteq> lf"
  "CHR ''#'' \<noteq> cr" "CHR ''#'' \<noteq> lf" "CHR ''='' \<noteq> cr" "CHR ''='' \<noteq> lf" "CHR '' '' \<noteq> cr" "CHR '' '' \<noteq> lf"
  "CHR 0x00 \<noteq> cr" "CHR 0x00 \<noteq> lf" "cr \<noteq> CHR 0x00" "lf \<noteq> CHR 0x00"
  by (simp_all add: cr_def lf_def)

text \<open>An item line inside a section adds the item; outside it is skipped.\<close>

lemma load_item_line:
  assumes "in_line (c # xs)" "c \<noteq> CHR ''[''" "c \<noteq> CHR '';''" "c \<noteq> CHR ''#''" "ld_ln st = None"
  shows "fold load_step ((c # xs) @ [lf]) st
    = st\<lparr>ld_ln := None, ld_tp := False, ld_cm := False,
         ld_sc := map_option (\<lambda>sc. add_item sc (c # xs)) (ld_sc st)\<rparr>"
proof -
  let ?st = "st\<lparr>ld_ln := Some [c], ld_tp := False, ld_cm := False\<rparr>"
  have first: "load_step c st = ?st" using assms by (auto simp: load_step_def)
  have "fold load_step xs ?st = ?st\<lparr>ld_ln := Some ([c] @ xs)\<rparr>"
    using assms by (intro fold_load_text) auto
  with first show ?thesis
    by (cases "ld_sc st") (simp_all add: newline_cases)
qed

text \<open>A comment line changes nothing but the comment flag.\<close>

lemma load_comment_line:
  assumes "in_line (c # xs)" "c = CHR '';'' \<or> c = CHR ''#''" "ld_ln st = None"
  shows "fold load_step ((c # xs) @ [lf]) st = st\<lparr>ld_ln := None, ld_tp := False, ld_cm := True\<rparr>"
proof -
  let ?st = "st\<lparr>ld_ln := Some [c], ld_tp := False, ld_cm := True\<rparr>"
  have first: "load_step c st = ?st" using assms by (auto simp: load_step_def)
  have "fold load_step xs ?st = ?st\<lparr>ld_ln := Some ([c] @ xs)\<rparr>"
    using assms by (intro fold_load_text) auto
  with first show ?thesis
    by (cases "ld_sc st") (simp_all add: newline_cases)
qed

definition class_match :: "string \<Rightarrow> string \<Rightarrow> bool" where
  "class_match cls name \<longleftrightarrow> cls = [] \<or> strnicmp_eq cls name (length cls)"

definition flush_sect :: "'d nrdpx_config_t \<Rightarrow> 'd nrdpx_section_t option \<Rightarrow> 'd nrdpx_config_t" where
  "flush_sect cfg osc = (case osc of None \<Rightarrow> cfg | Some sc \<Rightarrow> add_sect cfg sc)"

lemma add_sect_class [simp]: "cf_class (add_sect cfg sc) = cf_class cfg"
  by (simp add: add_sect_def Let_def split: option.splits)

lemma flush_sect_class [simp]: "cf_class (flush_sect cfg osc) = cf_class cfg"
  by (simp add: flush_sect_def split: option.splits)

text \<open>A header line closes the open section and opens the named one if its class matches.\<close>

lemma load_header_line:
  assumes "in_line name" "CHR '']'' \<notin> set name" "CHR 0x00 \<notin> set name" "name \<noteq> []" "ld_ln st = None"
  shows "fold load_step (CHR ''['' # name @ CHR '']'' # [lf]) st
    = st\<lparr>ld_ln := None, ld_tp := False, ld_cm := False,
         ld_sc := (if class_match (cf_class (ld_cfg st)) name then Some (new_section name) else None),
         ld_cfg := flush_sect (ld_cfg st) (ld_sc st)\<rparr>"
proof -
  let ?st = "st\<lparr>ld_ln := Some ''['', ld_tp := True, ld_cm := False, ld_sc := None,
       ld_cfg := flush_sect (ld_cfg st) (ld_sc st)\<rparr>"
  have first: "load_step (CHR ''['') st = ?st"
    using assms by (auto simp: load_step_def flush_sect_def split: option.splits)
  have body: "fold load_step name ?st = ?st\<lparr>ld_ln := Some (''['' @ name)\<rparr>"
    using assms by (intro fold_load_text) auto
  show ?thesis
    using assms first body
    by (simp add: newline_cases) (simp add: load_step_def class_match_def Let_def newline_cases)
qed

subsection \<open>Files as documents\<close>

text \<open>A document is a list of sections, each a name and a list of key-value pairs; \<open>render\<close>
  writes it the way the sample configurations are written.\<close>

type_synonym doc_section = "string \<times> (string \<times> string) list"

definition render_item :: "string \<times> string \<Rightarrow> string" where
  "render_item kv = fst kv @ '' = '' @ snd kv"

definition render_section :: "doc_section \<Rightarrow> string" where
  "render_section d = CHR ''['' # fst d @ CHR '']'' # [lf] @ concat (map (\<lambda>kv. render_item kv @ [lf]) (snd d))"

definition render :: "doc_section list \<Rightarrow> string" where
  "render ds = concat (map render_section ds)"

definition wf_key :: "string \<Rightarrow> bool" where
  "wf_key k \<longleftrightarrow> k \<noteq> [] \<and> hd k \<notin> {CHR '' '', CHR ''['', CHR '';'', CHR ''#''} \<and> last k \<noteq> CHR '' ''
     \<and> CHR ''='' \<notin> set k \<and> CHR 0x00 \<notin> set k \<and> in_line k"

definition wf_val :: "string \<Rightarrow> bool" where
  "wf_val v \<longleftrightarrow> v \<noteq> [] \<and> hd v \<notin> {CHR '' '', CHR 0x22} \<and> last v \<notin> {CHR '' '', CHR 0x22}
     \<and> CHR 0x00 \<notin> set v \<and> in_line v"

definition wf_doc_section :: "doc_section \<Rightarrow> bool" where
  "wf_doc_section d \<longleftrightarrow> fst d \<noteq> [] \<and> CHR '']'' \<notin> set (fst d) \<and> CHR 0x00 \<notin> set (fst d) \<and> in_line (fst d)
     \<and> (\<forall>kv \<in> set (snd d). wf_key (fst kv) \<and> wf_val (snd kv))"

definition section_of :: "doc_section \<Rightarrow> 'd nrdpx_section_t" where
  "section_of d = \<lparr>sc_items = map_of (rev (map (\<lambda>kv. (fst kv, \<lparr>it_val = snd kv, it_vls = []\<rparr>)) (snd d))),
     sc_name = fst d, sc_data = None\<rparr>"

lemma kv_loop_key: "CHR ''='' \<notin> set k \<Longrightarrow> kv_loop (k @ cs) False k0 v0 = kv_loop cs False (k0 @ k) v0"
  by (induction k arbitrary: k0) auto

lemma kv_loop_val: "kv_loop cs True k0 v0 = (k0, v0 @ cs)"
  by (induction cs arbitrary: v0) auto

lemma add_item_render:
  assumes "wf_key k" "wf_val v"
  shows "add_item sc (render_item (k, v)) = sc\<lparr>sc_items := (sc_items sc)(k \<mapsto> \<lparr>it_val = v, it_vls = []\<rparr>)\<rparr>"
proof -
  have "kv_loop (k @ '' = '' @ v) False [] [] = (k @ '' '', '' '' @ v)"
    using assms kv_loop_key [of "k @ '' ''" "CHR ''='' # '' '' @ v" "[]" "[]"]
    by (simp add: wf_key_def kv_loop_val)
  moreover have "strim (k @ '' '') = k"
    using assms strim_middle [of "[]" "'' ''" k] by (simp add: wf_key_def)
  moreover have "strim ('' '' @ v) = v"
    using assms strim_middle [of "'' ''" "[]" v] by (simp add: wf_val_def)
  moreover have "v ! 0 \<noteq> CHR 0x22" "v ! (length v - 1) \<noteq> CHR 0x22"
    using assms by (auto simp: wf_val_def hd_conv_nth last_conv_nth)
  ultimately show ?thesis
    using assms by (simp add: add_item_def render_item_def wf_key_def Let_def)
qed

lemma render_item_line:
  assumes "wf_key k" "wf_val v"
  shows "\<exists>c xs. render_item (k, v) = c # xs \<and> in_line (c # xs) \<and> c \<notin> {CHR ''['', CHR '';'', CHR ''#''}"
  using assms by (cases k) (auto simp: render_item_def wf_key_def wf_val_def)

lemma load_items:
  assumes "\<forall>kv \<in> set kvs. wf_key (fst kv) \<and> wf_val (snd kv)" "ld_ln st = None"
    "\<not> ld_tp st" "\<not> ld_cm st"
  shows "fold load_step (concat (map (\<lambda>kv. render_item kv @ [lf]) kvs)) st
    = st\<lparr>ld_sc := map_option (\<lambda>sc. sc\<lparr>sc_items := sc_items sc ++
         map_of (rev (map (\<lambda>kv. (fst kv, \<lparr>it_val = snd kv, it_vls = []\<rparr>)) kvs))\<rparr>) (ld_sc st)\<rparr>"
  using assms
proof (induction kvs arbitrary: st)
  case Nil
  then show ?case by (cases "ld_sc st") simp_all
next
  case (Cons kv kvs)
  obtain k v where kv: "kv = (k, v)" by (cases kv)
  with Cons.prems have wf: "wf_key k" "wf_val v" by simp_all
  let ?st = "st\<lparr>ld_sc := map_option (\<lambda>sc. add_item sc (render_item (k, v))) (ld_sc st)\<rparr>"
  have line: "fold load_step (render_item (k, v) @ [lf]) st = ?st"
    using render_item_line [OF wf] Cons.prems load_item_line [of _ _ st] by fastforce
  have "fold load_step (concat (map (\<lambda>kv. render_item kv @ [lf]) (kv # kvs))) st
      = fold load_step (concat (map (\<lambda>kv. render_item kv @ [lf]) kvs)) ?st"
    using line by (simp add: kv)
  also have "\<dots> = ?st\<lparr>ld_sc := map_option (\<lambda>sc. sc\<lparr>sc_items := sc_items sc ++
       map_of (rev (map (\<lambda>kv. (fst kv, \<lparr>it_val = snd kv, it_vls = []\<rparr>)) kvs))\<rparr>) (ld_sc ?st)\<rparr>"
    using Cons.prems by (intro Cons.IH) auto
  finally show ?case
    by (cases "ld_sc st") (simp_all add: kv add_item_render [OF wf] map_add_def map_of_append fun_eq_iff
        split: option.splits)
qed

lemma load_section:
  assumes "wf_doc_section d" "ld_ln st = None"
  shows "fold load_step (render_section d) st
    = st\<lparr>ld_ln := None, ld_tp := False, ld_cm := False,
         ld_sc := (if class_match (cf_class (ld_cfg st)) (fst d) then Some (section_of d) else None),
         ld_cfg := flush_sect (ld_cfg st) (ld_sc st)\<rparr>"
proof -
  let ?hd = "CHR ''['' # fst d @ CHR '']'' # [lf]"
  let ?items = "concat (map (\<lambda>kv. render_item kv @ [lf]) (snd d))"
  let ?h = "st\<lparr>ld_ln := None, ld_tp := False, ld_cm := False,
         ld_sc := (if class_match (cf_class (ld_cfg st)) (fst d) then Some (new_section (fst d)) else None),
         ld_cfg := flush_sect (ld_cfg st) (ld_sc st)\<rparr>"
  have "render_section d = ?hd @ ?items" by (simp add: render_section_def)
  moreover have "fold load_step ?hd st = ?h"
    using assms by (intro load_header_line) (auto simp: wf_doc_section_def)
  ultimately have "fold load_step (render_section d) st = fold load_step ?items ?h"
    by (simp only: fold_append comp_apply)
  also have "\<dots> = ?h\<lparr>ld_sc := map_option (\<lambda>sc. sc\<lparr>sc_items := sc_items sc ++
       map_of (rev (map (\<lambda>kv. (fst kv, \<lparr>it_val = snd kv, it_vls = []\<rparr>)) (snd d)))\<rparr>) (ld_sc ?h)\<rparr>"
    using assms by (intro load_items) (auto simp: wf_doc_section_def)
  finally show ?thesis
    by (simp add: new_section_def section_of_def)
qed

lemma flush_sect_simps [simp]:
  "flush_sect cfg None = cfg" "flush_sect cfg (Some sc) = add_sect cfg sc"
  by (simp_all add: flush_sect_def)

lemma load_sections:
  assumes "\<forall>d \<in> set ds. wf_doc_section d" "ld_ln st = None"
  shows "load_finish (fold load_step (render ds) st)
    = fold (\<lambda>sc cfg. add_sect cfg sc)
        (map section_of (filter (\<lambda>d. class_match (cf_class (ld_cfg st)) (fst d)) ds))
        (flush_sect (ld_cfg st) (ld_sc st))"
  using assms
proof (induction ds arbitrary: st)
  case Nil
  then show ?case by (simp add: render_def load_finish_def flush_sect_def split: option.splits)
next
  case (Cons d ds)
  let ?st = "fold load_step (render_section d) st"
  have st: "?st = st\<lparr>ld_ln := None, ld_tp := False, ld_cm := False,
       ld_sc := (if class_match (cf_class (ld_cfg st)) (fst d) then Some (section_of d) else None),
       ld_cfg := flush_sect (ld_cfg st) (ld_sc st)\<rparr>"
    using Cons.prems by (intro load_section) auto
  have "load_finish (fold load_step (render (d # ds)) st) = load_finish (fold load_step (render ds) ?st)"
    by (simp add: render_def)
  also have "\<dots> = fold (\<lambda>sc cfg. add_sect cfg sc)
        (map section_of (filter (\<lambda>d. class_match (cf_class (ld_cfg ?st)) (fst d)) ds))
        (flush_sect (ld_cfg ?st) (ld_sc ?st))"
    using Cons.prems st by (intro Cons.IH) auto
  finally show ?case by (cases "class_match (cf_class (ld_cfg st)) (fst d)") (simp_all add: st)
qed

lemma render_no_nul:
  assumes "\<forall>d \<in> set ds. wf_doc_section d"
  shows "CHR 0x00 \<notin> set (render ds)"
proof -
  have "CHR 0x00 \<notin> set (render_section d)" if "wf_doc_section d" for d
    using that by (auto simp: render_section_def render_item_def wf_doc_section_def wf_key_def wf_val_def)
  with assms show ?thesis by (auto simp: render_def)
qed

lemma load_text_render:
  assumes "\<forall>d \<in> set ds. wf_doc_section d"
  shows "load_text cfg cls (render ds)
    = fold (\<lambda>sc cfg. add_sect cfg sc)
        (map section_of (filter (\<lambda>d. class_match cls (fst d)) ds)) (cfg\<lparr>cf_class := cls\<rparr>)"
  using assms load_sections [of ds "load_start cfg cls"] render_no_nul
  by (simp add: load_text_def load_start_def flush_sect_def)

text \<open>Sections with different names are appended in order.\<close>

lemma find_index_None: "find_index P xs = None \<longleftrightarrow> (\<forall>x \<in> set xs. \<not> P x)"
  by (induction xs) auto

lemma find_index_NoneI: "\<forall>x \<in> set xs. \<not> P x \<Longrightarrow> find_index P xs = None"
  by (simp add: find_index_None)

lemma find_index_Some: "find_index P xs = Some i \<Longrightarrow> i < length xs \<and> P (xs ! i) \<and> (\<forall>j<i. \<not> P (xs ! j))"
proof (induction xs arbitrary: i)
  case (Cons x xs)
  then show ?case
    by (cases i) (auto split: if_splits simp: less_Suc_eq_0_disj)
qed simp

lemma add_sect_new:
  "\<forall>esc \<in> set (cf_sects cfg). \<not> stricmp_eq (sc_name esc) (sc_name sc) \<Longrightarrow>
     add_sect cfg sc = cfg\<lparr>cf_sects := cf_sects cfg @ [sc]\<rparr>"
  by (simp add: add_sect_def find_section_def find_index_NoneI)

lemma fold_add_sect_distinct:
  assumes "sorted_wrt (\<lambda>a b. \<not> stricmp_eq (sc_name a) (sc_name b)) (cf_sects cfg @ scs)"
  shows "fold (\<lambda>sc cfg. add_sect cfg sc) scs cfg = cfg\<lparr>cf_sects := cf_sects cfg @ scs\<rparr>"
  using assms
proof (induction scs arbitrary: cfg)
  case (Cons sc scs)
  then have "add_sect cfg sc = cfg\<lparr>cf_sects := cf_sects cfg @ [sc]\<rparr>"
    by (intro add_sect_new) (auto simp: sorted_wrt_append)
  with Cons.IH [of "add_sect cfg sc"] Cons.prems show ?case by simp
qed simp

subsection \<open>Every file\<close>

text \<open>The class and the names of the sections, and the text after the last line end.\<close>

definition other_name :: "'d nrdpx_section_t \<Rightarrow> 'd nrdpx_section_t \<Rightarrow> bool" where
  "other_name a b \<longleftrightarrow> sc_name b = [] \<or> \<not> stricmp_eq (sc_name a) (sc_name b)"

definition names_distinct :: "'d nrdpx_config_t \<Rightarrow> bool" where
  "names_distinct cfg \<longleftrightarrow> sorted_wrt other_name (cf_sects cfg)"

lemma sorted_wrt_map_name:
  "sorted_wrt other_name zs \<longleftrightarrow> sorted_wrt (\<lambda>a b. b = [] \<or> \<not> stricmp_eq a b) (map sc_name zs)"
  by (simp add: sorted_wrt_map other_name_def [abs_def])

text \<open>Section names stay distinct up to case, whatever section is added.\<close>

lemma names_distinct_add_sect:
  assumes "names_distinct cfg"
  shows "names_distinct (add_sect cfg sc)"
proof (cases "find_section cfg (sc_name sc) False")
  case None
  then have "\<forall>esc \<in> set (cf_sects cfg). other_name esc sc"
    by (auto simp: find_section_def find_index_None other_name_def split: if_splits)
  with None assms show ?thesis
    by (simp add: add_sect_def names_distinct_def sorted_wrt_append)
next
  case (Some i)
  then have i: "i < length (cf_sects cfg)"
    by (auto simp: find_section_def split: if_splits dest: find_index_Some)
  let ?esc = "cf_sects cfg ! i"
  have "map sc_name ((cf_sects cfg)[i := ?esc\<lparr>sc_items := m\<rparr>]) = map sc_name (cf_sects cfg)" for m
    using i by (simp add: map_update) (metis length_map list_update_id nth_map)
  with Some assms show ?thesis
    by (simp add: add_sect_def names_distinct_def sorted_wrt_map_name Let_def)
qed

definition sects_match :: "'d nrdpx_config_t \<Rightarrow> bool" where
  "sects_match cfg \<longleftrightarrow> (\<forall>sc \<in> set (cf_sects cfg). class_match (cf_class cfg) (sc_name sc))"

lemma sects_match_add_sect:
  assumes "sects_match cfg" "class_match (cf_class cfg) (sc_name sc)"
  shows "sects_match (add_sect cfg sc)"
proof (cases "find_section cfg (sc_name sc) False")
  case (Some i)
  then have "i < length (cf_sects cfg)"
    by (auto simp: find_section_def split: if_splits dest: find_index_Some)
  with Some assms show ?thesis
    by (auto simp: add_sect_def sects_match_def Let_def dest!: subsetD [OF set_update_subset_insert])
qed (use assms in \<open>auto simp: add_sect_def sects_match_def\<close>)

definition load_inv :: "'d load_state \<Rightarrow> bool" where
  "load_inv st \<longleftrightarrow> names_distinct (ld_cfg st) \<and> sects_match (ld_cfg st)
     \<and> (\<forall>sc. ld_sc st = Some sc \<longrightarrow> class_match (cf_class (ld_cfg st)) (sc_name sc))"

lemma add_item_name [simp]: "sc_name (add_item sc ln) = sc_name sc"
  by (simp add: add_item_def Let_def split: prod.split)

lemma load_inv_step: "load_inv st \<Longrightarrow> load_inv (load_step c st)"
  by (auto simp: load_inv_def load_step_def class_match_def Let_def new_section_def
      intro: names_distinct_add_sect sects_match_add_sect split: option.splits)

lemma load_inv_fold: "load_inv st \<Longrightarrow> load_inv (fold load_step cs st)"
  by (induction cs arbitrary: st) (auto intro: load_inv_step)

lemma load_inv_finish:
  "load_inv st \<Longrightarrow> names_distinct (load_finish st) \<and> sects_match (load_finish st)"
  by (auto simp: load_inv_def load_finish_def intro: names_distinct_add_sect sects_match_add_sect
      split: option.splits)

lemma load_inv_start: "load_inv (load_start new_config cls)"
  by (simp add: load_inv_def load_start_def new_config_def names_distinct_def sects_match_def)

lemma load_text_inv:
  fixes cfg :: "'d nrdpx_config_t"
  assumes "cfg = load_text new_config cls buf"
  shows "names_distinct cfg \<and> sects_match cfg"
  unfolding assms load_text_def by (rule load_inv_finish, rule load_inv_fold, rule load_inv_start)

subsection \<open>Line ends of a file\<close>

lemma load_step_newline_same: "load_step cr st = load_step lf st"
  by (simp add: load_step_def)

lemma load_step_newline_ln: "ld_ln (load_step lf st) = None \<and> \<not> ld_tp (load_step lf st)"
  by (simp add: load_step_def split: option.splits)

lemma load_step_crlf: "load_step lf (load_step cr st) = load_step lf st"
proof -
  have "ld_ln (load_step lf st) = None" "ld_tp (load_step lf st) = False"
    using load_step_newline_ln by blast+
  then show ?thesis
    by (simp add: load_step_newline_same) (simp add: load_step_def [of lf "load_step lf st"])
qed

lemma load_fold_win_unix: "fold load_step (eol [cr, lf] s) st = fold load_step (eol [lf] s) st"
  by (induction "[lf]" s arbitrary: st rule: eol.induct) (auto simp: load_step_crlf)

text \<open>Text after the last line end is never seen, unless it opens a section.\<close>

lemma fold_load_after_newline:
  assumes "in_line (c # xs)" "c \<noteq> CHR ''[''"
  shows "load_finish (fold load_step (s @ lf # c # xs) st) = load_finish (fold load_step (s @ [lf]) st)"
proof -
  let ?st = "fold load_step (s @ [lf]) st"
  have "ld_ln ?st = None" using load_step_newline_ln [of "fold load_step s st"] by simp
  then obtain cm where first: "load_step c ?st = ?st\<lparr>ld_ln := Some [c], ld_tp := False, ld_cm := cm\<rparr>"
    using assms by (auto simp: load_step_def)
  have "fold load_step xs (load_step c ?st)
      = ?st\<lparr>ld_ln := Some ([c] @ xs), ld_tp := False, ld_cm := cm\<rparr>"
    unfolding first using assms by (subst fold_load_text) auto
  then show ?thesis by (simp add: load_finish_def split: option.split)
qed

lemma load_text_last_line_lost:
  assumes "in_line (c # xs)" "c \<noteq> CHR ''[''" "CHR 0x00 \<notin> set (s @ c # xs)"
  shows "load_text cfg cls (s @ lf # c # xs) = load_text cfg cls (s @ [lf])"
  using assms fold_load_after_newline [of c xs s] by (simp add: load_text_def)

subsection \<open>Lists of values\<close>

lemma get_strings_idem: "get_strings (snd (get_strings sc k)) k = (fst (get_strings sc k), snd (get_strings sc k))"
  by (auto simp: get_strings_def Let_def split: option.splits)

lemma get_strings_other: "k \<noteq> k' \<Longrightarrow> sc_items (snd (get_strings sc k)) k' = sc_items sc k'"
  by (auto simp: get_strings_def Let_def split: option.splits)

lemma split_loop_word:
  "w \<noteq> [] \<Longrightarrow> (\<And>c. c \<in> set w \<Longrightarrow> \<not> is_list_sep c \<and> c \<noteq> CHR 0x22) \<Longrightarrow>
     split_loop (w @ cs) False False vls = split_loop cs False True (vls @ [w])"
proof -
  have more: "(\<And>c. c \<in> set w \<Longrightarrow> \<not> is_list_sep c \<and> c \<noteq> CHR 0x22) \<Longrightarrow>
      split_loop (w @ cs) False True (vls @ [u]) = split_loop cs False True (vls @ [u @ w])" for w u
    by (induction w arbitrary: u) auto
  assume "w \<noteq> []" "\<And>c. c \<in> set w \<Longrightarrow> \<not> is_list_sep c \<and> c \<noteq> CHR 0x22"
  then show ?thesis
    using more [of "tl w" "[hd w]"] by (cases w) auto
qed

text \<open>Words joined by single separators are split back.\<close>

fun join_words :: "char \<Rightarrow> string list \<Rightarrow> string" where
  "join_words sep [] = []"
| "join_words sep [w] = w"
| "join_words sep (w # ws) = w @ sep # join_words sep ws"

lemma split_join_words:
  assumes sep: "is_list_sep sep"
    and ws: "\<And>w c. w \<in> set ws \<Longrightarrow> w \<noteq> [] \<and> (c \<in> set w \<longrightarrow> \<not> is_list_sep c \<and> c \<noteq> CHR 0x22)"
  shows "split_loop (join_words sep ws) False False vls = vls @ ws"
  using sep ws
proof (induction sep ws arbitrary: vls rule: join_words.induct)
  case (2 sep w)
  then show ?case using split_loop_word [of w "[]" vls] by simp
next
  case (3 sep w w' ws)
  have "sep \<noteq> CHR 0x22" using "3.prems"(1) unfolding is_list_sep_def by (elim disjE) simp_all
  have "split_loop (join_words sep (w # w' # ws)) False False vls
      = split_loop (sep # join_words sep (w' # ws)) False True (vls @ [w])"
    unfolding join_words.simps by (rule split_loop_word) (use "3.prems"(2) in auto)
  also have "\<dots> = split_loop (join_words sep (w' # ws)) False False (vls @ [w])"
    using "3.prems"(1) \<open>sep \<noteq> CHR 0x22\<close> by simp
  also have "\<dots> = (vls @ [w]) @ w' # ws"
    by (rule "3.IH") (use "3.prems" in auto)
  finally show ?case by simp
qed simp

lemma join_words_chars: "c \<in> set (join_words sep ws) \<Longrightarrow> c = sep \<or> (\<exists>w\<in>set ws. c \<in> set w)"
  by (induction sep ws rule: join_words.induct) auto

lemma get_strings_words:
  assumes sep: "is_list_sep sep"
    and ws: "\<forall>w\<in>set ws. w \<noteq> [] \<and> CHR 0x00 \<notin> set w \<and> (\<forall>c\<in>set w. \<not> is_list_sep c \<and> c \<noteq> CHR 0x22)"
    and ne: "ws \<noteq> []" and it: "sc_items sc key = Some \<lparr>it_val = join_words sep ws, it_vls = []\<rparr>"
  shows "fst (get_strings sc key) = ws"
proof -
  have "CHR 0x00 \<notin> set (join_words sep ws)"
    using sep ws by (auto dest!: join_words_chars simp: is_list_sep_def)
  moreover have "split_loop (join_words sep ws) False False [] = ws"
    using split_join_words [OF sep, of ws "[]"] ws by simp
  ultimately show ?thesis using ne it by (simp add: get_strings_def)
qed

lemma load_text_win_unix:
  assumes "CHR 0x00 \<notin> set s"
  shows "load_text cfg cls (crlf_to_win s) = load_text cfg cls (crlf_to_unix s)"
proof -
  have "CHR 0x00 \<notin> set (eol [cr, lf] s)" "CHR 0x00 \<notin> set (eol [lf] s)"
    using assms by (simp_all add: eol_chars)
  then show ?thesis
    by (simp add: load_text_def crlf_to_win_def crlf_to_unix_def crlf_to_eol load_fold_win_unix)
qed

subsection \<open>Going over the sections\<close>

text \<open>An iterator is the number of the section; the end is the number of sections.\<close>

definition get_name :: "'d nrdpx_section_t \<Rightarrow> string" where "get_name = sc_name"
definition cfg_begin :: "'d nrdpx_config_t \<Rightarrow> nat" where "cfg_begin cfg = 0"
definition cfg_end :: "'d nrdpx_config_t \<Rightarrow> nat" where "cfg_end cfg = length (cf_sects cfg)"
definition cfg_empty :: "'d nrdpx_config_t \<Rightarrow> bool" where "cfg_empty cfg = (cf_sects cfg = [])"

definition cfg_next :: "'d nrdpx_config_t \<Rightarrow> nat \<Rightarrow> nat" where
  "cfg_next cfg iPrev = (if iPrev = cfg_end cfg then iPrev else iPrev + 1)"

definition get_section :: "'d nrdpx_config_t \<Rightarrow> nat \<Rightarrow> 'd nrdpx_section_t option" where
  "get_section cfg iIter = (if iIter = cfg_end cfg then None else Some (cf_sects cfg ! iIter))"

text \<open>The sections in the order of the file, and then none.\<close>

lemma cfg_next_iterates: "(cfg_next cfg ^^ k) (cfg_begin cfg) = min k (cfg_end cfg)"
  by (induction k) (auto simp: cfg_begin_def cfg_next_def)

lemma cfg_iterates_sections:
  "map (\<lambda>k. get_section cfg ((cfg_next cfg ^^ k) (cfg_begin cfg))) [0..<cfg_end cfg] = map Some (cf_sects cfg)"
  "cfg_end cfg \<le> k \<Longrightarrow> get_section cfg ((cfg_next cfg ^^ k) (cfg_begin cfg)) = None"
  by (auto simp: cfg_next_iterates get_section_def cfg_end_def intro: nth_equalityI)

lemma first_section_begin: "first_section cfg = get_section cfg (cfg_begin cfg)"
  by (simp add: first_section_def get_section_def cfg_begin_def cfg_end_def split: list.split)

end
