(* ===== verification/Loader.thy ===== *)
theory Loader
  imports Mainloop Config
begin

text \<open>
  \<open>nrdpx_load_config\<close> of \<open>src/src/nrdpx_server.cpp\<close>: the proxy object from the
  configuration file.

  The pointer that a section carries to its client or server is the index of that object in the
  proxy's table.  The result is whether the program goes on, and the proxy as the function left
  it; the log messages leave no trace.
\<close>

definition size_mode_of :: "int \<Rightarrow> size_mode" where
  "size_mode_of n = (if n = 0 then MODE_SYSTEM else if n = 1 then MODE_ALIGN else MODE_MAXBUF)"

definition check_mode_of :: "int \<Rightarrow> check_mode" where
  "check_mode_of n = (if n = 0 then CHECK_NONE else if n = 1 then CHECK_CONN
     else if n = 2 then CHECK_INFO else CHECK_SYNC)"

subsection \<open>The common options\<close>

definition load_listeners :: "nat nrdpx_section_t \<Rightarrow> nrdpx_listener_t list" where
  "load_listeners sc =
     (if \<not> key_exists sc ''listeners''
      then [listener_init ''0.0.0.0'' NRDPX_CONN_PORT, listener_init ''[::]'' NRDPX_CONN_PORT]
      else map listener_of_addr (fst (get_strings sc ''listeners'')))"

definition load_cache_timeout :: "nat nrdpx_section_t \<Rightarrow> int" where
  "load_cache_timeout sc =
     (let timeout = get_integer sc ''cache_timeout'' 60 in
      if timeout \<noteq> 0 \<and> timeout < 5 then 5 else timeout)"

definition load_options :: "nat nrdpx_section_t \<Rightarrow> nrdpx_proxy_t \<Rightarrow> nrdpx_proxy_t" where
  "load_options sc px =
     (let px = px\<lparr>px_info_enabled := get_boolean sc ''info_enabled'' (px_info_enabled px)\<rparr>;
          px = (if px_info_enabled px
                then px\<lparr>px_info_port := get_integer sc ''info_port'' (px_info_port px),
                        px_info_period := xtl_max 10 (get_integer sc ''info_period'' (px_info_period px))\<rparr>
                else px);
          px = px\<lparr>px_status_period := xtl_max 60 (get_integer sc ''status_period'' (px_status_period px))\<rparr>;
          timeout = load_cache_timeout sc;
          px = px\<lparr>px_cache := (px_cache px)\<lparr>ca_timeout := timeout,
                     ca_mode := (if timeout > 0 then CACHE_TEMP else CACHE_NONE)\<rparr>\<rparr>
      in px\<lparr>px_conn_timeout := fit (get_integer sc ''conn_timeout'' (px_conn_timeout px)) 10 900,
            px_max_faults := xtl_max 1 (get_integer sc ''max_faults'' (px_max_faults px)),
            px_socket_mode := size_mode_of (fit (get_integer sc ''socket_mode'' 0) 0 2),
            px_buffer_mode := size_mode_of (fit (get_integer sc ''buffer_mode'' 0) 0 2),
            px_max_buffer := fit (get_integer sc ''max_buffer'' (px_max_buffer px))
                                 NRDPX_BUFFER_SIZE_MIN NRDPX_BUFFER_SIZE_MAX\<rparr>)"

subsection \<open>Clients and servers\<close>

definition load_client :: "resolver \<Rightarrow> nat nrdpx_section_t \<Rightarrow> nrdpx_client_t option \<times> nat nrdpx_section_t" where
  "load_client R sc =
     (let (ss, sc) = get_strings sc ''sources'';
          c = new_client_t\<lparr>cl_name := sc_name sc, cl_sources := List.map_filter (parse_cidr_notation R) ss\<rparr>;
          c = c\<lparr>cl_max_slots := xtl_max 0 (get_integer sc ''max_slots'' (cl_max_slots c))\<rparr>
      in (if cl_sources c = [] then None else Some c, sc))"

definition load_server_fields :: "bool \<Rightarrow> nat nrdpx_section_t \<Rightarrow> nrdpx_server_t" where
  "load_server_fields info_enabled sc =
     (let s = new_server\<lparr>sv_name := sc_name sc\<rparr>;
          (host, port) = parse_host_port (get_string sc ''address'' []) (sv_port s);
          s = s\<lparr>sv_host := host, sv_port := port, sv_info := (sv_info s)\<lparr>svc_port := word_of_int port\<rparr>,
                sv_check_mode := check_mode_of (fit (get_integer sc ''check_mode''
                                    (int (check_mode_code (sv_check_mode s)))) 0 3)\<rparr>;
          s = (if sv_check_mode s \<ge> CHECK_INFO then
                 if info_enabled then s\<lparr>sv_info_port := get_integer sc ''info_port'' (sv_info_port s)\<rparr>
                 else s\<lparr>sv_check_mode := CHECK_CONN\<rparr>
               else s)
      in s\<lparr>sv_max_slots := xtl_max 0 (get_integer sc ''max_slots'' (sv_max_slots s)),
           sv_max_weight := fit (get_integer sc ''max_weight'' (sv_max_weight s)) 1 100,
           sv_redundant := get_boolean sc ''redundant'' False\<rparr>)"

definition load_server :: "bool \<Rightarrow> nat nrdpx_section_t \<Rightarrow> nrdpx_server_t option" where
  "load_server info_enabled sc =
     (let s = load_server_fields info_enabled sc in
      if sv_host s = [] \<or> sv_port s = 0 then None
      else if sv_max_slots s = 0 then None
      else Some (nrdpx_server_activate s))"

text \<open>The loops: a loaded object is appended and its index attached to its section.\<close>

fun load_clients ::
  "resolver \<Rightarrow> nat nrdpx_section_t list \<Rightarrow> nrdpx_client_t list \<Rightarrow> nat nrdpx_section_t list \<times> nrdpx_client_t list" where
  "load_clients R [] cls = ([], cls)"
| "load_clients R (sc # scs) cls =
     (case load_client R sc of
        (None, sc) \<Rightarrow> (let (scs, cls) = load_clients R scs cls in (sc # scs, cls))
      | (Some c, sc) \<Rightarrow> (let (scs, cls') = load_clients R scs (cls @ [c])
                       in (set_data sc (Some (length cls)) # scs, cls')))"

fun load_servers ::
  "bool \<Rightarrow> nat nrdpx_section_t list \<Rightarrow> nrdpx_server_t list \<Rightarrow> nat nrdpx_section_t list \<times> nrdpx_server_t list" where
  "load_servers info [] svs = ([], svs)"
| "load_servers info (sc # scs) svs =
     (case load_server info sc of
        None \<Rightarrow> (let (scs, svs) = load_servers info scs svs in (sc # scs, svs))
      | Some s \<Rightarrow> (let (scs, svs') = load_servers info scs (svs @ [s])
                 in (set_data sc (Some (length svs)) # scs, svs')))"

subsection \<open>Balancers\<close>

text \<open>The objects that a list of names refers to: all, or those of the sections found.\<close>

definition load_refs :: "nat nrdpx_config_t \<Rightarrow> nat \<Rightarrow> string list \<Rightarrow> nat list" where
  "load_refs cfg n ss =
     (if ss = [] \<or> stricmp_eq (ss ! 0) ''all'' then [0..<n]
      else List.map_filter (\<lambda>name. case find_section cfg name True of
                         None \<Rightarrow> None
                       | Some i \<Rightarrow> get_data (cf_sects cfg ! i)) ss)"

definition load_metric :: "string \<Rightarrow> 32 word \<Rightarrow> 32 word" where
  "load_metric s metrics =
     (if stricmp_eq s ''cap'' then metrics OR B_METRIC_CAP
      else if stricmp_eq s ''mem'' then metrics OR B_METRIC_MEM
      else if stricmp_eq s ''cpu'' then metrics OR B_METRIC_CPU else metrics)"

definition load_balancer ::
  "nat nrdpx_config_t \<Rightarrow> nat nrdpx_config_t \<Rightarrow> nat \<Rightarrow> nat \<Rightarrow> nat nrdpx_section_t \<Rightarrow> nrdpx_balancer_t option" where
  "load_balancer ccfg scfg ncl nsv sc =
     (let b = new_balancer\<lparr>bl_name := sc_name sc,
                bl_clients := load_refs ccfg ncl (fst (get_strings sc ''clients''))\<rparr> in
      if bl_clients b = [] then None
      else let b = b\<lparr>bl_servers := load_refs scfg nsv (fst (get_strings sc ''servers''))\<rparr> in
      if bl_servers b = [] then None
      else let metrics = fold load_metric (fst (get_strings sc ''metrics'')) 0 in
           Some (b\<lparr>bl_method := (if stricmp_eq (get_string sc ''method'' []) ''byrequests''
                                then B_METHOD_BYREQUESTS else B_METHOD_BYBUSYNESS),
                   bl_metrics := (if metrics = 0 then B_METRIC_CAP else metrics)\<rparr>))"

subsection \<open>The whole configuration\<close>

definition nrdpx_load_config ::
  "resolver \<Rightarrow> (string \<Rightarrow> string option) \<Rightarrow> string \<Rightarrow> nrdpx_proxy_t \<Rightarrow> bool \<times> nrdpx_proxy_t" where
  "nrdpx_load_config R fs cfg_path px =
     (let (loaded, proxy_cfg) = load_from_file fs cfg_path ''proxy'' (new_config :: nat nrdpx_config_t) in
      if \<not> loaded then (False, px)
      else case first_section proxy_cfg of
        None \<Rightarrow> (False, px)
      | Some sc \<Rightarrow>
          let px = px\<lparr>px_listeners := px_listeners px @ load_listeners sc\<rparr> in
          if px_listeners px = [] then (False, px)
          else let px = load_options sc px;
                   scfg = snd (load_from_file fs cfg_path ''server'' new_config);
                   ccfg = snd (load_from_file fs cfg_path ''client'' new_config);
                   bcfg = snd (load_from_file fs cfg_path ''balancer'' (new_config :: nat nrdpx_config_t))
          in if cf_sects scfg = [] \<or> cf_sects ccfg = [] \<or> cf_sects bcfg = [] then (False, px)
             else let (csects, cls) = load_clients R (cf_sects ccfg) (px_clients px);
                      (ssects, svs) = load_servers (px_info_enabled px) (cf_sects scfg) (px_servers px);
                      ccfg = ccfg\<lparr>cf_sects := csects\<rparr>; scfg = scfg\<lparr>cf_sects := ssects\<rparr>;
                      px = px\<lparr>px_clients := cls, px_servers := svs,
                              px_balancers := px_balancers px @ List.map_filter
                                (load_balancer ccfg scfg (length cls) (length svs)) (cf_sects bcfg)\<rparr>
                  in (px_balancers px \<noteq> [], px))"

subsection \<open>Facts\<close>

text \<open>Sections come from the file without data.\<close>

definition no_data :: "'d load_state \<Rightarrow> bool" where
  "no_data st \<longleftrightarrow> (\<forall>sc\<in>set (cf_sects (ld_cfg st)). sc_data sc = None)
     \<and> (\<forall>sc. ld_sc st = Some sc \<longrightarrow> sc_data sc = None)"

lemma add_item_data [simp]: "sc_data (add_item sc t) = sc_data sc"
  by (simp add: add_item_def Let_def split: prod.splits)

lemma add_sect_data:
  assumes "\<forall>x\<in>set (cf_sects cfg). sc_data x = None" "sc_data sc = None" "y \<in> set (cf_sects (add_sect cfg sc))"
  shows "sc_data y = None"
proof (cases "find_section cfg (sc_name sc) False")
  case None
  with assms show ?thesis by (auto simp: add_sect_def)
next
  case (Some i)
  then have i: "i < length (cf_sects cfg)"
    by (auto simp: find_section_def Let_def split: if_splits dest: find_index_Some)
  let ?esc = "(cf_sects cfg ! i)\<lparr>sc_items := sc_items (cf_sects cfg ! i) ++ sc_items sc\<rparr>"
  have "y = ?esc \<or> y \<in> set (cf_sects cfg)"
    using assms(3) Some set_update_subset_insert [of "cf_sects cfg" i ?esc] by (auto simp: add_sect_def Let_def)
  moreover have "sc_data ?esc = None" using assms(1) i by simp
  ultimately show ?thesis using assms(1) by metis
qed

lemma no_data_step: "no_data st \<Longrightarrow> no_data (load_step c st)"
  unfolding no_data_def
  by (auto simp: load_step_def new_section_def Let_def dest: add_sect_data split: option.splits)

lemma no_data_load:
  assumes "sc \<in> set (cf_sects (snd (load_from_file fs path cls new_config)))"
  shows "sc_data sc = None"
proof -
  have fold: "no_data (fold load_step cs st)" if "no_data st" for cs and st :: "'a load_state"
    using that by (induction cs arbitrary: st) (auto simp: no_data_step)
  have "no_data (load_start (new_config :: 'a nrdpx_config_t) cls)"
    by (simp add: no_data_def load_start_def new_config_def)
  from fold [OF this] have "\<forall>x\<in>set (cf_sects (load_text new_config cls buf)). sc_data x = (None :: 'a option)" for buf
    by (auto simp: no_data_def load_text_def load_finish_def dest: add_sect_data split: option.splits)
  with assms show ?thesis
    by (auto simp: load_from_file_def new_config_def split: option.splits if_splits)
qed

text \<open>What a loaded object satisfies.\<close>

definition client_loaded :: "nrdpx_client_t \<Rightarrow> bool" where
  "client_loaded c \<longleftrightarrow> cl_sources c \<noteq> [] \<and> 0 \<le> cl_max_slots c \<and> cl_num_slots c = 0"

definition server_loaded :: "nrdpx_server_t \<Rightarrow> bool" where
  "server_loaded s \<longleftrightarrow> sv_host s \<noteq> [] \<and> sv_port s \<noteq> 0 \<and> 0 < sv_max_slots s \<and> 1 \<le> sv_max_weight s
     \<and> sv_max_weight s \<le> 100 \<and> sv_num_slots s = 0 \<and> sv_num_faults s = 0 \<and> sv_first_check s
     \<and> nrdpx_server_is_active (Some s)"

lemma get_strings_data [simp]: "sc_data (snd (get_strings sc k)) = sc_data sc"
  by (simp add: get_strings_def Let_def split: option.splits)

lemma load_client_spec:
  assumes "load_client R sc = (oc, sc')"
  shows "sc_data sc' = sc_data sc" "oc = Some c \<Longrightarrow> client_loaded c"
proof -
  show "sc_data sc' = sc_data sc"
  proof -
    obtain ss sc1 where g: "get_strings sc ''sources'' = (ss, sc1)" by fastforce
    then have "sc' = sc1" using assms by (simp add: load_client_def Let_def)
    with g show ?thesis using get_strings_data [of sc "''sources''"] by simp
  qed
  show "oc = Some c \<Longrightarrow> client_loaded c"
    using assms by (auto simp: load_client_def Let_def client_loaded_def new_client_t_def split: prod.splits if_splits)
qed

lemma activate_simps [simp]:
  "sv_host (nrdpx_server_activate s) = sv_host s" "sv_port (nrdpx_server_activate s) = sv_port s"
  "sv_max_slots (nrdpx_server_activate s) = sv_max_slots s" "sv_num_slots (nrdpx_server_activate s) = sv_num_slots s"
  "sv_max_weight (nrdpx_server_activate s) = sv_max_weight s" "sv_num_faults (nrdpx_server_activate s) = sv_num_faults s"
  "sv_first_check (nrdpx_server_activate s) = sv_first_check s"
  "sv_check_mode (nrdpx_server_activate s) = sv_check_mode s"
  by (simp_all add: nrdpx_server_activate_def)

lemma load_server_fields_spec:
  "0 \<le> sv_max_slots (load_server_fields info sc)" "1 \<le> sv_max_weight (load_server_fields info sc)"
  "sv_max_weight (load_server_fields info sc) \<le> 100" "sv_num_slots (load_server_fields info sc) = 0"
  "sv_num_faults (load_server_fields info sc) = 0" "sv_first_check (load_server_fields info sc)"
  using fit_bounds [of 1 "100 :: int" "get_integer sc ''max_weight'' 100"]
  by (auto simp: load_server_fields_def Let_def new_server_def split: prod.splits)

lemma load_server_spec: "load_server info sc = Some s \<Longrightarrow> server_loaded s"
  using load_server_fields_spec [of info sc]
  by (auto simp: load_server_def Let_def server_loaded_def split: if_splits)

lemma load_clients_spec:
  assumes "load_clients R scs cls = (scs', cls')" "\<forall>sc\<in>set scs. sc_data sc = None"
  shows "\<exists>new. cls' = cls @ new \<and> (\<forall>c\<in>set new. client_loaded c)
    \<and> (\<forall>sc\<in>set scs'. \<forall>i. sc_data sc = Some i \<longrightarrow> i < length cls')"
  using assms
proof (induction scs arbitrary: cls scs' cls')
  case (Cons sc scs)
  obtain oc sc1 where l: "load_client R sc = (oc, sc1)" by fastforce
  note lc = load_client_spec [OF l]
  show ?case
  proof (cases oc)
    case None
    obtain scs1 where r: "load_clients R scs cls = (scs1, cls')" "scs' = sc1 # scs1"
      using Cons.prems(1) l None by (auto simp: Let_def split: prod.splits)
    from Cons.IH [OF r(1)] Cons.prems(2) lc(1) r(2) show ?thesis by fastforce
  next
    case (Some c)
    obtain scs1 where r: "load_clients R scs (cls @ [c]) = (scs1, cls')" "scs' = set_data sc1 (Some (length cls)) # scs1"
      using Cons.prems(1) l Some by (auto simp: Let_def split: prod.splits)
    from Cons.IH [OF r(1)] Cons.prems(2) obtain new where
      "cls' = (cls @ [c]) @ new" "\<forall>c\<in>set new. client_loaded c"
      "\<forall>sc\<in>set scs1. \<forall>i. sc_data sc = Some i \<longrightarrow> i < length cls'" by auto
    with lc(2) [OF Some] r(2) show ?thesis
      by (intro exI [of _ "c # new"]) (auto simp: set_data_def)
  qed
qed auto

lemma load_servers_spec:
  assumes "load_servers info scs svs = (scs', svs')" "\<forall>sc\<in>set scs. sc_data sc = None"
  shows "\<exists>new. svs' = svs @ new \<and> (\<forall>s\<in>set new. server_loaded s)
    \<and> (\<forall>sc\<in>set scs'. \<forall>i. sc_data sc = Some i \<longrightarrow> i < length svs')"
  using assms
proof (induction scs arbitrary: svs scs' svs')
  case (Cons sc scs)
  show ?case
  proof (cases "load_server info sc")
    case None
    obtain scs1 where r: "load_servers info scs svs = (scs1, svs')" "scs' = sc # scs1"
      using Cons.prems(1) None by (auto simp: Let_def split: prod.splits)
    from Cons.IH [OF r(1)] Cons.prems(2) r(2) show ?thesis by fastforce
  next
    case (Some s)
    obtain scs1 where r: "load_servers info scs (svs @ [s]) = (scs1, svs')" "scs' = set_data sc (Some (length svs)) # scs1"
      using Cons.prems(1) Some by (auto simp: Let_def split: prod.splits)
    from Cons.IH [OF r(1)] Cons.prems(2) obtain new where
      "svs' = (svs @ [s]) @ new" "\<forall>s\<in>set new. server_loaded s"
      "\<forall>sc\<in>set scs1. \<forall>i. sc_data sc = Some i \<longrightarrow> i < length svs'" by auto
    with load_server_spec [OF Some] r(2) show ?thesis
      by (intro exI [of _ "s # new"]) (auto simp: set_data_def)
  qed
qed auto

lemma load_refs_bound:
  assumes "\<forall>sc\<in>set (cf_sects cfg). \<forall>i. sc_data sc = Some i \<longrightarrow> i < n" "p \<in> set (load_refs cfg n ss)"
  shows "p < n"
proof (cases "ss = [] \<or> stricmp_eq (ss ! 0) ''all''")
  case True
  with assms(2) show ?thesis by (simp add: load_refs_def)
next
  case False
  with assms(2) obtain name i where "find_section cfg name True = Some i" "get_data (cf_sects cfg ! i) = Some p"
    by (auto simp: load_refs_def map_filter_def split: option.splits)
  moreover from this(1) have "i < length (cf_sects cfg)"
    by (auto simp: find_section_def Let_def split: if_splits dest: find_index_Some)
  ultimately show ?thesis using assms(1) nth_mem unfolding get_data_def by blast
qed

definition balancer_loaded :: "nat \<Rightarrow> nat \<Rightarrow> nrdpx_balancer_t \<Rightarrow> bool" where
  "balancer_loaded ncl nsv b \<longleftrightarrow> balancer_ok ncl nsv b \<and> bl_clients b \<noteq> [] \<and> bl_servers b \<noteq> [] \<and> bl_metrics b \<noteq> 0"

lemma load_balancer_spec:
  assumes "load_balancer ccfg scfg ncl nsv sc = Some b"
    "\<forall>sc\<in>set (cf_sects ccfg). \<forall>i. sc_data sc = Some i \<longrightarrow> i < ncl"
    "\<forall>sc\<in>set (cf_sects scfg). \<forall>i. sc_data sc = Some i \<longrightarrow> i < nsv"
  shows "balancer_loaded ncl nsv b"
  using assms(1) load_refs_bound [OF assms(2)] load_refs_bound [OF assms(3)]
  by (auto simp: load_balancer_def Let_def balancer_loaded_def balancer_ok_def B_METRIC_CAP_def split: if_splits)

definition options_ok :: "nrdpx_proxy_t \<Rightarrow> bool" where
  "options_ok px \<longleftrightarrow> 10 \<le> px_conn_timeout px \<and> px_conn_timeout px \<le> 900 \<and> 1 \<le> px_max_faults px
     \<and> NRDPX_BUFFER_SIZE_MIN \<le> px_max_buffer px \<and> px_max_buffer px \<le> NRDPX_BUFFER_SIZE_MAX
     \<and> 60 \<le> px_status_period px
     \<and> (ca_timeout (px_cache px) = 0 \<or> 5 \<le> ca_timeout (px_cache px))
     \<and> (ca_mode (px_cache px) = CACHE_NONE \<longleftrightarrow> ca_timeout (px_cache px) = 0)"

lemma load_options_ok: "options_ok (load_options sc px)"
  using fit_bounds [of 10 900 "get_integer sc ''conn_timeout'' (px_conn_timeout px)"]
    fit_bounds [of NRDPX_BUFFER_SIZE_MIN NRDPX_BUFFER_SIZE_MAX "get_integer sc ''max_buffer'' (px_max_buffer px)"]
  by (auto simp: options_ok_def load_options_def Let_def load_cache_timeout_def NRDPX_BUFFER_SIZE_MIN_def
      NRDPX_BUFFER_SIZE_MAX_def socket_consts)

text \<open>A configuration that loads gives a proxy whose main loop can start: the options are
  within their bounds, the objects are usable, the references valid, and the invariant holds.\<close>

lemma accounts_start:
  assumes "\<forall>c\<in>set cls. cl_num_slots c = 0" "\<forall>s\<in>set svs. sv_num_slots s = 0"
  shows "accounts (\<lambda>p. None) [] cls svs"
  using assms by (intro accountsI) auto

lemma map_filter_elem: "x \<in> set (List.map_filter f xs) \<Longrightarrow> \<exists>y\<in>set xs. f y = Some x"
  by (auto simp: map_filter_def)

text \<open>What an object without channels consists of, whether the configuration loads or not.\<close>

definition tables_ok :: "nrdpx_proxy_t \<Rightarrow> bool" where
  "tables_ok w \<longleftrightarrow> px_channels w = [] \<and> px_routes w = (\<lambda>p. None) \<and> ca_routes (px_cache w) = []
     \<and> (\<forall>c\<in>set (px_clients w). client_loaded c) \<and> (\<forall>s\<in>set (px_servers w). server_loaded s)
     \<and> (\<forall>b\<in>set (px_balancers w). balancer_loaded (length (px_clients w)) (length (px_servers w)) b)"

lemma tables_ok_world: "tables_ok w \<Longrightarrow> world_ok w"
  using accounts_start [of "px_clients w" "px_servers w"]
  by (auto simp: tables_ok_def world_ok_def cache_ok_def client_loaded_def server_loaded_def balancer_loaded_def)

lemma load_config_spec:
  assumes load: "nrdpx_load_config R fs path (new_proxy t) = (ok, px)"
  shows "tables_ok px \<and> (ok \<longrightarrow> options_ok px \<and> px_listeners px \<noteq> [] \<and> px_balancers px \<noteq> [])"
proof -
  let ?lf = "load_from_file fs path"
  have new: "tables_ok (new_proxy t)" by (simp add: tables_ok_def new_proxy_def new_cache_def)
  obtain loaded pcfg where pc: "?lf ''proxy'' (new_config :: nat nrdpx_config_t) = (loaded, pcfg)" by fastforce
  show ?thesis
  proof (cases "\<not> loaded \<or> first_section pcfg = None")
    case True
    with load pc new show ?thesis by (auto simp: nrdpx_load_config_def Let_def split: option.splits)
  next
    case False
    then obtain sc where sc: "first_section pcfg = Some sc" and "loaded" by auto
    define p1 where "p1 = (new_proxy t)\<lparr>px_listeners := px_listeners (new_proxy t) @ load_listeners sc\<rparr>"
    define p2 where "p2 = load_options sc p1"
    define scfg where "scfg = snd (?lf ''server'' (new_config :: nat nrdpx_config_t))"
    define ccfg where "ccfg = snd (?lf ''client'' (new_config :: nat nrdpx_config_t))"
    define bcfg where "bcfg = snd (?lf ''balancer'' (new_config :: nat nrdpx_config_t))"
    obtain csects cls where c: "load_clients R (cf_sects ccfg) (px_clients p2) = (csects, cls)" by fastforce
    obtain ssects svs where s: "load_servers (px_info_enabled p2) (cf_sects scfg) (px_servers p2) = (ssects, svs)"
      by fastforce
    let ?bals = "List.map_filter (load_balancer (ccfg\<lparr>cf_sects := csects\<rparr>) (scfg\<lparr>cf_sects := ssects\<rparr>)
        (length cls) (length svs)) (cf_sects bcfg)"
    let ?px = "p2\<lparr>px_clients := cls, px_servers := svs, px_balancers := px_balancers p2 @ ?bals\<rparr>"
    have cases: "nrdpx_load_config R fs path (new_proxy t) = (if px_listeners p1 = [] then (False, p1)
      else if cf_sects scfg = [] \<or> cf_sects ccfg = [] \<or> cf_sects bcfg = [] then (False, p2)
      else (px_balancers ?px \<noteq> [], ?px))"
      using pc sc \<open>loaded\<close> c s
      by (simp add: nrdpx_load_config_def Let_def p1_def [symmetric] p2_def [symmetric] scfg_def [symmetric]
          ccfg_def [symmetric] bcfg_def [symmetric])
    have t1: "tables_ok p1" using new by (simp add: p1_def tables_ok_def)
    have t2: "tables_ok p2" using t1 by (simp add: p2_def load_options_def tables_ok_def Let_def)
    have start: "px_clients p2 = []" "px_servers p2 = []" "px_balancers p2 = []" "px_listeners p2 = px_listeners p1"
      by (simp_all add: p2_def load_options_def p1_def new_proxy_def new_cache_def Let_def)
    have cls: "\<forall>c\<in>set cls. client_loaded c" "\<forall>sc\<in>set csects. \<forall>i. sc_data sc = Some i \<longrightarrow> i < length cls"
      using load_clients_spec [OF c] no_data_load [of _ fs path "''client''"] start by (auto simp: ccfg_def)
    have svs: "\<forall>s\<in>set svs. server_loaded s" "\<forall>sc\<in>set ssects. \<forall>i. sc_data sc = Some i \<longrightarrow> i < length svs"
      using load_servers_spec [OF s] no_data_load [of _ fs path "''server''"] start by (auto simp: scfg_def)
    have bals: "\<forall>b\<in>set ?bals. balancer_loaded (length cls) (length svs) b"
      using load_balancer_spec cls(2) svs(2) by (fastforce dest: map_filter_elem)
    have t3: "tables_ok ?px" using t2 cls(1) svs(1) bals start by (simp add: tables_ok_def)
    have "options_ok ?px" using load_options_ok [of sc p1] by (simp add: p2_def [symmetric] options_ok_def)
    with cases load t1 t2 t3 start show ?thesis by (auto split: if_splits)
  qed
qed

text \<open>The loader opens no socket.\<close>

lemma load_options_closed: "px_fds (load_options sc px) = px_fds px \<and> px_listeners (load_options sc px) = px_listeners px"
  by (simp add: load_options_def Let_def)

lemma load_listeners_closed: "l \<in> set (load_listeners sc) \<Longrightarrow> ls_sock l = NRD_NOSOCK"
  by (auto simp: load_listeners_def listener_of_addr_def listener_init_def Let_def split: if_splits prod.splits)

lemma load_config_listeners:
  assumes "nrdpx_load_config R fs path px0 = (ok, px)"
  shows "px_fds px = px_fds px0 \<and> (\<exists>ls. px_listeners px = px_listeners px0 @ ls \<and> (\<forall>l\<in>set ls. ls_sock l = NRD_NOSOCK))"
  using assms load_listeners_closed
  by (auto simp: nrdpx_load_config_def Let_def load_options_closed split: option.splits prod.splits if_split_asm)

lemma load_config_closed:
  assumes "nrdpx_load_config R fs path (new_proxy t) = (ok, px)"
  shows "px_fds px = {} \<and> (\<forall>l\<in>set (px_listeners px). ls_sock l = NRD_NOSOCK)"
  using load_config_listeners [OF assms] by (auto simp: new_proxy_def)

end
