(* ===== verification/Process.thy ===== *)
theory Process
  imports Loader Tracker
begin

text \<open>
  The process around the proxy in \<open>src/src/nrdpx_server.cpp\<close>: the command line, the log, the
  pid file, the daemon modes, the listeners, and the signals.

  The global variables are the record \<open>process_t\<close>.  What the system does is an argument: the
  working directory and \<open>realpath\<close>, whether the log file opens, the contents of the pid file,
  which pids are alive.
\<close>

definition NRDPX_LOG_OUT_FILE :: "32 word" where "NRDPX_LOG_OUT_FILE = 1"
definition NRDPX_LOG_OUT_CONS :: "32 word" where "NRDPX_LOG_OUT_CONS = 2"
definition NRDPX_LOG_OUT_SLOG :: "32 word" where "NRDPX_LOG_OUT_SLOG = 4"

lemmas log_outs = NRDPX_LOG_OUT_FILE_def NRDPX_LOG_OUT_CONS_def NRDPX_LOG_OUT_SLOG_def

definition NRD_NOPID :: int where "NRD_NOPID = -1"

datatype daemon_mode = DAEMON_NONE | DAEMON_LITE | DAEMON_FULL

record process_t =
  g_log_out :: "32 word"
  g_log_lvl :: int
  g_log_app :: bool
  g_log_fdd :: bool
  g_pid_path :: string
  g_cfg_path :: string
  g_log_path :: string
  g_detached :: bool
  g_terminated :: bool
  g_daemon_mode :: daemon_mode
  g_current_pid :: int

definition process_init :: "int \<Rightarrow> process_t" where
  "process_init pid = \<lparr>g_log_out = 0, g_log_lvl = 6, g_log_app = False, g_log_fdd = False,
     g_pid_path = ''/var/run/nrdproxyd.pid'', g_cfg_path = ''/etc/nuords/nrdproxyd.cfg'',
     g_log_path = ''/var/log/nrdproxyd.log'', g_detached = False, g_terminated = False,
     g_daemon_mode = DAEMON_NONE, g_current_pid = pid\<rparr>"

subsection \<open>The command line\<close>

text \<open>The options in the order of the tests; \<open>A_exit\<close> prints a text and ends the program.\<close>

datatype arg_kind = A_skip | A_cf | A_la | A_lf | A_lc | A_ls | A_lv | A_ll | A_exit | A_dd | A_dl | A_pf

definition arg_kind :: "string \<Rightarrow> arg_kind" where
  "arg_kind ar =
     (if c_str ar = [] then A_skip
      else if stricmp_eq ar ''-cf'' then A_cf
      else if stricmp_eq ar ''-la'' then A_la
      else if stricmp_eq ar ''-lf'' then A_lf
      else if stricmp_eq ar ''-lc'' then A_lc
      else if stricmp_eq ar ''-ls'' then A_ls
      else if stricmp_eq ar ''-lv'' then A_lv
      else if stricmp_eq ar ''-ll'' then A_ll
      else if stricmp_eq ar ''-c'' \<or> stricmp_eq ar ''--c'' \<or> stricmp_eq ar ''-w'' \<or> stricmp_eq ar ''--w'' then A_exit
      else if strnicmp_eq ar ''-h'' 2 \<or> strnicmp_eq ar ''--h'' 3 then A_exit
      else if strnicmp_eq ar ''-v'' 2 \<or> strnicmp_eq ar ''--v'' 3 then A_exit
      else if stricmp_eq ar ''-dd'' then A_dd
      else if stricmp_eq ar ''-dl'' then A_dl
      else if stricmp_eq ar ''-pf'' then A_pf
      else A_skip)"

definition takes_value :: "arg_kind \<Rightarrow> bool" where
  "takes_value k \<longleftrightarrow> k = A_cf \<or> k = A_lf \<or> k = A_ll \<or> k = A_pf"

definition set_option :: "arg_kind \<Rightarrow> string \<Rightarrow> process_t \<Rightarrow> process_t" where
  "set_option k v g = (case k of
     A_cf \<Rightarrow> g\<lparr>g_cfg_path := v\<rparr>
   | A_la \<Rightarrow> g\<lparr>g_log_app := True\<rparr>
   | A_lf \<Rightarrow> g\<lparr>g_log_out := g_log_out g OR NRDPX_LOG_OUT_FILE, g_log_path := v\<rparr>
   | A_lc \<Rightarrow> g\<lparr>g_log_out := g_log_out g OR NRDPX_LOG_OUT_CONS\<rparr>
   | A_ls \<Rightarrow> g\<lparr>g_log_out := g_log_out g OR NRDPX_LOG_OUT_SLOG\<rparr>
   | A_lv \<Rightarrow> g\<lparr>g_log_lvl := 7\<rparr>
   | A_ll \<Rightarrow> g\<lparr>g_log_lvl := fit (stoi v) 0 7\<rparr>
   | A_dd \<Rightarrow> g\<lparr>g_daemon_mode := DAEMON_FULL\<rparr>
   | A_dl \<Rightarrow> g\<lparr>g_daemon_mode := DAEMON_LITE\<rparr>
   | A_pf \<Rightarrow> if c_str v \<noteq> [] then g\<lparr>g_pid_path := v\<rparr> else g
   | _ \<Rightarrow> g)"

text \<open>The loop.  An element of \<open>argv\<close> that is \<open>None\<close> is a null pointer; the result is
  \<open>None\<close> when the program ends here.\<close>

fun parse_args :: "string option list \<Rightarrow> process_t \<Rightarrow> process_t option" where
  "parse_args [] g = Some g"
| "parse_args (None # as) g = parse_args as g"
| "parse_args [Some ar] g =
     (let k = arg_kind ar in
      if k = A_exit then None else if takes_value k then Some g else Some (set_option k [] g))"
| "parse_args (Some ar # v # as) g =
     (let k = arg_kind ar in
      if k = A_exit then None
      else if takes_value k then parse_args as (set_option k (ssafe v) g)
      else parse_args (v # as) (set_option k [] g))"

definition nrdpx_real_path :: "string option \<Rightarrow> (string \<Rightarrow> string option) \<Rightarrow> string \<Rightarrow> string" where
  "nrdpx_real_path cwd realpath s =
     (if s = [] \<or> s ! 0 = CHR ''/'' then s
      else let ret = (case cwd of None \<Rightarrow> s | Some path \<Rightarrow> path @ ''/'' @ s)
           in case realpath (c_str ret) of None \<Rightarrow> ret | Some path \<Rightarrow> path)"

definition normalize_paths :: "string option \<Rightarrow> (string \<Rightarrow> string option) \<Rightarrow> process_t \<Rightarrow> process_t" where
  "normalize_paths cwd rp g = g\<lparr>g_cfg_path := nrdpx_real_path cwd rp (g_cfg_path g),
     g_log_path := nrdpx_real_path cwd rp (g_log_path g), g_pid_path := nrdpx_real_path cwd rp (g_pid_path g)\<rparr>"

text \<open>\<open>nrdpx_check_arguments\<close>, which nothing calls: it leaves the path of the pid file as it is unless
  the program becomes a daemon.\<close>

definition nrdpx_check_arguments :: "string option \<Rightarrow> (string \<Rightarrow> string option) \<Rightarrow> process_t \<Rightarrow> process_t" where
  "nrdpx_check_arguments cwd rp g =
     (let g = g\<lparr>g_cfg_path := nrdpx_real_path cwd rp (g_cfg_path g), g_log_path := nrdpx_real_path cwd rp (g_log_path g)\<rparr> in
      if g_daemon_mode g \<noteq> DAEMON_NONE then g\<lparr>g_pid_path := nrdpx_real_path cwd rp (g_pid_path g)\<rparr> else g)"

lemma check_arguments_daemon:
  "nrdpx_check_arguments cwd rp g = (if g_daemon_mode g \<noteq> DAEMON_NONE then normalize_paths cwd rp g
     else (normalize_paths cwd rp g)\<lparr>g_pid_path := g_pid_path g\<rparr>)"
  by (simp add: nrdpx_check_arguments_def normalize_paths_def Let_def)

subsection \<open>The log\<close>

definition nrdpx_log_init :: "bool \<Rightarrow> process_t \<Rightarrow> process_t" where
  "nrdpx_log_init opened g =
     (let lou = g_log_out g;
          (lou, fdd) = (if lou = 0 \<or> lou AND NRDPX_LOG_OUT_FILE \<noteq> 0
                 then (lou OR NRDPX_LOG_OUT_FILE, if g_log_path g \<noteq> [] then opened else g_log_fdd g)
                 else (lou, g_log_fdd g));
          lou = (if lou AND NRDPX_LOG_OUT_FILE \<noteq> 0 \<and> \<not> fdd then
                   (let lou = lou AND NOT NRDPX_LOG_OUT_FILE in
                    if lou = 0 then (if g_daemon_mode g \<noteq> DAEMON_NONE then NRDPX_LOG_OUT_SLOG else NRDPX_LOG_OUT_CONS)
                    else lou)
                 else lou)
      in g\<lparr>g_log_out := lou, g_log_fdd := fdd\<rparr>)"

datatype log_target = To_syslog | To_file | To_console

definition log_level_id :: "int \<Rightarrow> string" where
  "log_level_id type =
     (if 0 \<le> type \<and> type < 8 then [''MACEWNID'' ! nat type] else ''X'')"

text \<open>Where a message goes and what is written there.  \<open>msg\<close> is the message with its arguments
  filled in; it is cut to the 1022 characters that fit the buffer.  \<open>s_time\<close> is what \<open>strftime\<close>
  gives, empty when the local time is not known.\<close>

definition nrdpx_log_write :: "process_t \<Rightarrow> string \<Rightarrow> int \<Rightarrow> string \<Rightarrow> (log_target \<times> string) list" where
  "nrdpx_log_write g s_time type msg =
     (if type mod 8 > g_log_lvl g then []
      else let sid = log_level_id type;
               s_text = take 1022 (c_str msg);
               line = s_time @ '' ['' @ sid @ '']: '' @ s_text @ [lf]
           in (if g_log_out g AND NRDPX_LOG_OUT_SLOG \<noteq> 0
               then [(To_syslog, ''('' @ itos (g_current_pid g) @ '')['' @ sid @ '']: '' @ s_text)] else [])
            @ (if g_log_out g AND NRDPX_LOG_OUT_FILE \<noteq> 0 \<and> g_log_fdd g then [(To_file, line)] else [])
            @ (if g_log_out g AND NRDPX_LOG_OUT_CONS \<noteq> 0 then [(To_console, line)] else []))"

text \<open>The rotation: the next check time, and whether the log is compressed.  \<open>sz\<close> is the
  size of the log file, \<open>gzip\<close> tells whether a compressor exists.\<close>

definition nrdpx_log_rotate :: "int \<Rightarrow> int option \<Rightarrow> bool \<Rightarrow> process_t \<Rightarrow> int \<Rightarrow> int \<times> bool" where
  "nrdpx_log_rotate tm sz gzip g log_tmch =
     (if g_log_out g AND NRDPX_LOG_OUT_FILE = 0 \<or> g_log_path g = [] then (log_tmch, False)
      else if tm > log_tmch then
        (tm + 3600, (case sz of None \<Rightarrow> False | Some n \<Rightarrow> n > 10485760) \<and> gzip)
      else (log_tmch, False))"

subsection \<open>The pid file\<close>

text \<open>The file system maps paths to contents.\<close>

type_synonym files = "string \<Rightarrow> string option"

definition nrdpx_release_pid :: "process_t \<Rightarrow> files \<Rightarrow> process_t \<times> files" where
  "nrdpx_release_pid g fs =
     (if g_detached g \<and> g_pid_path g \<noteq> []
      then (g\<lparr>g_pid_path := []\<rparr>, fs(g_pid_path g := None)) else (g, fs))"

definition nrdpx_retain_pid :: "(string \<Rightarrow> bool) \<Rightarrow> process_t \<Rightarrow> files \<Rightarrow> bool \<times> files" where
  "nrdpx_retain_pid writable g fs =
     (if g_pid_path g \<noteq> [] \<and> writable (g_pid_path g)
      then (True, fs(g_pid_path g \<mapsto> itos (g_current_pid g))) else (False, fs))"

definition nrdpx_find_pid :: "(int \<Rightarrow> bool) \<Rightarrow> process_t \<Rightarrow> files \<Rightarrow> int" where
  "nrdpx_find_pid alive g fs =
     (let pid = (if g_pid_path g = [] then NRD_NOPID
                 else case fs (g_pid_path g) of
                   None \<Rightarrow> NRD_NOPID
                 | Some buf \<Rightarrow> if buf = [] then NRD_NOPID else stoi (take 31 buf))
      in if pid \<noteq> NRD_NOPID \<and> \<not> alive pid then NRD_NOPID else pid)"

subsection \<open>Daemon\<close>

datatype daemon_result = Go_on process_t files | Exit_parent | Exit_failed

text \<open>The console is given up with the standard streams.\<close>

definition nrdpx_discard_stdio :: "process_t \<Rightarrow> process_t" where
  [simp]: "nrdpx_discard_stdio g = g\<lparr>g_log_out := g_log_out g AND NOT NRDPX_LOG_OUT_CONS\<rparr>"

text \<open>\<open>fork_pid\<close> is what \<open>fork\<close> returns, \<open>child\<close> the pid of the child process.\<close>

definition nrdpx_create_daemon ::
  "(int \<Rightarrow> bool) \<Rightarrow> int \<Rightarrow> int \<Rightarrow> bool \<Rightarrow> (string \<Rightarrow> bool) \<Rightarrow> process_t \<Rightarrow> files \<Rightarrow> daemon_result" where
  "nrdpx_create_daemon alive fork_pid child setsid_ok writable g fs =
     (if g_daemon_mode g = DAEMON_NONE then Go_on g fs
      else let g = nrdpx_discard_stdio g in
      if g_daemon_mode g = DAEMON_LITE then Go_on g fs
      else if nrdpx_find_pid alive g fs \<noteq> NRD_NOPID then Exit_failed
      else if fork_pid < 0 then Exit_failed
      else if fork_pid > 0 then Exit_parent
      else let g = g\<lparr>g_current_pid := child\<rparr> in
           if \<not> setsid_ok then Exit_failed
           else let (ret, fs) = nrdpx_retain_pid writable g fs in
                if \<not> ret then Exit_failed else Go_on (g\<lparr>g_detached := True\<rparr>) fs)"

subsection \<open>Start and end\<close>

text \<open>The listeners are opened; one that cannot be opened is removed.\<close>

fun open_listeners ::
  "(nat \<Rightarrow> sock_os) \<Rightarrow> resolver \<Rightarrow> nat \<Rightarrow> nrdpx_listener_t list \<Rightarrow> int set \<Rightarrow> nrdpx_listener_t list \<times> int set" where
  "open_listeners os R k [] fds = ([], fds)"
| "open_listeners os R k (l # ls) fds =
     (let (sock, fds, host) = nrdpx_socket_listen (os k) R fds (ls_host l) (ls_port l);
          (ls', fds) = open_listeners os R (k + 1) ls fds
      in (if sock = NRD_NOSOCK then ls' else l\<lparr>ls_host := host, ls_sock := sock\<rparr> # ls', fds))"

text \<open>\<open>nrdpx_term_proc\<close>: the flag, the listeners' sockets closed, and the running check of a
  server aborted.\<close>

definition nrdpx_term_proc ::
  "sock_os \<Rightarrow> resolver \<Rightarrow> process_t \<Rightarrow> nrdpx_proxy_t option \<Rightarrow> check_state
   \<Rightarrow> process_t \<times> nrdpx_proxy_t option \<times> check_state" where
  "nrdpx_term_proc os R g px ck =
     (if g_terminated g then (g, px, ck)
      else (g\<lparr>g_terminated := True\<rparr>,
            map_option (\<lambda>p. p\<lparr>px_fds := fold (\<lambda>l fds. nrdpx_socket_close fds (ls_sock l)) (px_listeners p) (px_fds p),
                               px_listeners := map (\<lambda>l. l\<lparr>ls_sock := NRD_NOSOCK\<rparr>) (px_listeners p)\<rparr>) px,
            snd (nrdpx_check_server os R [] 0 ck)))"

datatype signum = SIGTERM | SIGINT | SIGHUP | SIGALRM
datatype signal_result = Handled process_t "nrdpx_proxy_t option" check_state | Exited process_t files

definition nrdpx_signal_handler ::
  "sock_os \<Rightarrow> resolver \<Rightarrow> signum \<Rightarrow> process_t \<Rightarrow> files \<Rightarrow> nrdpx_proxy_t option \<Rightarrow> check_state \<Rightarrow> signal_result" where
  "nrdpx_signal_handler os R s g fs px ck =
     (case s of
        SIGALRM \<Rightarrow>
          if g_terminated g then
            (let (g, fs) = nrdpx_release_pid g fs
             in Exited (g\<lparr>g_log_out := g_log_out g OR NRDPX_LOG_OUT_SLOG\<rparr>) fs)
          else Handled g px (snd (nrdpx_check_server os R [] 0 ck))
      | _ \<Rightarrow> (let (g, px, ck) = nrdpx_term_proc os R g px ck in Handled g px ck))"

text \<open>The destructor of the proxy: listeners, then channels, each closing its sockets.\<close>

fun delete_channels :: "int \<Rightarrow> nrdpx_channel_t list \<Rightarrow> nrdpx_proxy_t \<Rightarrow> nrdpx_proxy_t option" where
  "delete_channels t [] w = Some w"
| "delete_channels t (c # cs) w = do { w \<leftarrow> channel_destroy t c w; delete_channels t cs w }"

definition proxy_destroy :: "int \<Rightarrow> nrdpx_proxy_t \<Rightarrow> nrdpx_proxy_t option" where
  "proxy_destroy t w =
     do { let w = w\<lparr>px_fds := fold (\<lambda>l fds. nrdpx_socket_close fds (ls_sock l)) (px_listeners w) (px_fds w),
                    px_listeners := []\<rparr> in
          do { w \<leftarrow> delete_channels t (px_channels w) w;
               Some (w\<lparr>px_channels := [], px_balancers := [], px_servers := [], px_clients := []\<rparr>) } }"

text \<open>The end of the process: the two threads of the browser are stopped (\<open>run1\<close> and \<open>run2\<close>
  say how long they run on, see \<open>wait_for\<close>), the proxy is deleted, the pid file removed and
  the log closed.  \<open>None\<close> when a wait does not return.\<close>

definition nrdpx_exit_proc ::
  "nat \<Rightarrow> (nat \<Rightarrow> bool) \<Rightarrow> (nat \<Rightarrow> bool) \<Rightarrow> int \<Rightarrow> int \<Rightarrow> process_t \<Rightarrow> files \<Rightarrow> nrdpx_proxy_t option
   \<Rightarrow> control_t \<Rightarrow> nrdnb_client_t
   \<Rightarrow> (int \<times> process_t \<times> files \<times> nrdpx_proxy_t option \<times> control_t \<times> nrdnb_client_t) option" where
  "nrdpx_exit_proc fuel run1 run2 err t g fs px ct cl =
     do { ct \<leftarrow> stop_control_timer fuel run1 ct;
          cl \<leftarrow> stop_info_tracker fuel run2 cl;
          px \<leftarrow> (case px of None \<Rightarrow> Some None | Some w \<Rightarrow> map_option (\<lambda>w. None) (proxy_destroy t w));
          let (g, fs) = nrdpx_release_pid (g\<lparr>g_log_out := g_log_out g OR NRDPX_LOG_OUT_SLOG\<rparr>) fs in
          Some (err, g\<lparr>g_log_fdd := False\<rparr>, fs, px, ct, cl) }"

text \<open>\<open>nrdpx_fail_proc\<close>: what it does before it waits for the termination, and the end after it.\<close>

definition nrdpx_fail_proc :: "process_t \<Rightarrow> process_t" where
  "nrdpx_fail_proc g = g\<lparr>g_log_out := g_log_out g OR NRDPX_LOG_OUT_SLOG
     OR (if g_daemon_mode g = DAEMON_NONE then NRDPX_LOG_OUT_CONS else 0)\<rparr>"

subsection \<open>Facts\<close>

lemma set_option_level:
  "0 \<le> g_log_lvl g \<and> g_log_lvl g \<le> 7 \<Longrightarrow> 0 \<le> g_log_lvl (set_option k v g) \<and> g_log_lvl (set_option k v g) \<le> 7"
  using fit_bounds [of 0 "7 :: int" "stoi v"] by (cases k) (simp_all add: set_option_def)

lemma parse_args_level: "0 \<le> g_log_lvl g \<and> g_log_lvl g \<le> 7 \<Longrightarrow> parse_args as g = Some g' \<Longrightarrow>
    0 \<le> g_log_lvl g' \<and> g_log_lvl g' \<le> 7"
proof (induction as g rule: parse_args.induct)
  case (3 ar g)
  with set_option_level [of g "arg_kind ar" "[]"] show ?case by (auto simp: Let_def split: if_splits)
next
  case (4 ar v as g)
  with set_option_level [of g "arg_kind ar"] show ?case by (auto simp: Let_def split: if_splits)
qed simp_all

text \<open>After the initialisation the log has somewhere to write to.\<close>

lemma log_init_target:
  assumes "0 \<le> g_log_lvl g" "g_log_out g \<in> {0, 1, 2, 3, 4, 5, 6, 7}" "\<not> g_log_fdd g"
  shows "nrdpx_log_write (nrdpx_log_init opened g) s_time 0 msg \<noteq> []"
proof -
  have "g_log_out g = 0 \<or> g_log_out g = 1 \<or> g_log_out g = 2 \<or> g_log_out g = 3 \<or> g_log_out g = 4
    \<or> g_log_out g = 5 \<or> g_log_out g = 6 \<or> g_log_out g = 7" using assms(2) by simp
  then show ?thesis
    using assms(1,3)
    by (elim disjE; cases "opened \<and> g_log_path g \<noteq> []"; simp add: nrdpx_log_write_def nrdpx_log_init_def log_outs Let_def)
qed

lemma nat_digits_length: "n < 10 ^ k \<Longrightarrow> 0 < k \<Longrightarrow> length (nat_digits n) \<le> k"
proof (induction k arbitrary: n)
  case (Suc k)
  show ?case
  proof (cases "n < 10")
    case True
    then show ?thesis by (subst nat_digits.simps) simp
  next
    case False
    then have "k \<noteq> 0" using Suc.prems by (cases k) auto
    have "n div 10 < 10 ^ k" using Suc.prems(1) by simp
    from Suc.IH [OF this] \<open>k \<noteq> 0\<close> False show ?thesis by (subst nat_digits.simps) simp
  qed
qed simp

lemma itos_length: "in_int_range v \<Longrightarrow> length (itos v) \<le> 31"
proof -
  assume v: "in_int_range v"
  then have "nat v < 10 ^ 10" "nat (- v) < 10 ^ 10" by (auto simp: in_int_range_def int_min_def int_max_def)
  from nat_digits_length [OF this(1)] nat_digits_length [OF this(2)] show ?thesis by (simp add: itos_def)
qed

lemma itos_nonempty [simp]: "itos v \<noteq> []"
  by (simp add: itos_def)

text \<open>The pid that the daemon stores is the one the next start finds.\<close>

lemma find_retained_pid:
  assumes "in_int_range (g_current_pid g)" "nrdpx_retain_pid wr g fs = (True, fs')"
  shows "nrdpx_find_pid alive g fs' = (if alive (g_current_pid g) then g_current_pid g else NRD_NOPID)"
proof -
  have "take 31 (itos (g_current_pid g)) = itos (g_current_pid g)" using itos_length [OF assms(1)] by simp
  then show ?thesis
    using assms stoi_itos [OF assms(1)]
    by (auto simp: nrdpx_retain_pid_def nrdpx_find_pid_def Let_def split: if_splits)
qed

lemma daemon_second_start:
  assumes full: "g_daemon_mode g = DAEMON_FULL"
    and d: "nrdpx_create_daemon alive 0 child True wr g fs = Go_on g' fs'"
    and child: "in_int_range child" "child \<noteq> NRD_NOPID" "alive child"
    and g2: "g_daemon_mode g2 = DAEMON_FULL" "g_pid_path g2 = g_pid_path g"
  shows "nrdpx_create_daemon alive f2 c2 s2 wr g2 fs' = Exit_failed"
proof -
  let ?g = "g\<lparr>g_log_out := g_log_out g AND NOT NRDPX_LOG_OUT_CONS, g_current_pid := child\<rparr>"
  have r: "nrdpx_retain_pid wr ?g fs = (True, fs')"
    using d full by (auto simp: nrdpx_create_daemon_def Let_def split: if_splits prod.splits)
  have "nrdpx_find_pid alive (g2\<lparr>g_log_out := x\<rparr>) fs' = nrdpx_find_pid alive ?g fs'" for x
    using g2 by (simp add: nrdpx_find_pid_def)
  with find_retained_pid [of ?g, OF _ r] child have "nrdpx_find_pid alive (g2\<lparr>g_log_out := x\<rparr>) fs' = child" for x
    by simp
  with g2 child show ?thesis by (simp add: nrdpx_create_daemon_def Let_def)
qed

text \<open>The destructor of the proxy frees every channel once.\<close>

lemma channel_destroy_frame:
  "channel_destroy t c w = map_option (\<lambda>v. v\<lparr>px_channels := px_channels w\<rparr>) (channel_destroy t c (w\<lparr>px_channels := cs\<rparr>))"
  by (auto simp: channel_destroy_def Let_def get_def split: Option.bind_splits)

lemma delete_channels_ok:
  "world_ok (w\<lparr>px_channels := cs\<rparr>) \<Longrightarrow>
     \<exists>w'. delete_channels t cs w = Some w' \<and> world_ok (w'\<lparr>px_channels := []\<rparr>)"
proof (induction cs arbitrary: w)
  case (Cons c cs)
  from channel_destroy_ok [OF Cons.prems, of "[]" c cs t] obtain w1 where
    w1: "channel_destroy t c (w\<lparr>px_channels := cs\<rparr>) = Some w1" "world_ok w1" "px_channels w1 = cs" by auto
  then have d: "channel_destroy t c w = Some (w1\<lparr>px_channels := px_channels w\<rparr>)"
    using channel_destroy_frame [of t c w cs] by simp
  have "world_ok (w1\<lparr>px_channels := px_channels w, px_channels := cs\<rparr>)" using w1(2,3) by (simp add: world_ok_def)
  from Cons.IH [of "w1\<lparr>px_channels := px_channels w\<rparr>"] this d show ?case by simp
qed auto

text \<open>The end of the process frees every channel and every route that is not in the cache; the
  routes of the cache are left to the system.\<close>

lemma proxy_destroy_ok:
  assumes ok: "world_ok w"
  shows "\<exists>w'. proxy_destroy t w = Some w' \<and> px_channels w' = [] \<and> cache_ok (px_cache w') (px_routes w')
    \<and> (\<forall>p r. px_routes w' p = Some r \<longrightarrow> rt_cached r \<and> rt_num_slots r = 0)"
proof -
  let ?w = "w\<lparr>px_fds := fold (\<lambda>l fds. nrdpx_socket_close fds (ls_sock l)) (px_listeners w) (px_fds w), px_listeners := []\<rparr>"
  have "world_ok (?w\<lparr>px_channels := px_channels w\<rparr>)" using ok by (simp add: world_ok_def)
  from delete_channels_ok [OF this, of t] obtain w1 where
    w1: "delete_channels t (px_channels w) ?w = Some w1" "world_ok (w1\<lparr>px_channels := []\<rparr>)" by auto
  have "rt_cached r \<and> rt_num_slots r = 0" if "px_routes w1 p = Some r" for p r
    using accountsD(3,4) [OF world_okD(2) [OF w1(2)], of p r] that by (simp add: route_slots_def)
  with w1 world_okD(1) [OF w1(2)] show ?thesis by (simp add: proxy_destroy_def)
qed

end
