(* ===== verification/Admission.thy ===== *)
theory Admission
  imports Proxy_Inv
begin

text \<open>
  Which client, balancer and server a new connection gets (\<open>route_scan\<close>, the loop of
  \<open>nrdpx_channel_create\<close> over the balancers), against a specification that looks at one
  balancer at a time, and the routes that come out of the cache without that check.
\<close>

subsection \<open>Specification\<close>

text \<open>A client of a balancer takes an address when it has a free slot and one of its sources
  contains the address.  A server is eligible when it is usable and \<open>nrdpx_select_server\<close> does
  not skip it.\<close>

definition client_takes :: "nrdpx_client_t list \<Rightarrow> addr_t \<Rightarrow> nat \<Rightarrow> bool" where
  "client_takes clients a p \<longleftrightarrow> cl_num_slots (clients ! p) < cl_max_slots (clients ! p)
     \<and> (\<exists>c\<in>set (cl_sources (clients ! p)). is_addr_in_cidr a c)"

definition eligible :: "nat option \<Rightarrow> nrdpx_server_t list \<Rightarrow> nat \<Rightarrow> bool" where
  "eligible nosvr servers p \<longleftrightarrow> server_usable nosvr servers p \<and> \<not> select_skip (servers ! p)"

definition balancer_admits ::
  "addr_t \<Rightarrow> nat option \<Rightarrow> nrdpx_client_t list \<Rightarrow> nrdpx_server_t list \<Rightarrow> nrdpx_balancer_t \<Rightarrow> bool" where
  "balancer_admits a nosvr clients servers bal \<longleftrightarrow>
     (\<exists>p\<in>set (bl_clients bal). client_takes clients a p) \<and> (\<exists>p\<in>set (bl_servers bal). eligible nosvr servers p)"

text \<open>The choice in the first balancer that admits the address: its first client that takes the
  address and its best eligible server, a redundant one only if there is no other.\<close>

definition chosen ::
  "(rat \<Rightarrow> rat) \<Rightarrow> addr_t \<Rightarrow> nat option \<Rightarrow> nrdpx_client_t list \<Rightarrow> nrdpx_server_t list
   \<Rightarrow> nrdpx_balancer_t \<Rightarrow> nat \<Rightarrow> nat \<Rightarrow> bool" where
  "chosen fl a nosvr clients servers bal c s \<longleftrightarrow>
     find (client_takes clients a) (bl_clients bal) = Some c
   \<and> s \<in> set (bl_servers bal) \<and> eligible nosvr servers s
   \<and> (\<forall>q\<in>set (bl_servers bal). eligible nosvr servers q \<longrightarrow>
        (\<not> sv_redundant (servers ! s) \<or> sv_redundant (servers ! q))
      \<and> (sv_redundant (servers ! q) = sv_redundant (servers ! s) \<longrightarrow>
           select_score fl bal (servers ! q) \<le> select_score fl bal (servers ! s)))"

text \<open>A route to the choice of the first balancer that admits the address, or without a server
  when there is none.\<close>

definition first_admitting ::
  "(rat \<Rightarrow> rat) \<Rightarrow> addr_t \<Rightarrow> nat option \<Rightarrow> nrdpx_client_t list \<Rightarrow> nrdpx_server_t list
   \<Rightarrow> (nat \<times> nrdpx_balancer_t) list \<Rightarrow> nrdpx_route_t \<Rightarrow> bool" where
  "first_admitting fl a nosvr clients servers bals r \<longleftrightarrow>
     (case rt_server r of
        None \<Rightarrow> \<forall>x\<in>set bals. \<not> balancer_admits a nosvr clients servers (snd x)
      | Some s \<Rightarrow> \<exists>xs b bal ys c. bals = xs @ (b, bal) # ys
          \<and> (\<forall>x\<in>set xs. \<not> balancer_admits a nosvr clients servers (snd x))
          \<and> rt_balancer r = Some b \<and> rt_client r = Some c \<and> chosen fl a nosvr clients servers bal c s)"

lemma first_admitting_later:
  assumes "\<not> balancer_admits a nosvr clients servers bal" "first_admitting fl a nosvr clients servers bals r"
  shows "first_admitting fl a nosvr clients servers ((b, bal) # bals) r"
proof (cases "rt_server r")
  case None
  with assms show ?thesis by (simp add: first_admitting_def)
next
  case (Some s)
  with assms(2) obtain xs b1 bal1 ys c where
    d: "bals = xs @ (b1, bal1) # ys" "\<forall>x\<in>set xs. \<not> balancer_admits a nosvr clients servers (snd x)"
    "rt_balancer r = Some b1" "rt_client r = Some c" "chosen fl a nosvr clients servers bal1 c s"
    by (auto simp: first_admitting_def)
  have "(b, bal) # bals = ((b, bal) # xs) @ (b1, bal1) # ys" using d(1) by simp
  moreover have "\<forall>x\<in>set ((b, bal) # xs). \<not> balancer_admits a nosvr clients servers (snd x)"
    using d(2) assms(1) by simp
  ultimately show ?thesis using Some d(3-5) unfolding first_admitting_def by (simp only: option.case) blast
qed

subsection \<open>The loop meets it\<close>

lemma pick_client_find: "pick_client clients a ps = find (client_takes clients a) ps"
  by (induction ps) (auto simp: Let_def client_takes_def list_ex_iff)

lemma find_Some_elem: "find P xs = Some x \<Longrightarrow> x \<in> set xs \<and> P x"
  by (induction xs) (auto split: if_splits)

lemma find_None_all: "find P xs = None \<longleftrightarrow> (\<forall>x\<in>set xs. \<not> P x)"
  by (induction xs) auto

lemma select_among_stale:
  assumes stale: "\<forall>p\<in>set ps. select_skip (servers ! p)"
  shows "case nrdpx_select_server fl (\<lambda>p. servers ! p) (Some bal) (Some c)
             (ps @ filter (server_usable nosvr servers) (bl_servers bal)) of
           None \<Rightarrow> \<forall>q\<in>set (bl_servers bal). \<not> eligible nosvr servers q
         | Some s \<Rightarrow> find (client_takes clients a) (bl_clients bal) = Some c \<longrightarrow> chosen fl a nosvr clients servers bal c s"
    (is "case ?sel of None \<Rightarrow> _ | Some s \<Rightarrow> _")
proof (cases ?sel)
  case None
  then have "\<forall>p\<in>set (ps @ filter (server_usable nosvr servers) (bl_servers bal)). select_skip (servers ! p)"
    by (simp only: select_server_None)
  with None show ?thesis by (auto simp: eligible_def)
next
  case (Some s)
  note mem = select_server_member [OF Some] and best = select_server_best [OF Some]
  have s: "s \<in> set (bl_servers bal)" "eligible nosvr servers s"
    using mem stale by (auto simp: eligible_def)
  have "(\<not> sv_redundant (servers ! s) \<or> sv_redundant (servers ! q))
      \<and> (sv_redundant (servers ! q) = sv_redundant (servers ! s) \<longrightarrow>
           select_score fl bal (servers ! q) \<le> select_score fl bal (servers ! s))"
    if "q \<in> set (bl_servers bal)" "eligible nosvr servers q" for q
    using best [of q] that by (auto simp: eligible_def)
  with Some s show ?thesis by (auto simp: chosen_def)
qed

lemma route_scan_spec:
  assumes "\<forall>p\<in>set ps. select_skip (servers ! p)" "rt_server r = None"
  shows "first_admitting fl a nosvr clients servers bals (route_scan fl a nosvr clients servers bals ps r)"
  using assms
proof (induction bals arbitrary: ps r)
  case (Cons bb bals)
  obtain b bal where bb: "bb = (b, bal)" by fastforce
  show ?case
  proof (cases "find (client_takes clients a) (bl_clients bal)")
    case None
    then have "\<not> balancer_admits a nosvr clients servers bal"
      by (simp add: balancer_admits_def find_None_all)
    from first_admitting_later [OF this Cons.IH [OF Cons.prems(1), of "r\<lparr>rt_balancer := Some b\<rparr>"]] None Cons.prems(2)
    show ?thesis by (simp add: bb Let_def pick_client_find)
  next
    case (Some c)
    let ?ps = "ps @ filter (server_usable nosvr servers) (bl_servers bal)"
    let ?sel = "nrdpx_select_server fl (\<lambda>p. servers ! p) (Some bal) (Some c) ?ps"
    let ?r = "r\<lparr>rt_balancer := Some b, rt_client := Some c, rt_server := ?sel\<rparr>"
    note stale = select_among_stale [OF Cons.prems(1), where fl = fl and bal = bal and c = c and nosvr = nosvr and clients = clients and a = a]
    show ?thesis
    proof (cases ?sel)
      case None
      with stale have no: "\<not> balancer_admits a nosvr clients servers bal"
        by (simp add: balancer_admits_def)
      have "\<forall>p\<in>set ?ps. select_skip (servers ! p)"
        using None by (simp only: select_server_None)
      from first_admitting_later [OF no Cons.IH [OF this, of ?r]] None Some show ?thesis
        by (simp add: bb Let_def pick_client_find)
    next
      case (Some s)
      with \<open>find _ _ = Some c\<close> stale have "chosen fl a nosvr clients servers bal c s" by simp
      moreover have "route_scan fl a nosvr clients servers (bb # bals) ps r = ?r"
        using Some \<open>find _ _ = Some c\<close> by (simp add: bb Let_def pick_client_find)
      ultimately show ?thesis
        using Some bb by (simp add: first_admitting_def) (metis append_Nil empty_iff empty_set)
    qed
  qed
qed (simp add: first_admitting_def)

text \<open>What a new route with a server leads to.\<close>

lemma new_route_server:
  assumes "rt_server (route_scan fl a nosvr clients servers bals [] new_route) = Some s"
  shows "eligible nosvr servers s
    \<and> (\<exists>c. rt_client (route_scan fl a nosvr clients servers bals [] new_route) = Some c \<and> client_takes clients a c)"
proof -
  have "first_admitting fl a nosvr clients servers bals (route_scan fl a nosvr clients servers bals [] new_route)"
    by (rule route_scan_spec) (simp_all add: new_route_def)
  with assms show ?thesis
    by (auto simp: first_admitting_def chosen_def dest: find_Some_elem)
qed

end
