(* ===== verification/Run_Inv.thy ===== *)
theory Run_Inv
  imports Tracker Admission
begin

text \<open>
  Invariants of a run of the main loop that do not depend on the invariant of the accounts.

  The locale \<open>loop_invariant\<close> is the contract between such an invariant and the loop: what the
  elementary changes of the proxy's state have to keep.  Inside it the handlers of the loop are
  shown to keep the invariant.  \<open>io_invariant\<close> is the part of it that reading and writing need.  It is interpreted for the configuration, which no handler
  changes, and for the limits of clients and servers, which hold when the cache is off.
\<close>

subsection \<open>The contract\<close>

text \<open>What a handler may change of a server by itself: its state and its faults.\<close>

definition same_server :: "nrdpx_server_t \<Rightarrow> nrdpx_server_t \<Rightarrow> bool" where
  "same_server s s' \<longleftrightarrow> sv_num_slots s' = sv_num_slots s \<and> sv_max_slots s' = sv_max_slots s
     \<and> sv_name s' = sv_name s \<and> sv_host s' = sv_host s"

locale io_invariant =
  fixes holds :: "nrdpx_proxy_t \<Rightarrow> bool"
  assumes chan: "holds (set_chan i c w) = holds w"
    and server: "holds w \<Longrightarrow> get (px_servers w) s = Some sv \<Longrightarrow> same_server sv sv' \<Longrightarrow>
      holds (w\<lparr>px_servers := (px_servers w)[s := sv']\<rparr>)"
begin

lemma connected: "set_connected env i w = Some w' \<Longrightarrow> holds w \<Longrightarrow> holds w'"
  by (auto simp: set_connected_def Let_def chan same_server_def split: if_splits Option.bind_splits intro!: server)

lemma read_source_holds: "read_source le k i w = Some (alive, w') \<Longrightarrow> holds w \<Longrightarrow> holds w'"
  by (auto simp: read_source_def Let_def chan split: if_splits prod.splits Option.bind_splits)

lemma read_target_holds: "read_target le k i w = Some (alive, w') \<Longrightarrow> holds w \<Longrightarrow> holds w'"
  by (auto simp: read_target_def Let_def chan dest: connected split: if_splits prod.splits Option.bind_splits)

lemma write_source_holds: "write_source le k i w = Some (alive, w') \<Longrightarrow> holds w \<Longrightarrow> holds w'"
  by (auto simp: write_source_def Let_def chan split: if_splits prod.splits Option.bind_splits)

lemma write_target_holds: "write_target le k i w = Some (alive, w') \<Longrightarrow> holds w \<Longrightarrow> holds w'"
  by (auto simp: write_target_def Let_def chan dest: connected split: if_splits prod.splits Option.bind_splits)

lemma and_then_holds:
  assumes "and_then f g w = Some (alive, w')" "holds w"
    and f: "\<And>a w'. f w = Some (a, w') \<Longrightarrow> holds w'"
    and g: "\<And>a w w'. g w = Some (a, w') \<Longrightarrow> holds w \<Longrightarrow> holds w'"
  shows "holds w'"
proof -
  obtain a w1 where a: "f w = Some (a, w1)" "(if a then g w1 else Some (False, w1)) = Some (alive, w')"
    using assms(1) by (auto simp: and_then_def split: Option.bind_splits)
  from f [OF a(1)] a(2) g show ?thesis by (cases a) auto
qed

lemma chan_io_holds:
  assumes "chan_io le k i w = Some (alive, w')" "holds w"
  shows "holds w'"
  using assms unfolding chan_io_def
  by (elim and_then_holds) (assumption | erule (1) read_source_holds read_target_holds write_source_holds write_target_holds)+

end

locale loop_invariant = io_invariant +
  assumes fds: "holds (w\<lparr>px_fds := fds\<rparr>) = holds w"
    and create: "nrdpx_channel_create env src now nosvr w = Some (res, w') \<Longrightarrow> holds w \<Longrightarrow> holds w'"
    and delete: "del_channel t a w = Some w' \<Longrightarrow> holds w \<Longrightarrow> holds w'"
begin

lemma connect_failed_holds: "connect_failed le k i w = Some w' \<Longrightarrow> holds w \<Longrightarrow> holds w'"
proof -
  assume cf: "connect_failed le k i w = Some w'" and w: "holds w"
  have f: "same_server sv (count_fault m sv)" for sv m
    by (simp add: same_server_def count_fault_def nrdpx_server_deactivate_def Let_def)
  from cf obtain s sv new w1 where s: "get (px_servers w) s = Some sv"
    and c: "nrdpx_channel_create (le_env le k) (ch_source (px_channels w ! i)) (le_now le) (Some s)
      (w\<lparr>px_servers := (px_servers w)[s := count_fault (px_max_faults w) sv]\<rparr>) = Some (new, w1)"
    and d: "del_channel (en_time (le_env le k)) (ch_addr (px_channels w ! i))
      (set_chan i ((px_channels w1 ! i)\<lparr>ch_source := NRD_NOSOCK\<rparr>) w1) = Some w'"
    by (auto simp: connect_failed_def Let_def nrdpx_channel_delete_def split: Option.bind_splits)
  have "holds w1" using create [OF c server [OF w s f]] .
  then show "holds w'" using delete [OF d] chan by blast
qed

lemma chan_pass_holds:
  assumes "chan_pass le k i w = Some (i', w')" "holds w"
  shows "holds w'"
proof (cases "connect_error le k w (px_channels w ! i) \<noteq> 0")
  case True
  with assms show ?thesis by (auto simp: chan_pass_def Let_def split: Option.bind_splits dest: connect_failed_holds)
next
  case False
  show ?thesis
  proof (cases "le_sel_rc le = 0")
    case sel: False
    with assms(1) False obtain alive w1 where
      w1: "chan_io le k i w = Some (alive, w1)" "alive \<Longrightarrow> w' = w1"
        "\<not> alive \<Longrightarrow> del_channel (en_time (le_env le k)) (ch_addr (px_channels w ! i)) w1 = Some w'"
      by (auto simp: chan_pass_def Let_def nrdpx_channel_delete_def split: if_splits Option.bind_splits)
    from chan_io_holds [OF w1(1) assms(2)] w1(2,3) delete show ?thesis by (cases alive) auto
  qed (use assms False in \<open>simp add: chan_pass_def Let_def\<close>)
qed

lemma chan_loop_holds: "chan_loop fuel le k i w = Some (fin, w') \<Longrightarrow> holds w \<Longrightarrow> holds w'"
  by (induction fuel arbitrary: k i w) (auto split: if_splits Option.bind_splits dest: chan_pass_holds)

lemma accept_loop_holds: "accept_loop le k ls w = Some w' \<Longrightarrow> holds w \<Longrightarrow> holds w'"
proof (induction ls arbitrary: k w)
  case (Cons l ls)
  obtain sd fd where a: "nrdpx_socket_accept (en_os (le_env le k)) (px_fds w) (ls_sock l) = (sd, fd)" by fastforce
  have "holds (w\<lparr>px_fds := fd\<rparr>)" using Cons.prems(2) fds by blast
  with Cons a show ?case by (auto simp: Let_def split: if_splits Option.bind_splits dest: create)
qed simp

lemma iteration_holds:
  assumes "main_iteration fuel le w = Some (Iterated fin w')" "holds w"
  shows "holds w'"
proof -
  from assms(1) obtain R W m where fd: "fill_fds True True w = Some (R, W, m)"
    by (auto simp: main_iteration_def split: Option.bind_splits)
  let ?le = "le_selected le R W"
  obtain w1 where
    w1: "(if le_sel_rc ?le \<noteq> 0 then accept_loop ?le 0 (px_listeners w) w else Some w) = Some w1"
    and w': "chan_loop fuel ?le (length (px_listeners w1)) 0 w1 = Some (fin, w')"
    using assms(1) fd
    by (auto simp: main_iteration_def Let_def simp del: if_split split: if_split_asm Option.bind_splits)
  from w1 assms(2) have "holds w1" by (cases "le_sel_rc ?le = 0") (auto dest: accept_loop_holds)
  with w' show ?thesis by (rule chan_loop_holds)
qed

end

subsection \<open>The configuration does not change\<close>

text \<open>What stays of the proxy while it runs.\<close>

type_synonym config =
  "(string \<times> string) list \<times> (string \<times> cidr_t list \<times> int) list \<times> nrdpx_balancer_t list \<times> (string \<times> int) list
   \<times> (int \<times> int \<times> int \<times> int \<times> int \<times> int) \<times> bool \<times> cache_mode \<times> int
   \<times> size_mode \<times> size_mode"

definition config_of :: "nrdpx_proxy_t \<Rightarrow> config" where
  "config_of w = (map (\<lambda>s. (sv_name s, sv_host s)) (px_servers w),
     map (\<lambda>c. (cl_name c, cl_sources c, cl_max_slots c)) (px_clients w), px_balancers w, map (\<lambda>l. (ls_host l, ls_port l)) (px_listeners w),
     (px_info_port w, px_max_faults w, px_max_buffer w, px_info_period w, px_conn_timeout w, px_status_period w),
     px_info_enabled w, ca_mode (px_cache w), ca_timeout (px_cache w),
     px_socket_mode w, px_buffer_mode w)"

lemma cache_find_mode: "cache_find now key ca h = Some (x, ca', h') \<Longrightarrow> ca_mode ca' = ca_mode ca \<and> ca_timeout ca' = ca_timeout ca"
  by (auto simp: cache_find_def split: if_splits Option.bind_splits option.splits)

lemma cache_remove_mode: "cache_remove key ca h = Some (ca', h') \<Longrightarrow> ca_mode ca' = ca_mode ca \<and> ca_timeout ca' = ca_timeout ca"
  by (auto simp: cache_remove_def split: if_splits Option.bind_splits option.splits)

lemma cache_add_mode: "cache_add now key p ca h = Some (x, ca', h') \<Longrightarrow> ca_mode ca' = ca_mode ca \<and> ca_timeout ca' = ca_timeout ca"
  by (auto simp: cache_add_def split: if_splits Option.bind_splits option.splits)

lemma map_update_same: "i < length xs \<Longrightarrow> f y = f (xs ! i) \<Longrightarrow> map f (xs[i := y]) = map f xs"
  by (rule nth_equalityI) (auto simp: nth_list_update)

lemma get_eq [simp]: "get xs i = Some x \<longleftrightarrow> i < length xs \<and> x = xs ! i"
  by (auto simp: get_def)

lemma channel_route_config: "channel_route env a host nosvr w = Some (p, w') \<Longrightarrow> config_of w' = config_of w"
  by (auto simp: channel_route_def Let_def config_of_def split: Option.bind_splits option.splits if_splits
      dest!: cache_find_mode cache_remove_mode)

lemma channel_connect_config: "channel_connect env p w = Some (ok, s, w') \<Longrightarrow> \<exists>fds. w' = w\<lparr>px_fds := fds\<rparr>"
proof -
  have "\<exists>fds. w = w\<lparr>px_fds := fds\<rparr>" by (rule exI [of _ "px_fds w"]) simp
  then show "channel_connect env p w = Some (ok, s, w') \<Longrightarrow> \<exists>fds. w' = w\<lparr>px_fds := fds\<rparr>"
    by (auto simp: channel_connect_def Let_def split: Option.bind_splits option.splits if_splits prod.splits)
qed

lemma create_failed_config: "create_failed host s1 s2 rt w = Some w' \<Longrightarrow> config_of w' = config_of w"
  by (auto simp: create_failed_def Let_def config_of_def split: Option.bind_splits option.splits if_splits
      dest!: cache_remove_mode)

lemma channel_new_config: "channel_new env s1 s2 p now w = Some (c, w') \<Longrightarrow> config_of w' = config_of w"
  by (auto simp: channel_new_def Let_def config_of_def map_update_same split: Option.bind_splits)

lemma create_done_config: "create_done env host c p w = Some w' \<Longrightarrow> config_of w' = config_of w"
  by (auto simp: create_done_def config_of_def add_channel_def split: Option.bind_splits if_splits dest!: cache_add_mode)

lemma channel_create_config:
  assumes "nrdpx_channel_create env src now nosvr w = Some (res, w')"
  shows "config_of w' = config_of w"
proof -
  have "config_of (w\<lparr>px_fds := fds\<rparr>) = config_of w" for w fds by (simp add: config_of_def)
  with assms show ?thesis
    by (auto simp: nrdpx_channel_create_def Let_def split: Option.bind_splits option.splits if_splits
        dest!: channel_route_config channel_connect_config create_failed_config channel_new_config create_done_config)
qed

lemma channel_destroy_config: "channel_destroy t c w = Some w' \<Longrightarrow> config_of w' = config_of w"
  by (auto simp: channel_destroy_def Let_def config_of_def map_update_same split: Option.bind_splits if_splits)

lemma del_channel_config: "del_channel t a w = Some w' \<Longrightarrow> config_of w' = config_of w"
proof -
  have "config_of (w\<lparr>px_channels := cs\<rparr>) = config_of w" for w cs by (simp add: config_of_def)
  then show "del_channel t a w = Some w' \<Longrightarrow> config_of w' = config_of w"
    by (auto simp: del_channel_def split: option.splits dest: channel_destroy_config)
qed

interpretation cfg: loop_invariant "\<lambda>w. config_of w = C" for C
  by unfold_locales
    (auto simp: config_of_def set_chan_def same_server_def map_update_same
      dest: channel_create_config [unfolded config_of_def] del_channel_config [unfolded config_of_def])

subsection \<open>Clients and servers stay within their limits\<close>

text \<open>With the cache off: no client holds more channels than its limit, and no server more than the
  limit \<open>Ms\<close> it was configured with (a message of the server may lower its present limit
  below the channels it has).\<close>

definition client_within :: "nrdpx_client_t \<Rightarrow> int \<Rightarrow> bool" where
  "client_within c m \<longleftrightarrow> 0 \<le> m \<and> cl_max_slots c = m \<and> cl_num_slots c \<le> m"

definition server_within :: "nrdpx_server_t \<Rightarrow> int \<Rightarrow> bool" where
  "server_within s m \<longleftrightarrow> 0 \<le> m \<and> sv_max_slots s \<le> m \<and> sv_num_slots s \<le> m"

definition limits_ok :: "int list \<Rightarrow> int list \<Rightarrow> nrdpx_proxy_t \<Rightarrow> bool" where
  "limits_ok Mc Ms w \<longleftrightarrow> ca_mode (px_cache w) = CACHE_NONE
     \<and> list_all2 client_within (px_clients w) Mc \<and> list_all2 server_within (px_servers w) Ms"

lemma channel_route_uncached:
  assumes "ca_mode (px_cache w) = CACHE_NONE"
  shows "channel_route env a host nosvr w = Some (px_next_route w, w\<lparr>px_routes := (px_routes w)(px_next_route w \<mapsto>
      route_scan (en_fl env) a nosvr (px_clients w) (px_servers w) (enumerate 0 (px_balancers w)) [] new_route),
      px_next_route := px_next_route w + 1\<rparr>)"
  using assms by (simp add: channel_route_def cache_find_def Let_def)

lemma channel_connect_server:
  "channel_connect env p w = Some (True, s, w') \<Longrightarrow> \<exists>r. px_routes w p = Some r \<and> rt_server r \<noteq> None"
  by (auto simp: channel_connect_def split: Option.bind_splits if_splits)

lemma list_all2_raise:
  assumes "list_all2 P xs ms" "i < length xs" "\<And>m. P (xs ! i) m \<Longrightarrow> P x m"
  shows "list_all2 P (xs[i := x]) ms"
  using assms by (auto simp: list_all2_conv_all_nth nth_list_update)

lemma channel_new_limits:
  assumes "limits_ok Mc Ms w" "channel_new env s1 s2 p now w = Some (c, w')"
    "px_routes w p = Some r" "rt_client r = Some ci" "rt_server r = Some si"
    "cl_num_slots (px_clients w ! ci) < cl_max_slots (px_clients w ! ci)"
    "sv_num_slots (px_servers w ! si) < sv_max_slots (px_servers w ! si)"
  shows "limits_ok Mc Ms w'"
  using assms
  by (auto simp: channel_new_def Let_def limits_ok_def client_within_def server_within_def split: Option.bind_splits
      intro!: list_all2_raise)

lemma create_failed_limits:
  "create_failed host s1 s2 rt w = Some w' \<Longrightarrow> limits_ok Mc Ms w \<Longrightarrow> limits_ok Mc Ms w'"
  by (auto simp: create_failed_def Let_def limits_ok_def split: Option.bind_splits option.splits if_splits
      dest!: cache_remove_mode)

lemma create_done_limits:
  "create_done env host c p w = Some w' \<Longrightarrow> limits_ok Mc Ms w \<Longrightarrow> limits_ok Mc Ms w'"
  by (auto simp: create_done_def limits_ok_def add_channel_def split: Option.bind_splits if_splits dest!: cache_add_mode)

lemma channel_create_limits:
  assumes c: "nrdpx_channel_create env src now nosvr w = Some (res, w')" and w: "limits_ok Mc Ms w"
  shows "limits_ok Mc Ms w'"
proof (cases "en_peer env src")
  case None
  with c w show ?thesis
    by (auto simp: nrdpx_channel_create_def split: Option.bind_splits dest: create_failed_limits)
next
  case (Some a)
  let ?h = "addr_to_host (en_res env) a True"
  show ?thesis
  proof (cases "?h = []")
    case True
    with Some c w show ?thesis
      by (auto simp: nrdpx_channel_create_def split: Option.bind_splits dest: create_failed_limits)
  next
    case False
    let ?p = "px_next_route w"
    let ?r = "route_scan (en_fl env) a nosvr (px_clients w) (px_servers w) (enumerate 0 (px_balancers w)) [] new_route"
    let ?w1 = "w\<lparr>px_routes := (px_routes w)(?p \<mapsto> ?r), px_next_route := ?p + 1\<rparr>"
    have "ca_mode (px_cache w) = CACHE_NONE" using w by (simp add: limits_ok_def)
    note route = channel_route_uncached [OF this, of env a ?h nosvr]
    from c Some False route obtain ok s2 w2 where
      cn: "channel_connect env ?p ?w1 = Some (ok, s2, w2)"
      and rest: "(if \<not> ok then do { w \<leftarrow> create_failed ?h s2 src (Some ?p) w2; Some (None, w) }
        else do { (c, w) \<leftarrow> channel_new env src s2 ?p now w2; w \<leftarrow> create_done env ?h c ?p w; Some (Some (ch_addr c), w) })
        = Some (res, w')"
      by (auto simp: nrdpx_channel_create_def Let_def split: Option.bind_splits)
    obtain fds where w2: "w2 = ?w1\<lparr>px_fds := fds\<rparr>" using channel_connect_config [OF cn] by blast
    have lim: "limits_ok Mc Ms w2" using w by (simp add: w2 limits_ok_def)
    show ?thesis
    proof (cases ok)
      case False
      with rest lim show ?thesis by (auto split: Option.bind_splits dest: create_failed_limits)
    next
      case True
      with rest obtain ch w3 where w3: "channel_new env src s2 ?p now w2 = Some (ch, w3)"
        "create_done env ?h ch ?p w3 = Some w'" by (auto split: Option.bind_splits)
      obtain si where si: "rt_server ?r = Some si" using channel_connect_server [of env ?p ?w1 s2 w2] cn True by auto
      obtain ci where ci: "rt_client ?r = Some ci" "cl_num_slots (px_clients w ! ci) < cl_max_slots (px_clients w ! ci)"
        and sv: "sv_num_slots (px_servers w ! si) < sv_max_slots (px_servers w ! si)"
        using new_route_server [OF si] by (auto simp: client_takes_def eligible_def server_usable_def server_getters)
      have "limits_ok Mc Ms w3"
        by (rule channel_new_limits [OF lim w3(1) _ ci(1) si]) (use ci(2) sv in \<open>simp_all add: w2\<close>)
      with w3(2) show ?thesis by (rule create_done_limits)
    qed
  qed
qed

lemma del_channel_limits: "del_channel t a w = Some w' \<Longrightarrow> limits_ok Mc Ms w \<Longrightarrow> limits_ok Mc Ms w'"
  by (auto simp: del_channel_def channel_destroy_def Let_def limits_ok_def client_within_def server_within_def xtl_max_def
      split: option.splits Option.bind_splits if_splits intro!: list_all2_raise)

interpretation lim: loop_invariant "limits_ok Mc Ms" for Mc Ms
  by unfold_locales
    (auto simp: limits_ok_def set_chan_def server_within_def same_server_def
      dest: channel_create_limits [unfolded limits_ok_def] del_channel_limits [unfolded limits_ok_def]
      intro!: list_all2_raise)

text \<open>The tracker's callback only lowers limits.\<close>

lemma tracker_timer_limit: "tracker_timer os R tm clk k sp ip s ck = (s', ck', k', rq) \<Longrightarrow> sv_max_slots s' = sv_max_slots s"
  by (auto simp: tracker_timer_def tracker_status_def nrdpx_server_activate_def nrdpx_server_deactivate_def Let_def
      split: prod.splits if_splits)

lemma tracker_loop_limits:
  assumes "tracker_loop os R tm clk k px item ss ck = (ss', ck', rq)" "list_all2 server_within ss Ms"
  shows "list_all2 server_within ss' Ms"
proof -
  have "list_all2 (\<lambda>s s'. sv_num_slots s' = sv_num_slots s \<and> sv_max_slots s' \<le> sv_max_slots s) ss ss'"
    by (rule tracker_loop_each [OF assms(1)])
      (auto simp: tracker_item_limit dest: tracker_timer_slots tracker_timer_limit)
  with assms(2) show ?thesis
    by (auto simp: list_all2_conv_all_nth server_within_def) (metis order_trans)
qed

lemma info_callback_limits:
  assumes "nrdpx_info_callback os R tm clk ev px ck = (px', ck', rq)" "limits_ok Mc Ms px"
  shows "limits_ok Mc Ms px'"
  using assms by (auto simp: nrdpx_info_callback_def limits_ok_def split: if_splits prod.splits dest: tracker_loop_limits)

lemma tracker_timer_name: "tracker_timer os R tm clk k sp ip s ck = (s', ck', k', rq) \<Longrightarrow> sv_name s' = sv_name s \<and> sv_host s' = sv_host s"
  by (auto simp: tracker_timer_def tracker_status_def nrdpx_server_activate_def nrdpx_server_deactivate_def Let_def
      split: prod.splits if_splits)

lemma tracker_item_name [simp]: "sv_name (tracker_item now p it s) = sv_name s" "sv_host (tracker_item now p it s) = sv_host s"
  by (simp_all add: tracker_item_def sync_server_def nrdpx_server_deactivate_def Let_def)

lemma tracker_loop_names:
  assumes "tracker_loop os R tm clk k px item ss ck = (ss', ck', rq)"
  shows "map (\<lambda>s. (sv_name s, sv_host s)) ss' = map (\<lambda>s. (sv_name s, sv_host s)) ss"
proof -
  have "list_all2 (\<lambda>s s'. sv_name s' = sv_name s \<and> sv_host s' = sv_host s) ss ss'"
    by (rule tracker_loop_each [OF assms]) (auto dest: tracker_timer_name)
  then show ?thesis by (auto simp: list_all2_conv_all_nth intro!: nth_equalityI)
qed

lemma info_callback_config:
  assumes "nrdpx_info_callback os R tm clk ev px ck = (px', ck', rq)"
  shows "config_of px' = config_of px"
  using assms by (auto simp: nrdpx_info_callback_def config_of_def split: if_splits prod.splits dest!: tracker_loop_names)

end
