(* ===== verification/Loop_Relay.thy ===== *)
theory Loop_Relay
  imports Run_Inv
begin

text \<open>
  What a whole iteration of the main loop does to a channel.

  The loop erases channels while it goes over them and appends new ones for failed connections.
  Here it is shown that a channel that is left after an iteration was served once in it: its
  bytes are those it had, with what one \<open>recv\<close> delivered and less what one \<open>send\<close> took on
  each side; and that no channel takes the place of another.
\<close>

subsection \<open>What an iteration does to a channel\<close>

text \<open>\<open>c'\<close> is the channel \<open>c\<close> after it was served in the pass \<open>k\<close>, or as it was when \<open>select\<close>
  reported no descriptor.\<close>

definition relayed :: "loop_env \<Rightarrow> nrdpx_proxy_t \<Rightarrow> nrdpx_channel_t \<Rightarrow> nrdpx_channel_t \<Rightarrow> bool" where
  "relayed le w c c' \<longleftrightarrow> same_chan c c' \<and> (if le_sel_rc le = 0 then c' = c else \<exists>k.
      buf_bytes (ch_in_source c') = drop (sent_to le k (ch_target c)) (buf_bytes (ch_in_source c) @ got_source le k c)
    \<and> buf_bytes (ch_in_target c') = drop (sent_to le k (ch_source c)) (buf_bytes (ch_in_target c) @ got_target le k w c))"

text \<open>The same for the pass \<open>k\<close>.\<close>

definition relayed_at :: "loop_env \<Rightarrow> nat \<Rightarrow> nrdpx_proxy_t \<Rightarrow> nrdpx_channel_t \<Rightarrow> nrdpx_channel_t \<Rightarrow> bool" where
  "relayed_at le k w c c' \<longleftrightarrow> same_chan c c' \<and> (if le_sel_rc le = 0 then c' = c else
      buf_bytes (ch_in_source c') = drop (sent_to le k (ch_target c)) (buf_bytes (ch_in_source c) @ got_source le k c)
    \<and> buf_bytes (ch_in_target c') = drop (sent_to le k (ch_source c)) (buf_bytes (ch_in_target c) @ got_target le k w c))"

lemma relayed_atD: "relayed_at le k w c c' \<Longrightarrow> relayed le w c c'"
  by (auto simp: relayed_def relayed_at_def split: if_splits)

lemma relayed_config: "config_of w = config_of w' \<Longrightarrow> relayed le w c c' = relayed le w' c c'"
  by (simp add: relayed_def got_target_def connected_target_def config_of_def)

lemma chan_io_relayed:
  assumes "world_ok w" "i < length (px_channels w)" "chan_io le k i w = Some (True, w')" "le_sel_rc le \<noteq> 0"
  shows "keeps i w w' \<and> relayed_at le k w (px_channels w ! i) (px_channels w' ! i)"
proof -
  let ?c = "px_channels w ! i"
  obtain gt ss st where r: "relays i w w' (got_source le k ?c) ss gt st"
    and e: "gt = got_target le k w ?c" "ss = take (sent_to le k (ch_target ?c)) (buf_bytes (ch_in_source ?c) @ got_source le k ?c)"
      "st = take (sent_to le k (ch_source ?c)) (buf_bytes (ch_in_target ?c) @ gt)"
    using chan_io_relays [OF assms(1,2), of le k] assms(3) by auto
  from r have b: "buf_bytes (ch_in_source ?c) @ got_source le k ?c = ss @ buf_bytes (ch_in_source (px_channels w' ! i))"
    "buf_bytes (ch_in_target ?c) @ gt = st @ buf_bytes (ch_in_target (px_channels w' ! i))" by (simp_all add: relays_def)
  note d = pending_drop [OF b(1) e(2)] pending_drop [OF b(2) e(3), unfolded e(1)]
  have "keeps i w w'" using r by (simp add: relays_def)
  moreover from this have "same_chan ?c (px_channels w' ! i)" by (simp add: keeps_def)
  ultimately show ?thesis using d assms(4) unfolding relayed_at_def by simp
qed

interpretation io_next: io_invariant "\<lambda>w. px_next_chan w = N" for N
  by unfold_locales (simp_all add: set_chan_def)

subsection \<open>New channels have new addresses\<close>

lemma channel_route_next: "channel_route env a host nosvr w = Some (p, w') \<Longrightarrow>
    px_next_chan w' = px_next_chan w \<and> px_listeners w' = px_listeners w"
  by (auto simp: channel_route_def Let_def split: Option.bind_splits option.splits if_splits)

lemma create_failed_next: "create_failed host s1 s2 rt w = Some w' \<Longrightarrow>
    px_next_chan w' = px_next_chan w \<and> px_listeners w' = px_listeners w"
  by (auto simp: create_failed_def Let_def split: Option.bind_splits option.splits if_splits)

lemma channel_new_next:
  "channel_new env s1 s2 p now w = Some (c, w') \<Longrightarrow>
     ch_addr c = px_next_chan w \<and> px_next_chan w' = Suc (px_next_chan w) \<and> px_listeners w' = px_listeners w"
  by (auto simp: channel_new_def Let_def split: Option.bind_splits)

lemma create_done_next: "create_done env host c p w = Some w' \<Longrightarrow>
    px_next_chan w' = px_next_chan w \<and> px_listeners w' = px_listeners w"
  by (auto simp: create_done_def add_channel_def split: Option.bind_splits if_splits)

lemma channel_create_next:
  assumes "nrdpx_channel_create env src now nosvr w = Some (res, w')"
  shows "px_next_chan w \<le> px_next_chan w' \<and> (\<forall>a. res = Some a \<longrightarrow> a = px_next_chan w) \<and> px_listeners w' = px_listeners w"
  using assms
  by (auto simp: nrdpx_channel_create_def Let_def split: Option.bind_splits option.splits if_splits
      dest!: channel_route_next channel_connect_config create_failed_next channel_new_next create_done_next)

lemma del_channel_next: "del_channel t a w = Some w' \<Longrightarrow>
    px_next_chan w' = px_next_chan w \<and> px_listeners w' = px_listeners w"
  by (auto simp: del_channel_def channel_destroy_def Let_def split: option.splits Option.bind_splits if_splits)

text \<open>The loop does not touch the listeners.\<close>

interpretation lst: loop_invariant "\<lambda>w. px_listeners w = L" for L
  by unfold_locales (auto simp: set_chan_def dest: channel_create_next del_channel_next)

text \<open>The channels before stay, and one may be appended.\<close>

definition grown :: "nrdpx_proxy_t \<Rightarrow> nrdpx_channel_t list \<Rightarrow> nrdpx_proxy_t \<Rightarrow> bool" where
  "grown w cs w' \<longleftrightarrow> world_ok w' \<and> px_next_chan w \<le> px_next_chan w' \<and> config_of w' = config_of w
     \<and> (\<exists>new. px_channels w' = cs @ new \<and> (\<forall>c\<in>set new. px_next_chan w \<le> ch_addr c))"

lemma channel_create_grown:
  assumes ok: "world_ok w" and cc: "nrdpx_channel_create env src now nosvr w = Some (res, w')"
  shows "grown w (px_channels w) w'"
proof -
  from channel_create_ok [OF ok, of env src now nosvr] cc have
    "world_ok w'" "case res of None \<Rightarrow> px_channels w' = px_channels w
       | Some a \<Rightarrow> \<exists>c. ch_addr c = a \<and> ch_source c = src \<and> px_channels w' = px_channels w @ [c]" by auto
  with channel_create_next [OF cc] channel_create_config [OF cc] show ?thesis
    by (cases res) (auto simp: grown_def)
qed

lemma grown_trans: "grown w (px_channels w) w1 \<Longrightarrow> grown w1 (px_channels w1) w2 \<Longrightarrow> grown w (px_channels w) w2"
  by (fastforce simp: grown_def)

lemma accept_loop_grown:
  "accept_loop le k ls w = Some w' \<Longrightarrow> world_ok w \<Longrightarrow> grown w (px_channels w) w'"
proof (induction ls arbitrary: k w)
  case Nil
  then show ?case by (simp add: grown_def)
next
  case (Cons l ls)
  obtain sd fds where a: "nrdpx_socket_accept (en_os (le_env le k)) (px_fds w) (ls_sock l) = (sd, fds)" by fastforce
  have w1: "world_ok (w\<lparr>px_fds := fds\<rparr>)" "grown w (px_channels w) (w\<lparr>px_fds := fds\<rparr>)"
    using Cons.prems(2) by (simp_all add: grown_def config_of_def)
  show ?case
  proof (cases "ls_sock l \<noteq> NRD_NOSOCK \<and> ls_sock l \<in> le_read le \<and> sd \<noteq> NRD_NOSOCK")
    case True
    with a Cons.prems(1) obtain chn w2 where
      w2: "nrdpx_channel_create (le_env le k) sd (le_now le) None (w\<lparr>px_fds := fds\<rparr>) = Some (chn, w2)"
        "accept_loop le (k + 1) ls w2 = Some w'"
      by (auto simp: Let_def split: Option.bind_splits)
    from channel_create_grown [OF w1(1) w2(1)] have g: "grown (w\<lparr>px_fds := fds\<rparr>) (px_channels (w\<lparr>px_fds := fds\<rparr>)) w2" .
    then have "world_ok w2" by (simp add: grown_def)
    from Cons.IH [OF w2(2) this] g w1(2) show ?thesis using grown_trans by blast
  next
    case False
    with a Cons.prems(1) consider "accept_loop le (k + 1) ls w = Some w'"
      | "accept_loop le (k + 1) ls (w\<lparr>px_fds := fds\<rparr>) = Some w'"
      by (auto simp: Let_def split: if_splits)
    then show ?thesis
      using Cons.IH [OF _ Cons.prems(2)] Cons.IH [OF _ w1(1)] grown_trans [OF w1(2)] by cases blast+
  qed
qed

lemma connect_failed_grown:
  assumes ok: "world_ok w" and i: "i < length (px_channels w)" and cf: "connect_failed le k i w = Some w'"
  shows "grown w (take i (px_channels w) @ drop (Suc i) (px_channels w)) w'"
proof -
  let ?c = "px_channels w ! i"
  obtain s where s: "chan_server ?c w = Some s" "s < length (px_servers w)"
    using chan_server_ok [OF ok nth_mem [OF i]] by blast
  let ?w1 = "w\<lparr>px_servers := (px_servers w)[s := count_fault (px_max_faults w) (px_servers w ! s)]\<rparr>"
  have w1: "world_ok ?w1" using s(2) by (intro set_server_ok [OF ok]) simp_all
  from cf s obtain new w2 where
    w2: "nrdpx_channel_create (le_env le k) (ch_source ?c) (le_now le) (Some s) ?w1 = Some (new, w2)"
    and del: "del_channel (en_time (le_env le k)) (ch_addr ?c)
        (set_chan i ((px_channels w2 ! i)\<lparr>ch_source := NRD_NOSOCK\<rparr>) w2) = Some w'"
    by (auto simp: connect_failed_def Let_def nrdpx_channel_delete_def split: Option.bind_splits)
  from channel_create_grown [OF w1 w2] obtain cs where
    g: "world_ok w2" "px_next_chan w \<le> px_next_chan w2" "px_channels w2 = px_channels w @ cs"
      "\<forall>c\<in>set cs. px_next_chan w \<le> ch_addr c" by (auto simp: grown_def)
  have i2: "i < length (px_channels w2)" and c2: "px_channels w2 ! i = ?c" using g(3) i by (auto simp: nth_append)
  let ?w3 = "set_chan i ((px_channels w2 ! i)\<lparr>ch_source := NRD_NOSOCK\<rparr>) w2"
  have w3: "world_ok ?w3"
    using chan_bufs [OF g(1) i2] by (intro set_chan_ok [OF g(1) i2]) (simp_all add: chan_bufs_ok_def)
  have i3: "i < length (px_channels ?w3)" "ch_addr (px_channels ?w3 ! i) = ch_addr ?c"
    using i2 c2 by (simp_all add: set_chan_def)
  from del_channel_nth [OF w3 i3(1), of "en_time (le_env le k)"] del i3(2) have
    "world_ok w'" "px_channels w' = take i (px_channels ?w3) @ drop (Suc i) (px_channels ?w3)" by auto
  moreover have "config_of w' = config_of w" by (rule cfg.connect_failed_holds [OF cf refl])
  moreover have "px_next_chan w \<le> px_next_chan w'" using del_channel_next [OF del] g(2) by (simp add: set_chan_def)
  ultimately show ?thesis using g(3,4) i by (auto simp: grown_def set_chan_def)
qed

subsection \<open>Passes\<close>

text \<open>The pass over the channel at \<open>i\<close>: the channels before it and behind it stay, and it is
  served or erased.\<close>

lemma chan_pass_relayed:
  assumes ok: "world_ok w" and i: "i < length (px_channels w)" and p: "chan_pass le k i w = Some (i', w')"
  shows "(i' = i \<and> grown w (take i (px_channels w) @ drop (Suc i) (px_channels w)) w')
    \<or> (i' = Suc i \<and> (\<exists>c'. relayed_at le k w (px_channels w ! i) c' \<and> grown w ((px_channels w)[i := c']) w'))"
proof (cases "connect_error le k w (px_channels w ! i) \<noteq> 0")
  case True
  with p connect_failed_grown [OF ok i] show ?thesis by (auto simp: chan_pass_def Let_def split: Option.bind_splits)
next
  case err: False
  show ?thesis
  proof (cases "le_sel_rc le = 0")
    case True
    then have "relayed_at le k w (px_channels w ! i) (px_channels w ! i)" by (simp add: relayed_at_def same_chan_def)
    with err p ok True show ?thesis by (auto simp: chan_pass_def Let_def grown_def intro!: exI [of _ "px_channels w ! i"])
  next
    case sel: False
    obtain alive w1 where w1: "chan_io le k i w = Some (alive, w1)" "keeps i w w1" using chan_io_ok [OF ok i] by blast
    have next1: "px_next_chan w1 = px_next_chan w" and cfg1: "config_of w1 = config_of w"
      using io_next.chan_io_holds [OF w1(1)] cfg.chan_io_holds [OF w1(1)] by blast+
    have list1: "px_channels w1 = (px_channels w)[i := px_channels w1 ! i]"
      by (rule nth_equalityI) (use w1(2) i in \<open>auto simp: keeps_def nth_list_update\<close>)
    obtain c1 where c1: "px_channels w1 = (px_channels w)[i := c1]" using list1 by blast
    show ?thesis
    proof (cases alive)
      case True
      with w1(1) have io: "chan_io le k i w = Some (True, w1)" by simp
      from err sel p True w1(1) have "i' = Suc i" "w' = w1" by (simp_all add: chan_pass_def Let_def)
      moreover have "grown w ((px_channels w)[i := px_channels w1 ! i]) w1"
        using w1(2) next1 cfg1 list1 by (simp add: grown_def keeps_def)
      ultimately show ?thesis using chan_io_relayed [OF ok i io sel] by blast
    next
      case False
      with err sel p w1(1) have d: "i' = i" "del_channel (en_time (le_env le k)) (ch_addr (px_channels w ! i)) w1 = Some w'"
        by (auto simp: chan_pass_def Let_def nrdpx_channel_delete_def split: Option.bind_splits)
      have "world_ok w1" "i < length (px_channels w1)" "ch_addr (px_channels w1 ! i) = ch_addr (px_channels w ! i)"
        using w1(2) i by (simp_all add: keeps_def same_chan_def)
      with del_channel_nth [of w1 i "en_time (le_env le k)"] d(2) have
        "world_ok w'" "px_channels w' = take i (px_channels w1) @ drop (Suc i) (px_channels w1)" by auto
      moreover have "take i (px_channels w1) @ drop (Suc i) (px_channels w1) = take i (px_channels w) @ drop (Suc i) (px_channels w)"
        unfolding c1 by simp
      ultimately show ?thesis
        using d(1) del_channel_next [OF d(2)] del_channel_config [OF d(2)] next1 cfg1 by (simp add: grown_def)
    qed
  qed
qed

subsection \<open>The loop and the iteration\<close>

text \<open>Where the channels of \<open>w'\<close> that are not new come from: those in the first \<open>i\<close> places of
  \<open>w\<close> are unchanged, the others were served once.\<close>

definition comes_from :: "loop_env \<Rightarrow> nat \<Rightarrow> nrdpx_proxy_t \<Rightarrow> nrdpx_proxy_t \<Rightarrow> bool" where
  "comes_from le i w w' \<longleftrightarrow> (\<forall>c'\<in>set (px_channels w'). ch_addr c' < px_next_chan w \<longrightarrow>
     (\<exists>c\<in>set (px_channels w). ch_addr c = ch_addr c' \<and> (c \<in> set (drop i (px_channels w)) \<longrightarrow> relayed le w c c')))"

lemma same_addr:
  assumes "world_ok w" "c \<in> set (px_channels w)" "c' \<in> set (px_channels w)" "ch_addr c = ch_addr c'"
  shows "c = c'"
  using world_okD(4) [OF assms(1)] assms(2-4) by (auto simp: distinct_map dest: inj_onD)

lemma take_not_drop:
  assumes "world_ok w" "c \<in> set (take i (px_channels w))"
  shows "c \<notin> set (drop i (px_channels w))"
proof -
  have "distinct (take i (px_channels w) @ drop i (px_channels w))"
    using world_okD(4) [OF assms(1)] by (simp add: distinct_map)
  with assms(2) show ?thesis unfolding distinct_append by blast
qed

lemma chan_loop_comes_from:
  "chan_loop fuel le k i w = Some (True, w') \<Longrightarrow> world_ok w \<Longrightarrow> i \<le> length (px_channels w) \<Longrightarrow>
     world_ok w' \<and> take i (px_channels w') = take i (px_channels w) \<and> comes_from le i w w'"
proof (induction fuel arbitrary: k i w)
  case 0
  then show ?case by (auto simp: comes_from_def)
next
  case (Suc fuel)
  show ?case
  proof (cases "i < length (px_channels w)")
    case False
    with Suc.prems show ?thesis by (auto simp: comes_from_def)
  next
    case i: True
    with Suc.prems(1) obtain i1 w1 where p: "chan_pass le k i w = Some (i1, w1)"
      and l: "chan_loop fuel le (k + 1) i1 w1 = Some (True, w')" by (auto split: Option.bind_splits)
    note pass = chan_pass_relayed [OF Suc.prems(2) i p]
    let ?rest = "drop (Suc i) (px_channels w)"
    have pieces: "world_ok w1 \<and> px_next_chan w \<le> px_next_chan w1 \<and> config_of w1 = config_of w \<and> i \<le> i1
      \<and> i1 \<le> length (px_channels w1)
      \<and> (\<exists>new. drop i1 (px_channels w1) = ?rest @ new \<and> (\<forall>c\<in>set new. px_next_chan w \<le> ch_addr c))
      \<and> (take i1 (px_channels w1) = take i (px_channels w)
          \<or> (\<exists>c'. take i1 (px_channels w1) = take i (px_channels w) @ [c'] \<and> relayed le w (px_channels w ! i) c'))"
      using pass
    proof (elim disjE conjE exE)
      fix c' assume "i1 = Suc i" "relayed_at le k w (px_channels w ! i) c'" "grown w ((px_channels w)[i := c']) w1"
      with i relayed_atD show ?thesis by (auto simp: grown_def take_Suc_conv_app_nth)
    qed (use i in \<open>auto simp: grown_def\<close>)
    then have w1: "world_ok w1" "px_next_chan w \<le> px_next_chan w1" "config_of w1 = config_of w" "i \<le> i1"
      "i1 \<le> length (px_channels w1)" by blast+
    from Suc.IH [OF l w1(1,5)] have ih: "world_ok w'" "take i1 (px_channels w') = take i1 (px_channels w1)"
      "comes_from le i1 w1 w'" by blast+
    have "take i (take i1 (px_channels w1)) = take i (px_channels w)"
      using pieces i by (elim conjE disjE exE) simp_all
    moreover have "take i (px_channels w') = take i (take i1 (px_channels w'))" using w1(4) by (simp add: min_def)
    ultimately have t: "take i (px_channels w') = take i (px_channels w)" using ih(2) by simp
    have "comes_from le i w w'"
      unfolding comes_from_def
    proof (intro ballI impI)
      fix c' assume c': "c' \<in> set (px_channels w')" "ch_addr c' < px_next_chan w"
      with ih(3) w1(2) obtain c1 where c1: "c1 \<in> set (px_channels w1)" "ch_addr c1 = ch_addr c'"
        "c1 \<in> set (drop i1 (px_channels w1)) \<longrightarrow> relayed le w1 c1 c'" by (force simp: comes_from_def)
      consider "c1 \<in> set (drop i1 (px_channels w1))" | "c1 \<in> set (take i1 (px_channels w1))"
        using c1(1) by (metis Un_iff append_take_drop_id set_append)
      then show "\<exists>c\<in>set (px_channels w). ch_addr c = ch_addr c' \<and> (c \<in> set (drop i (px_channels w)) \<longrightarrow> relayed le w c c')"
      proof cases
        case 1
        then have "c1 \<in> set ?rest" using pieces c1(2) c'(2) by force
        then have "c1 \<in> set (px_channels w)" by (rule in_set_dropD)
        with 1 c1 relayed_config [OF w1(3)] show ?thesis by blast
      next
        case 2
        then have "c1 \<in> set (px_channels w')" using ih(2) by (metis in_set_takeD)
        from same_addr [OF ih(1) this c'(1) c1(2)] have eq: "c' = c1" by simp
        consider "c1 \<in> set (take i (px_channels w))" | "relayed le w (px_channels w ! i) c1"
          using 2 pieces by auto
        then show ?thesis
        proof cases
          case 1
          from take_not_drop [OF Suc.prems(2) 1] in_set_takeD [OF 1] eq show ?thesis by blast
        next
          case 2
          then have "ch_addr (px_channels w ! i) = ch_addr c1" by (simp add: relayed_def same_chan_def)
          with 2 eq nth_mem [OF i] show ?thesis by blast
        qed
      qed
    qed
    with ih(1) t show ?thesis by blast
  qed
qed

lemma iteration_relayed:
  assumes ok: "world_ok w" and it: "main_iteration fuel le w = Some (Iterated True w')"
    and c: "c \<in> set (px_channels w)" "c' \<in> set (px_channels w')" "ch_addr c' = ch_addr c"
  shows "\<exists>R W m. fill_fds True True w = Some (R, W, m) \<and> relayed (le_selected le R W) w c c'"
proof -
  from it obtain R W m where fd: "fill_fds True True w = Some (R, W, m)"
    by (auto simp: main_iteration_def split: Option.bind_splits)
  let ?le = "le_selected le R W"
  obtain w1 where
    a: "(if le_sel_rc ?le \<noteq> 0 then accept_loop ?le 0 (px_listeners w) w else Some w) = Some w1"
    and l: "chan_loop fuel ?le (length (px_listeners w1)) 0 w1 = Some (True, w')"
    using it fd
    by (auto simp: main_iteration_def Let_def simp del: if_split split: if_split_asm Option.bind_splits)
  have g: "grown w (px_channels w) w1"
    using a ok accept_loop_grown [of ?le 0 "px_listeners w" w w1]
    by (cases "le_sel_rc ?le = 0") (auto simp: grown_def)
  then have w1: "world_ok w1" "config_of w1 = config_of w" "px_next_chan w \<le> px_next_chan w1" "set (px_channels w) \<subseteq> set (px_channels w1)"
    by (auto simp: grown_def)
  have "ch_addr c' < px_next_chan w1"
    using world_okD(5) [OF ok c(1)] c(3) w1(3) by (simp add: channel_ok_def)
  with chan_loop_comes_from [OF l w1(1)] c(2) obtain c1 where
    "c1 \<in> set (px_channels w1)" "ch_addr c1 = ch_addr c'" "relayed ?le w1 c1 c'" by (auto simp: comes_from_def)
  moreover from same_addr [OF w1(1), of c1 c] calculation(1,2) c w1(4) have "c1 = c" by auto
  ultimately show ?thesis using fd relayed_config [OF w1(2)] by blast
qed

end
