(* ===== verification/Interleave.thy ===== *)
theory Interleave
  imports Checker Process Loop_Relay
begin

text \<open>
  The main loop and the information callback step by step, on the proxy that they share without a
  lock.  A step of the main thread is the test of \<open>__terminated\<close>, \<open>fill_fds\<close>, \<open>select\<close>, the
  work on one listener, or one pass of the loop over the channels.  A step of the callback is the
  work of a message on one server, or, for the timer, the decision to check a server, a step of
  \<open>nrdpx_check_server\<close>, what follows from its result, the next check time, and the request for
  information.  Each step reads the proxy as the other thread left it.

  The functions \<open>main_iteration\<close> and \<open>nrdpx_info_callback\<close> are the runs of these steps that
  nothing interrupts (\<open>main_iteration_steps\<close>, \<open>info_callback_steps\<close>).
\<close>

subsection \<open>The main thread\<close>

text \<open>The places in \<open>nrdpx_main_proc\<close>: the head of the loop, before \<open>fill_fds\<close>, in \<open>select\<close> with
  the sets, before the listener \<open>j\<close>, before the pass \<open>k\<close> over the channel \<open>i\<close>.\<close>

datatype main_pc =
    M_head
  | M_fill
  | M_select "int set" "int set"
  | M_accept loop_env nat
  | M_chan loop_env nat nat

inductive main_trans :: "bool \<Rightarrow> main_pc \<times> nrdpx_proxy_t \<Rightarrow> main_pc \<times> nrdpx_proxy_t \<Rightarrow> bool" for terminated where
  mt_test: "\<not> terminated \<Longrightarrow> main_trans terminated (M_head, w) (M_fill, w)"
| mt_fill: "fill_fds True True w = Some (R, W, m) \<Longrightarrow> main_trans terminated (M_fill, w) (M_select R W, w)"
| mt_select: "\<not> terminated \<Longrightarrow> \<not> (le_sel_rc le < 0 \<and> is_error_fatal (le_sel_errno le) False) \<Longrightarrow>
     main_trans terminated (M_select R W, w)
       (if le_sel_rc le \<noteq> 0 then M_accept (le_selected le R W) 0
        else M_chan (le_selected le R W) (length (px_listeners w)) 0, w)"
| mt_accept: "j < length (px_listeners w) \<Longrightarrow> accept_loop le j [px_listeners w ! j] w = Some w' \<Longrightarrow>
     main_trans terminated (M_accept le j, w) (M_accept le (j + 1), w')"
| mt_accepted: "j \<ge> length (px_listeners w) \<Longrightarrow> main_trans terminated (M_accept le j, w) (M_chan le j 0, w)"
| mt_chan: "i < length (px_channels w) \<Longrightarrow> chan_pass le k i w = Some (i', w') \<Longrightarrow>
     main_trans terminated (M_chan le k i, w) (M_chan le (k + 1) i', w')"
| mt_next: "i \<ge> length (px_channels w) \<Longrightarrow> main_trans terminated (M_chan le k i, w) (M_head, w)"

inductive_cases main_transE: "main_trans tm (m, w) (m', w')"

subsection \<open>The callback\<close>

text \<open>The places in \<open>nrdpx_info_callback\<close>: outside; before the server \<open>j\<close> with the item and \<open>now\<close>;
  in the check of the server; before its check time is set; before what follows.\<close>

datatype event_pc =
    E_idle
  | E_server "HNRD_NBSITEM option" int nat
  | E_check int nat check_pc
  | E_stat int nat
  | E_request int nat

text \<open>The parts of the branch of the timer: whether the status is checked, whether the server is
  probed, the result, and what follows; see \<open>tracker_status\<close> and \<open>tracker_timer\<close>.\<close>

definition status_due :: "int \<Rightarrow> nrdpx_server_t \<Rightarrow> bool" where
  "status_due now s \<longleftrightarrow> sv_check_mode s \<ge> CHECK_CONN \<and> (sv_first_check s \<or> now > sv_stat_time s)"

definition probe_due :: "bool \<Rightarrow> nrdpx_server_t \<Rightarrow> bool" where
  "probe_due terminated s \<longleftrightarrow> \<not> terminated \<and>
     (sv_first_check s \<or> \<not> nrdpx_server_is_active (Some s) \<or> nrdpx_server_slot_count (Some s) = 0)"

definition probed :: "bool \<Rightarrow> nrdpx_server_t \<Rightarrow> nrdpx_server_t" where
  "probed ret s = (if ret then nrdpx_server_activate s else nrdpx_server_deactivate s)"

definition info_due :: "int \<Rightarrow> nrdpx_server_t \<Rightarrow> bool" where
  "info_due now s \<longleftrightarrow> nrdpx_server_is_active (Some s) \<and> sv_check_mode s \<ge> CHECK_INFO \<and> now > sv_info_time s"

definition set_server :: "nat \<Rightarrow> nrdpx_server_t \<Rightarrow> nrdpx_proxy_t \<Rightarrow> nrdpx_proxy_t" where
  "set_server j s w = w\<lparr>px_servers := (px_servers w)[j := s]\<rparr>"

inductive event_trans ::
  "resolver \<Rightarrow> bool \<Rightarrow> event_pc \<times> nrdpx_proxy_t \<times> check_state \<Rightarrow> event_pc \<times> nrdpx_proxy_t \<times> check_state \<Rightarrow> bool"
  for R terminated where
  et_event: "\<not> event_logged ev \<Longrightarrow>
     event_trans R terminated (E_idle, w, ck) (E_server (valid_item ev) now 0, w, ck)"
| et_item: "get (px_servers w) j = Some s \<Longrightarrow>
     event_trans R terminated (E_server (Some it) now j, w, ck)
       (E_server (Some it) now (j + 1),
        if is_same_host R (sv_host s) (it_host it) then set_server j (tracker_item now (px_info_period w) it s) w else w, ck)"
| et_probe: "get (px_servers w) j = Some s \<Longrightarrow> status_due now s \<Longrightarrow> probe_due terminated s \<Longrightarrow>
     event_trans R terminated (E_server None now j, w, ck) (E_check now j (C_start (sv_host s) (sv_port s)), w, ck)"
| et_no_probe: "get (px_servers w) j = Some s \<Longrightarrow> status_due now s \<Longrightarrow> \<not> probe_due terminated s \<Longrightarrow>
     event_trans R terminated (E_server None now j, w, ck) (E_stat now j, w, ck)"
| et_not_due: "get (px_servers w) j = Some s \<Longrightarrow> \<not> status_due now s \<Longrightarrow>
     event_trans R terminated (E_server None now j, w, ck) (E_request now j, w, ck)"
| et_check: "check_step os R pc ck = (pc', ck') \<Longrightarrow>
     event_trans R terminated (E_check now j pc, w, ck) (E_check now j pc', w, ck')"
| et_checked: "get (px_servers w) j = Some s \<Longrightarrow>
     event_trans R terminated (E_check now j (C_done ret), w, ck) (E_stat now j, set_server j (probed ret s) w, ck)"
| et_stat: "get (px_servers w) j = Some s \<Longrightarrow>
     event_trans R terminated (E_stat now j, w, ck)
       (E_request now' j, set_server j (s\<lparr>sv_stat_time := now' + px_status_period w\<rparr>) w, ck)"
| et_request: "get (px_servers w) j = Some s \<Longrightarrow> info_due now s \<Longrightarrow>
     event_trans R terminated (E_request now j, w, ck)
       (E_server None now' (j + 1),
        set_server j (s\<lparr>sv_first_check := False, sv_info_time := now' + px_info_period w\<rparr>) w, ck)"
| et_no_request: "get (px_servers w) j = Some s \<Longrightarrow> \<not> info_due now s \<Longrightarrow>
     event_trans R terminated (E_request now j, w, ck)
       (E_server None now (j + 1), set_server j (s\<lparr>sv_first_check := False\<rparr>) w, ck)"
| et_end: "j \<ge> length (px_servers w) \<Longrightarrow> event_trans R terminated (E_server it now j, w, ck) (E_idle, w, ck)"

subsection \<open>What the callback may change of a server\<close>

definition tracked :: "nrdpx_server_t \<Rightarrow> nrdpx_server_t \<Rightarrow> bool" where
  "tracked s s' \<longleftrightarrow> sv_num_slots s' = sv_num_slots s \<and> sv_max_slots s' \<le> sv_max_slots s
     \<and> sv_name s' = sv_name s \<and> sv_host s' = sv_host s"

lemma tracked_item: "tracked s (tracker_item now p it s)"
  by (simp add: tracked_def tracker_item_limit)

lemma tracked_probed: "tracked s (probed ret s)"
  by (simp add: tracked_def probed_def nrdpx_server_activate_def nrdpx_server_deactivate_def)

lemma tracked_times:
  "tracked s (s\<lparr>sv_stat_time := a\<rparr>)" "tracked s (s\<lparr>sv_first_check := b, sv_info_time := a\<rparr>)" "tracked s (s\<lparr>sv_first_check := b\<rparr>)"
  by (simp_all add: tracked_def)

text \<open>A step of the callback changes nothing, or one server in this way.\<close>

lemma event_trans_server:
  assumes "event_trans R tm (e, w, ck) (e', w', ck')"
  shows "w' = w \<or> (\<exists>j s s'. get (px_servers w) j = Some s \<and> tracked s s' \<and> w' = set_server j s' w)"
  using assms by (cases rule: event_trans.cases) (auto intro: tracked_item tracked_probed tracked_times)

subsection \<open>Every step keeps the invariant\<close>

lemma main_trans_ok:
  assumes "main_trans tm (m, w) (m', w')" "world_ok w"
  shows "world_ok w'"
  using assms
proof (cases rule: main_trans.cases)
  case (mt_accept j le)
  with accept_loop_ok [OF assms(2), of le j "[px_listeners w ! j]"] show ?thesis by auto
next
  case (mt_chan i le k i')
  with chan_pass_ok [OF assms(2) mt_chan(3), of le k] show ?thesis by auto
qed simp_all

lemma event_trans_ok:
  assumes "event_trans R tm (e, w, ck) (e', w', ck')" "world_ok w"
  shows "world_ok w'"
  using event_trans_server [OF assms(1)] set_server_ok [OF assms(2)] assms(2)
  by (auto simp: set_server_def tracked_def)

text \<open>The main thread can always go on, but for a descriptor that an \<open>fd_set\<close> cannot hold.\<close>

lemma main_progress:
  assumes ok: "world_ok w" and fill: "m = M_fill \<longrightarrow> fill_fds True True w \<noteq> None" and run: "\<not> tm"
  shows "\<exists>s. main_trans tm (m, w) s"
proof (cases m)
  case M_head
  with run mt_test show ?thesis by blast
next
  case M_fill
  with fill obtain R W n where "fill_fds True True w = Some (R, W, n)" by (metis not_None_eq prod_cases3)
  with M_fill mt_fill show ?thesis by blast
next
  case (M_select R W)
  have "\<not> (le_sel_rc (le\<lparr>le_sel_rc := 0\<rparr>) < 0 \<and> is_error_fatal (le_sel_errno (le\<lparr>le_sel_rc := 0\<rparr>)) False)" for le :: loop_env by simp
  with M_select run mt_select show ?thesis by blast
next
  case (M_accept le j)
  with accept_loop_ok [OF ok, of le j "[px_listeners w ! j]"] mt_accept mt_accepted show ?thesis
    by (cases "j < length (px_listeners w)") (blast, metis not_less)
next
  case (M_chan le k i)
  with chan_pass_ok [OF ok, of i le k] mt_chan mt_next show ?thesis
    by (cases "i < length (px_channels w)") (blast, metis not_less)
qed

text \<open>An invariant of the main loop that the callback keeps is one of the steps.\<close>

locale step_invariant = loop_invariant +
  assumes track: "holds w \<Longrightarrow> get (px_servers w) j = Some s \<Longrightarrow> tracked s s' \<Longrightarrow> holds (set_server j s' w)"
begin

lemma main_trans_holds:
  assumes "main_trans tm (m, w) (m', w')" "holds w"
  shows "holds w'"
  using assms by (cases rule: main_trans.cases) (auto dest: accept_loop_holds chan_pass_holds simp del: accept_loop.simps)

lemma event_trans_holds:
  assumes "event_trans R tm (e, w, ck) (e', w', ck')" "holds w"
  shows "holds w'"
  using event_trans_server [OF assms(1)] track [OF assms(2)] assms(2) by blast

end

interpretation cfg_step: step_invariant "\<lambda>w. config_of w = C" for C
  by unfold_locales (auto simp: config_of_def set_server_def tracked_def map_update_same)

interpretation lim_step: step_invariant "limits_ok Mc Ms" for Mc Ms
  by unfold_locales
    (auto simp: limits_ok_def set_server_def tracked_def server_within_def intro!: list_all2_raise)

subsection \<open>Undisturbed runs\<close>

lemma accept_loop_Cons: "accept_loop le k (l # ls) w = do { w \<leftarrow> accept_loop le k [l] w; accept_loop le (k + 1) ls w }"
  by (auto simp: Let_def split: prod.splits Option.bind_splits)

lemma accept_steps:
  "accept_loop le j (drop j (px_listeners w)) w = Some w' \<Longrightarrow> j \<le> length (px_listeners w) \<Longrightarrow>
     (main_trans tm)\<^sup>*\<^sup>* (M_accept le j, w) (M_chan le (length (px_listeners w)) 0, w')"
proof (induction "length (px_listeners w) - j" arbitrary: j w)
  case 0
  then have "j = length (px_listeners w)" by simp
  with 0 mt_accepted [of w j tm le] show ?case by auto
next
  case (Suc n)
  then have j: "j < length (px_listeners w)" by simp
  then have "drop j (px_listeners w) = px_listeners w ! j # drop (Suc j) (px_listeners w)" by (simp add: Cons_nth_drop_Suc)
  with Suc.prems(1) accept_loop_Cons [of le j "px_listeners w ! j" "drop (Suc j) (px_listeners w)" w]
  obtain w1 where w1: "accept_loop le j [px_listeners w ! j] w = Some w1"
    "accept_loop le (Suc j) (drop (Suc j) (px_listeners w)) w1 = Some w'"
    by (auto simp del: accept_loop.simps split: Option.bind_splits)
  have ls: "px_listeners w1 = px_listeners w" using lst.accept_loop_holds [OF w1(1) refl] .
  have "(main_trans tm)\<^sup>*\<^sup>* (M_accept le (Suc j), w1) (M_chan le (length (px_listeners w)) 0, w')"
    using Suc.hyps(1) [of w1 "Suc j"] Suc.hyps(2) w1(2) j ls by simp
  with mt_accept [OF j w1(1), of tm] show ?case by (simp add: converse_rtranclp_into_rtranclp)
qed

lemma chan_steps:
  "chan_loop fuel le k i w = Some (True, w') \<Longrightarrow> (main_trans tm)\<^sup>*\<^sup>* (M_chan le k i, w) (M_head, w')"
proof (induction fuel arbitrary: k i w)
  case 0
  then show ?case using mt_next [of w i tm le k] by auto
next
  case (Suc fuel)
  show ?case
  proof (cases "i < length (px_channels w)")
    case True
    with Suc.prems obtain i1 w1 where "chan_pass le k i w = Some (i1, w1)" "chan_loop fuel le (k + 1) i1 w1 = Some (True, w')"
      by (auto split: Option.bind_splits)
    from mt_chan [OF True this(1), of tm] Suc.IH [OF this(2)] show ?thesis by (rule converse_rtranclp_into_rtranclp)
  next
    case False
    with Suc.prems mt_next [of w i tm le k] show ?thesis by auto
  qed
qed

theorem main_iteration_steps:
  assumes "main_iteration fuel le w = Some (Iterated True w')"
  shows "(main_trans False)\<^sup>*\<^sup>* (M_head, w) (M_head, w')"
proof -
  obtain R W m where fd: "fill_fds True True w = Some (R, W, m)"
    using assms by (auto simp: main_iteration_def split: Option.bind_splits)
  let ?le = "le_selected le R W"
  from assms fd obtain w1 where
    sel: "\<not> (le_sel_rc ?le < 0 \<and> is_error_fatal (le_sel_errno ?le) False)"
    and a: "(if le_sel_rc ?le \<noteq> 0 then accept_loop ?le 0 (px_listeners w) w else Some w) = Some w1"
    and l: "chan_loop fuel ?le (length (px_listeners w1)) 0 w1 = Some (True, w')"
    by (auto simp: main_iteration_def Let_def simp del: if_split split: if_split_asm Option.bind_splits)
  have rc: "le_sel_rc ?le = le_sel_rc le" "le_sel_errno ?le = le_sel_errno le" by (simp_all add: le_selected_def)
  have ls: "px_listeners w1 = px_listeners w"
    using a lst.accept_loop_holds [OF _ refl, of ?le 0 "px_listeners w" w w1] by (cases "le_sel_rc ?le = 0") simp_all
  have "(main_trans False)\<^sup>*\<^sup>* (if le_sel_rc le \<noteq> 0 then M_accept ?le 0 else M_chan ?le (length (px_listeners w)) 0, w)
      (M_chan ?le (length (px_listeners w)) 0, w1)"
    using a accept_steps [of ?le 0 w w1 False] rc(1) by (cases "le_sel_rc le = 0") auto
  also have "(main_trans False)\<^sup>*\<^sup>* \<dots> (M_head, w')" using chan_steps [OF l] ls by simp
  finally have rest: "(main_trans False)\<^sup>*\<^sup>*
      (if le_sel_rc le \<noteq> 0 then M_accept ?le 0 else M_chan ?le (length (px_listeners w)) 0, w) (M_head, w')" .
  have test: "main_trans False (M_head, w) (M_fill, w)" by (rule mt_test) simp
  have select: "main_trans False (M_select R W, w)
      (if le_sel_rc le \<noteq> 0 then M_accept ?le 0 else M_chan ?le (length (px_listeners w)) 0, w)"
    by (rule mt_select) (use sel rc in simp_all)
  show ?thesis
    by (rule converse_rtranclp_into_rtranclp [OF test converse_rtranclp_into_rtranclp [OF mt_fill [OF fd]
          converse_rtranclp_into_rtranclp [OF select rest]]])
qed

lemma check_runs:
  "(event_trans R tm)\<^sup>*\<^sup>* (E_check now j pc, w, ck)
     (let (pc', ck') = ((\<lambda>(pc, ck). check_step os R pc ck) ^^ n) (pc, ck) in (E_check now j pc', w, ck'))"
proof (induction n)
  case (Suc n)
  obtain pc1 ck1 where p1: "((\<lambda>(pc, ck). check_step os R pc ck) ^^ n) (pc, ck) = (pc1, ck1)" by fastforce
  obtain pc2 ck2 where p2: "check_step os R pc1 ck1 = (pc2, ck2)" by fastforce
  from Suc p1 et_check [OF p2, where terminated = tm and now = now and j = j and w = w] p2 show ?case by (simp add: rtranclp.rtrancl_into_rtrancl)
qed simp

lemma probe_runs:
  assumes "nrdpx_check_server os R host port ck = (ret, ck')"
  shows "(event_trans R tm)\<^sup>*\<^sup>* (E_check now j (C_start host port), w, ck) (E_check now j (C_done ret), w, ck')"
  using check_runs [where n = 7 and pc = "C_start host port" and os = os and R = R and tm = tm and now = now and j = j and w = w and ck = ck] assms unfolding check_steps_server by simp

lemma set_server_set [simp]: "set_server j s (set_server j s' w) = set_server j s w"
  by (simp add: set_server_def)

lemma set_server_fields [simp]: "length (px_servers (set_server j s w)) = length (px_servers w)"
  "px_info_period (set_server j s w) = px_info_period w" "px_status_period (set_server j s w) = px_status_period w"
  by (simp_all add: set_server_def)

lemma set_server_nth [simp]: "j < length (px_servers w) \<Longrightarrow> px_servers (set_server j s w) ! j = s"
  by (simp add: set_server_def)

lemma timer_runs:
  assumes s: "get (px_servers w) j = Some s"
    and t: "tracker_timer os R tm clk k (px_status_period w) (px_info_period w) s ck = (s', ck', k', rq)"
  shows "(event_trans R tm)\<^sup>*\<^sup>* (E_server None (clk k) j, w, ck) (E_server None (clk k') (j + 1), set_server j s' w, ck')"
proof -
  obtain s1 ck1 k1 where st: "tracker_status os R tm clk k (px_status_period w) s ck = (s1, ck1, k1)" by (metis prod_cases3)
  have j: "j < length (px_servers w)" and same: "set_server j s w = w" using s by (auto simp: set_server_def)
  have one: "(event_trans R tm)\<^sup>*\<^sup>* (E_server None (clk k) j, w, ck) (E_request (clk k1) j, set_server j s1 w, ck1)"
  proof (cases "status_due (clk k) s")
    case False
    with st have "s1 = s" "ck1 = ck" "k1 = k" by (auto simp: tracker_status_def status_due_def split: if_splits)
    with et_not_due [OF s False, of R tm ck] same show ?thesis by simp
  next
    case due: True
    have stat: "event_trans R tm (E_stat (clk k) j, set_server j x w, y)
        (E_request (clk (k + 1)) j, set_server j (x\<lparr>sv_stat_time := clk (k + 1) + px_status_period w\<rparr>) w, y)" for x y
      using et_stat [of "set_server j x w" j x R tm "clk k" y "clk (k + 1)"] j by simp
    show ?thesis
    proof (cases "probe_due tm s")
      case False
      with st due have "s1 = s\<lparr>sv_stat_time := clk (k + 1) + px_status_period w\<rparr>" "ck1 = ck" "k1 = k + 1"
        by (auto simp: tracker_status_def status_due_def probe_due_def)
      with et_no_probe [OF s due False, of R ck] stat [of s ck] same show ?thesis by simp
    next
      case True
      obtain ret ck2 where c: "nrdpx_check_server os R (sv_host s) (sv_port s) ck = (ret, ck2)" by fastforce
      with st due True have r: "s1 = (probed ret s)\<lparr>sv_stat_time := clk (k + 1) + px_status_period w\<rparr>" "ck1 = ck2" "k1 = k + 1"
        by (auto simp: tracker_status_def status_due_def probe_due_def probed_def)
      note et_probe [OF s due True, of R ck]
      moreover note probe_runs [OF c, of tm "clk k" j w]
      moreover note et_checked [OF s, of R tm "clk k" ret ck2]
      moreover note stat [of "probed ret s" ck2]
      ultimately show ?thesis unfolding r by (meson converse_rtranclp_into_rtranclp rtranclp.rtrancl_into_rtrancl rtranclp_trans)
    qed
  qed
  have g: "get (px_servers (set_server j s1 w)) j = Some s1" using j by simp
  have two: "event_trans R tm (E_request (clk k1) j, set_server j s1 w, ck1) (E_server None (clk k') (j + 1), set_server j s' w, ck')"
  proof (cases "info_due (clk k1) s1")
    case True
    with t st have "s' = s1\<lparr>sv_first_check := False, sv_info_time := clk (k1 + 1) + px_info_period w\<rparr>" "ck' = ck1" "k' = k1 + 1"
      by (auto simp: tracker_timer_def info_due_def Let_def)
    with et_request [OF g True, of R tm ck1 "clk (k1 + 1)"] show ?thesis by simp
  next
    case False
    with t st have "s' = s1\<lparr>sv_first_check := False\<rparr>" "ck' = ck1" "k' = k1"
      by (auto simp: tracker_timer_def info_due_def Let_def split: if_splits)
    with et_no_request [OF g False, of R tm ck1] show ?thesis by simp
  qed
  from one two show ?thesis by (rule rtranclp.rtrancl_into_rtrancl)
qed

lemma server_runs:
  assumes s: "get (px_servers w) j = Some s"
    and one: "(case item of Some it \<Rightarrow> (if is_same_host R (sv_host s) (it_host it)
              then (tracker_item (clk k) (px_info_period w) it s, ck, k, []) else (s, ck, k, []))
         | None \<Rightarrow> tracker_timer os R tm clk k (px_status_period w) (px_info_period w) s ck) = (s', ck', k', rq)"
  shows "(event_trans R tm)\<^sup>*\<^sup>* (E_server item (clk k) j, w, ck) (E_server item (clk k') (j + 1), set_server j s' w, ck')"
proof (cases item)
  case None
  with timer_runs [OF s] one show ?thesis by simp
next
  case (Some it)
  have "set_server j s w = w" using s by (simp add: set_server_def)
  with one Some et_item [OF s, of R tm it "clk k" ck] show ?thesis by (auto split: if_splits)
qed

lemma servers_run:
  "tracker_loop os R tm clk k px item ss ck = (ss', ck', rq) \<Longrightarrow> drop j (px_servers w) = ss \<Longrightarrow> j \<le> length (px_servers w) \<Longrightarrow>
     px_info_period px = px_info_period w \<Longrightarrow> px_status_period px = px_status_period w \<Longrightarrow>
     (event_trans R tm)\<^sup>*\<^sup>* (E_server item (clk k) j, w, ck) (E_idle, w\<lparr>px_servers := take j (px_servers w) @ ss'\<rparr>, ck')"
proof (induction ss arbitrary: ss' ck ck' rq k j w)
  case Nil
  then have "length (px_servers w) \<le> j" by simp
  from et_end [OF this, of R tm item "clk k" ck] Nil show ?case by simp
next
  case (Cons s ss)
  from Cons.prems(1) obtain s1 ck1 k1 rq1 ss1 rq2 where
    one: "(case item of Some it \<Rightarrow> (if is_same_host R (sv_host s) (it_host it)
              then (tracker_item (clk k) (px_info_period px) it s, ck, k, []) else (s, ck, k, []))
         | None \<Rightarrow> tracker_timer os R tm clk k (px_status_period px) (px_info_period px) s ck) = (s1, ck1, k1, rq1)"
    and rest: "tracker_loop os R tm clk k1 px item ss ck1 = (ss1, ck', rq2)" "ss' = s1 # ss1"
    by (auto simp: Let_def split: prod.splits)
  have j: "j < length (px_servers w)" using Cons.prems(2) by (cases "j < length (px_servers w)") auto
  then have d: "px_servers w ! j = s" "drop (Suc j) (px_servers w) = ss"
    using Cons.prems(2) by (simp_all add: Cons_nth_drop_Suc [symmetric])
  let ?w = "set_server j s1 w"
  have "(event_trans R tm)\<^sup>*\<^sup>* (E_server item (clk k) j, w, ck) (E_server item (clk k1) (j + 1), ?w, ck1)"
    using j d by (intro server_runs [OF _ one [unfolded Cons.prems(4,5)]]) simp
  moreover have "(event_trans R tm)\<^sup>*\<^sup>* (E_server item (clk k1) (j + 1), ?w, ck1)
      (E_idle, ?w\<lparr>px_servers := take (j + 1) (px_servers ?w) @ ss1\<rparr>, ck')"
    by (rule Cons.IH [OF rest(1)]) (use j d Cons.prems(4,5) in \<open>simp_all add: set_server_def\<close>)
  moreover have "take (j + 1) (px_servers ?w) @ ss1 = take j (px_servers w) @ ss'"
    using j rest(2) by (simp add: set_server_def take_Suc_conv_app_nth)
  ultimately show ?case by (simp add: set_server_def)
qed

theorem info_callback_steps:
  assumes "nrdpx_info_callback os R tm clk ev w ck = (w', ck', rq)"
  shows "(event_trans R tm)\<^sup>*\<^sup>* (E_idle, w, ck) (E_idle, w', ck')"
proof (cases "event_logged ev")
  case True
  with assms show ?thesis by (simp add: nrdpx_info_callback_def)
next
  case False
  with assms obtain ss where "tracker_loop os R tm clk 0 w (valid_item ev) (px_servers w) ck = (ss, ck', rq)"
    "w' = w\<lparr>px_servers := ss\<rparr>" by (auto simp: nrdpx_info_callback_def split: prod.splits)
  with servers_run [of os R tm clk 0 w "valid_item ev" "px_servers w" ck ss ck' rq 0 w] have
    "(event_trans R tm)\<^sup>*\<^sup>* (E_server (valid_item ev) (clk 0) 0, w, ck) (E_idle, w', ck')" by simp
  with et_event [OF False, of R tm w ck "clk 0"] show ?thesis by (rule converse_rtranclp_into_rtranclp)
qed

end
