(* ===== verification/Program.thy ===== *)
theory Program
  imports Interleave
begin

text \<open>
  The program as a whole: \<open>main\<close> of \<open>src/src/nrdpx_server.cpp\<close> up to the main loop, and the
  transitions of the running program, in which the main thread, the callback on the browser's
  threads, these threads themselves and the signals take turns, step by step.

  The main thread is at some place of \<open>nrdpx_main_proc\<close> (\<open>P_main\<close>), in the loop of
  \<open>nrdpx_fail_proc\<close> (\<open>P_fail\<close>) or gone.  A signal may come between any two steps; the mutex of
  the callbacks lets one callback run at a time, whose place is \<open>pg_event\<close>.
\<close>

subsection \<open>Start\<close>

datatype prog_pc = P_main main_pc | P_fail | P_end int

fun pc_running :: "prog_pc \<Rightarrow> bool" where
  "pc_running (P_end err) = False"
| "pc_running pc = True"

record program_t =
  pg_glob :: process_t
  pg_files :: files
  pg_proxy :: "nrdpx_proxy_t option"
  pg_check :: check_state
  pg_control :: control_t
  pg_client :: nrdnb_client_t
  pg_browser :: nb_pc
  pg_event :: event_pc

text \<open>The arguments of the program and the answers of the system while it starts.\<close>

record start_env =
  se_args :: "string option list"
  se_pid :: int
  se_cwd :: "string option"
  se_realpath :: "string \<Rightarrow> string option"
  se_alive :: "int \<Rightarrow> bool"
  se_fork :: int
  se_child :: int
  se_setsid :: bool
  se_writable :: "string \<Rightarrow> bool"
  se_log_opened :: bool
  se_files :: files
  se_res :: resolver
  se_os :: "nat \<Rightarrow> sock_os"
  se_chktime :: int
  se_timer :: bool
  se_tracker :: bool

definition program_init :: "start_env \<Rightarrow> program_t" where
  "program_init e = \<lparr>pg_glob = process_init (se_pid e), pg_files = se_files e, pg_proxy = None,
     pg_check = \<lparr>ck_socket = NRD_NOSOCK, ck_fds = {}\<rparr>, pg_control = new_control, pg_client = new_client,
     pg_browser = NB_end, pg_event = E_idle\<rparr>"

text \<open>The start of the control timer and of the tracker.\<close>

definition start_browser :: "start_env \<Rightarrow> nrdpx_proxy_t \<Rightarrow> program_t \<Rightarrow> program_t" where
  "start_browser e w p =
     (let p = p\<lparr>pg_client := (pg_client p)\<lparr>m_cbcs := snd (register_callback (Some 0) 0 (m_cbcs (pg_client p)))\<rparr>,
                pg_control := snd (start_control_timer (se_timer e) 1 (pg_control p))\<rparr>
      in if px_info_enabled w
         then (let (ok, st, evs) = start_info_tracker (se_tracker e) [] (word_of_int (px_info_port w))
                     (set_refresh_time 0 (set_reconnect_time 300 (pg_client p)))
               in p\<lparr>pg_client := st, pg_browser := (if ok then NB_restart else pg_browser p)\<rparr>)
         else p)"

definition nrdpx_main :: "start_env \<Rightarrow> prog_pc \<times> program_t" where
  "nrdpx_main e =
     (let p = program_init e in
      case parse_args (se_args e) (pg_glob p) of
        None \<Rightarrow> (P_end 0, p)
      | Some g \<Rightarrow>
        let g = normalize_paths (se_cwd e) (se_realpath e) g in
        case nrdpx_create_daemon (se_alive e) (se_fork e) (se_child e) (se_setsid e) (se_writable e) g (pg_files p) of
          Exit_parent \<Rightarrow> (P_end 0, p)
        | Exit_failed \<Rightarrow> (P_end 1, p)
        | Go_on g fs \<Rightarrow>
          let g = nrdpx_log_init (se_log_opened e) g;
              (ok, w) = nrdpx_load_config (se_res e) fs (g_cfg_path g) (new_proxy (se_chktime e));
              p = p\<lparr>pg_glob := g, pg_files := fs, pg_proxy := Some w\<rparr>;
              failed = (P_fail, p\<lparr>pg_glob := nrdpx_fail_proc g\<rparr>)
          in if \<not> ok then failed
             else let (ls, fds) = open_listeners (se_os e) (se_res e) 0 (px_listeners w) (px_fds w);
                      w = w\<lparr>px_listeners := ls, px_fds := fds\<rparr>
                  in if ls = [] then (P_fail, p\<lparr>pg_proxy := Some w, pg_glob := nrdpx_fail_proc g\<rparr>)
                     else (P_main M_head, start_browser e w (p\<lparr>pg_proxy := Some w\<rparr>)))"

subsection \<open>Transitions\<close>

text \<open>The end of the program, \<open>nrdpx_exit_proc\<close>.\<close>

definition program_exit :: "nat \<Rightarrow> (nat \<Rightarrow> bool) \<Rightarrow> (nat \<Rightarrow> bool) \<Rightarrow> int \<Rightarrow> int \<Rightarrow> program_t \<Rightarrow> (prog_pc \<times> program_t) option" where
  "program_exit fuel run1 run2 err t p =
     map_option (\<lambda>(err, g, fs, px, ct, cl).
         (P_end err, p\<lparr>pg_glob := g, pg_files := fs, pg_proxy := px, pg_control := ct, pg_client := cl\<rparr>))
       (nrdpx_exit_proc fuel run1 run2 err t (pg_glob p) (pg_files p) (pg_proxy p) (pg_control p) (pg_client p))"

inductive prog_trans :: "prog_pc \<times> program_t \<Rightarrow> prog_pc \<times> program_t \<Rightarrow> bool" where
  pt_main: "pg_proxy p = Some w \<Longrightarrow> main_trans (g_terminated (pg_glob p)) (m, w) (m', w') \<Longrightarrow>
     prog_trans (P_main m, p) (P_main m', p\<lparr>pg_proxy := Some w'\<rparr>)"
| pt_selector: "\<not> g_terminated (pg_glob p) \<Longrightarrow> le_sel_rc (le :: loop_env) < 0 \<Longrightarrow> is_error_fatal (le_sel_errno le) False \<Longrightarrow>
     prog_trans (P_main (M_select R W), p) (P_fail, p\<lparr>pg_glob := nrdpx_fail_proc (pg_glob p)\<rparr>)"
| pt_exit: "g_terminated (pg_glob p) \<Longrightarrow> m = M_head \<or> m = M_select R W \<Longrightarrow>
     program_exit fuel run1 run2 0 t p = Some s \<Longrightarrow> prog_trans (P_main m, p) s"
| pt_fail_exit: "g_terminated (pg_glob p) \<Longrightarrow> program_exit fuel run1 run2 1 t p = Some s \<Longrightarrow> prog_trans (P_fail, p) s"
| pt_signal: "pc_running pc \<Longrightarrow>
     nrdpx_signal_handler os R sg (pg_glob p) (pg_files p) (pg_proxy p) (pg_check p) = Handled g px ck \<Longrightarrow>
     prog_trans (pc, p) (pc, p\<lparr>pg_glob := g, pg_proxy := px, pg_check := ck\<rparr>)"
| pt_killed: "pc_running pc \<Longrightarrow>
     nrdpx_signal_handler os R sg (pg_glob p) (pg_files p) (pg_proxy p) (pg_check p) = Exited g fs \<Longrightarrow>
     prog_trans (pc, p) (P_end 0, p\<lparr>pg_glob := g, pg_files := fs\<rparr>)"
| pt_event: "pc_running pc \<Longrightarrow> m_cbcs (pg_client p) \<noteq> [] \<Longrightarrow> pg_proxy p = Some w \<Longrightarrow>
     event_trans R (g_terminated (pg_glob p)) (pg_event p, w, pg_check p) (ev, w', ck) \<Longrightarrow>
     prog_trans (pc, p) (pc, p\<lparr>pg_proxy := Some w', pg_check := ck, pg_event := ev\<rparr>)"
| pt_browser: "pc_running pc \<Longrightarrow>
     nb_trans os R (pg_browser p, pg_control p, pg_client p) (b, ct, cl) \<Longrightarrow>
     prog_trans (pc, p) (pc, p\<lparr>pg_browser := b, pg_control := ct, pg_client := cl\<rparr>)"

inductive_cases prog_transE: "prog_trans s s'"

inductive prog_reach :: "start_env \<Rightarrow> prog_pc \<times> program_t \<Rightarrow> bool" for e where
  pr_start: "prog_reach e (nrdpx_main e)"
| pr_step: "prog_reach e s \<Longrightarrow> prog_trans s s' \<Longrightarrow> prog_reach e s'"

subsection \<open>The invariant\<close>

definition prog_ok :: "prog_pc \<times> program_t \<Rightarrow> bool" where
  "prog_ok s \<longleftrightarrow> svrs_ok (m_svrs (pg_client (snd s)))
     \<and> (case pg_proxy (snd s) of None \<Rightarrow> \<not> pc_running (fst s) | Some w \<Rightarrow> world_ok w)"

lemma world_ok_listeners [simp]: "world_ok (w\<lparr>px_listeners := ls\<rparr>) = world_ok w"
  by (simp add: world_ok_def)

lemma start_browser_parts [simp]:
  "pg_proxy (start_browser e w p) = pg_proxy p" "pg_glob (start_browser e w p) = pg_glob p"
  "pg_files (start_browser e w p) = pg_files p" "pg_check (start_browser e w p) = pg_check p"
  "pg_event (start_browser e w p) = pg_event p"
  by (simp_all add: start_browser_def Let_def split: prod.splits)

lemma start_browser_svrs: "m_svrs (pg_client (start_browser e w p)) = m_svrs (pg_client p)"
  by (auto simp: start_browser_def start_info_tracker_def set_refresh_time_def set_reconnect_time_def Let_def
      split: prod.splits if_splits)

text \<open>The three outcomes of the start.\<close>

lemma main_cases:
  obtains (ended) n where "nrdpx_main e = (P_end n, program_init e)"
  | (failed) g fs ok w0 fds w where
      "nrdpx_main e = (P_fail, (program_init e)\<lparr>pg_glob := nrdpx_fail_proc g, pg_files := fs, pg_proxy := Some w\<rparr>)"
      "world_ok w" "px_channels w = []" "nrdpx_load_config (se_res e) fs (g_cfg_path g) (new_proxy (se_chktime e)) = (ok, w0)"
      "if ok then open_listeners (se_os e) (se_res e) 0 (px_listeners w0) (px_fds w0) = ([], fds)
           \<and> w = w0\<lparr>px_listeners := [], px_fds := fds\<rparr> else w = w0"
  | (started) g fs w w' ls fds where "nrdpx_load_config (se_res e) fs (g_cfg_path g) (new_proxy (se_chktime e)) = (True, w)"
      "open_listeners (se_os e) (se_res e) 0 (px_listeners w) (px_fds w) = (ls, fds)"
      "w' = w\<lparr>px_listeners := ls, px_fds := fds\<rparr>" "ls \<noteq> []"
      "nrdpx_main e = (P_main M_head, start_browser e w' ((program_init e)\<lparr>pg_glob := g, pg_files := fs, pg_proxy := Some w'\<rparr>))"
proof (cases "parse_args (se_args e) (pg_glob (program_init e))")
  case None
  then show ?thesis by (intro ended) (simp add: nrdpx_main_def)
next
  case (Some g0)
  define g1 where "g1 = normalize_paths (se_cwd e) (se_realpath e) g0"
  show ?thesis
  proof (cases "nrdpx_create_daemon (se_alive e) (se_fork e) (se_child e) (se_setsid e) (se_writable e) g1
      (pg_files (program_init e))")
    case (Go_on g2 fs)
    define g where "g = nrdpx_log_init (se_log_opened e) g2"
    obtain ok w where load: "nrdpx_load_config (se_res e) fs (g_cfg_path g) (new_proxy (se_chktime e)) = (ok, w)"
      by fastforce
    note spec = load_config_spec [OF load]
    obtain ls fds where ls: "open_listeners (se_os e) (se_res e) 0 (px_listeners w) (px_fds w) = (ls, fds)" by fastforce
    note main = nrdpx_main_def [of e, unfolded Let_def] Some g1_def [symmetric] Go_on g_def [symmetric] load ls
    have w: "world_ok w" "px_channels w = []" using spec tables_ok_world [of w] by (simp_all add: tables_ok_def)
    show ?thesis
    proof (cases "ok \<and> ls \<noteq> []")
      case True
      with main load ls show ?thesis by (intro started [where fs = fs and g = g and w = w and ls = ls and fds = fds]) simp_all
    next
      case False
      then show ?thesis
      proof (cases ok)
        case True
        with False main w show ?thesis
          by (intro failed [where g = g and fs = fs and ok = True and fds = fds and w = "w\<lparr>px_listeners := ls, px_fds := fds\<rparr>"])
            (simp_all add: load)
      next
        case False
        with main w show ?thesis by (intro failed [where g = g and fs = fs and ok = False and w = w]) (simp_all add: load)
      qed
    qed
  qed (use Some in \<open>auto simp: nrdpx_main_def g1_def intro: ended\<close>)
qed

lemma main_ok: "prog_ok (nrdpx_main e)"
proof (cases rule: main_cases [of e])
  case (started g fs w w' ls fds)
  then have "world_ok w" using load_config_spec [OF started(1)] tables_ok_world by blast
  with started show ?thesis
    by (simp add: prog_ok_def start_browser_svrs program_init_def new_client_def)
qed (simp_all add: prog_ok_def program_init_def new_client_def)

lemma program_exit_ok:
  assumes "program_exit fuel run1 run2 err t p = Some s"
  shows "prog_ok s \<and> pg_proxy (snd s) = None \<and> fst s = P_end err"
  using assms
  by (auto simp: program_exit_def nrdpx_exit_proc_def stop_info_tracker_def prog_ok_def
      split: option.splits Option.bind_splits prod.splits)

lemma term_proc_ok:
  assumes "nrdpx_signal_handler os R sg g fs (Some w) ck = Handled g' px' ck'"
  shows "\<exists>fds ls. px' = Some w \<or> px' = Some (w\<lparr>px_fds := fds, px_listeners := ls\<rparr>)"
  using assms by (cases sg) (auto simp: nrdpx_signal_handler_def nrdpx_term_proc_def Let_def split: if_splits prod.splits)

lemma prog_trans_ok:
  assumes "prog_trans s s'" "prog_ok s"
  shows "prog_ok s'"
  using assms
proof (cases rule: prog_trans.cases)
  case (pt_signal pc os R sg p g px ck)
  then obtain w where w: "pg_proxy p = Some w" "world_ok w" using assms(2) by (auto simp: prog_ok_def split: option.splits)
  with term_proc_ok [of os R sg "pg_glob p" "pg_files p" w "pg_check p"] pt_signal assms(2) show ?thesis
    by (auto simp: prog_ok_def)
next
  case (pt_browser pc os R p b ct cl)
  with assms(2) nb_trans_ok [OF pt_browser(4)] show ?thesis by (simp add: prog_ok_def split: option.splits)
qed (auto simp: prog_ok_def dest: main_trans_ok event_trans_ok program_exit_ok split: option.splits)

lemma prog_reach_ok: "prog_reach e s \<Longrightarrow> prog_ok s"
  by (induction rule: prog_reach.induct) (auto intro: main_ok prog_trans_ok)

subsection \<open>Undisturbed turns\<close>

text \<open>An iteration of the main loop and a callback that nothing interrupts are runs of the program.\<close>

lemma prog_reach_runs: "prog_trans\<^sup>*\<^sup>* s s' \<Longrightarrow> prog_reach e s \<Longrightarrow> prog_reach e s'"
  by (induction rule: rtranclp_induct) (auto intro: pr_step)

lemma main_runs:
  assumes "(main_trans False)\<^sup>*\<^sup>* (m, w) s" "pg_proxy p = Some w" "\<not> g_terminated (pg_glob p)"
  shows "prog_trans\<^sup>*\<^sup>* (P_main m, p) (P_main (fst s), p\<lparr>pg_proxy := Some (snd s)\<rparr>)"
  using assms(1)
proof (induction rule: rtranclp_induct)
  case base
  have "p\<lparr>pg_proxy := Some w\<rparr> = p" using assms(2) by (cases p) simp
  then show ?case by simp
next
  case (step s s')
  have "prog_trans (P_main (fst s), p\<lparr>pg_proxy := Some (snd s)\<rparr>)
      (P_main (fst s'), p\<lparr>pg_proxy := Some (snd s), pg_proxy := Some (snd s')\<rparr>)"
    by (rule pt_main [where w = "snd s"]) (use step.hyps(2) assms(3) in \<open>simp_all add: prod.collapse\<close>)
  with step.IH show ?case by (simp add: rtranclp.rtrancl_into_rtrancl)
qed

lemma event_runs:
  assumes "(event_trans R (g_terminated (pg_glob p)))\<^sup>*\<^sup>* (ev, w, ck) s" "pc_running pc"
    "m_cbcs (pg_client p) \<noteq> []" "pg_proxy p = Some w" "pg_check p = ck" "pg_event p = ev"
  shows "prog_trans\<^sup>*\<^sup>* (pc, p) (pc, p\<lparr>pg_proxy := Some (fst (snd s)), pg_check := snd (snd s), pg_event := fst s\<rparr>)"
  using assms(1)
proof (induction rule: rtranclp_induct)
  case base
  have "p\<lparr>pg_proxy := Some w, pg_check := ck, pg_event := ev\<rparr> = p" using assms(4-6) by (cases p) simp
  then show ?case by simp
next
  case (step s s')
  let ?p = "p\<lparr>pg_proxy := Some (fst (snd s)), pg_check := snd (snd s), pg_event := fst s\<rparr>"
  have "prog_trans (pc, ?p) (pc, ?p\<lparr>pg_proxy := Some (fst (snd s')), pg_check := snd (snd s'), pg_event := fst s'\<rparr>)"
    by (rule pt_event [where w = "fst (snd s)" and R = R]) (use step.hyps(2) assms(2,3) in simp_all)
  with step.IH show ?case by (simp add: rtranclp.rtrancl_into_rtrancl)
qed

subsection \<open>Invariants of the proxy over a run\<close>

text \<open>An invariant of the steps is one of the whole run when the closing of the listeners keeps it too.\<close>

locale run_invariant = step_invariant +
  assumes closed: "holds w \<Longrightarrow>
      holds (w\<lparr>px_fds := fds, px_listeners := map (\<lambda>l. l\<lparr>ls_sock := NRD_NOSOCK\<rparr>) (px_listeners w)\<rparr>)"
begin

lemma signal_holds:
  assumes "nrdpx_signal_handler os R sg g fs px ck = Handled g' px' ck'" "\<forall>w. px = Some w \<longrightarrow> holds w"
  shows "\<forall>w. px' = Some w \<longrightarrow> holds w"
  using assms by (cases sg) (auto simp: nrdpx_signal_handler_def nrdpx_term_proc_def Let_def closed split: if_splits prod.splits)

lemma trans_holds:
  assumes "prog_trans s s'" "\<forall>w. pg_proxy (snd s) = Some w \<longrightarrow> holds w"
  shows "\<forall>w. pg_proxy (snd s') = Some w \<longrightarrow> holds w"
  using assms
proof (cases rule: prog_trans.cases)
  case (pt_signal pc os R sg p g px ck)
  with signal_holds [OF pt_signal(4)] assms(2) show ?thesis by simp
qed (auto dest: main_trans_holds event_trans_holds program_exit_ok)

lemma reach_holds:
  assumes "prog_reach e s" "\<forall>w. pg_proxy (snd (nrdpx_main e)) = Some w \<longrightarrow> holds w"
  shows "\<forall>w. pg_proxy (snd s) = Some w \<longrightarrow> holds w"
  using assms(1)
proof (induction rule: prog_reach.induct)
  case pr_start
  show ?case by (rule assms(2))
next
  case (pr_step s s')
  with trans_holds [OF pr_step.hyps(2)] show ?case by blast
qed

end

interpretation cfg_run: run_invariant "\<lambda>w. config_of w = C" for C
  by unfold_locales (auto simp: config_of_def comp_def)

interpretation lim_run: run_invariant "limits_ok Mc Ms" for Mc Ms
  by unfold_locales (auto simp: limits_ok_def)

text \<open>The limits that the configuration gives.\<close>

definition client_limits :: "nrdpx_proxy_t \<Rightarrow> int list" where
  "client_limits w = map cl_max_slots (px_clients w)"

definition server_limits :: "nrdpx_proxy_t \<Rightarrow> int list" where
  "server_limits w = map sv_max_slots (px_servers w)"

lemma started_proxy:
  assumes "nrdpx_main e = (P_main M_head, p)"
  shows "\<exists>w. pg_proxy p = Some w \<and> tables_ok w \<and> options_ok w \<and> px_listeners w \<noteq> [] \<and> px_balancers w \<noteq> []"
proof (cases rule: main_cases [of e])
  case (started g fs w w' ls fds)
  with load_config_spec [OF started(1)] assms show ?thesis
    by (auto simp: tables_ok_def options_ok_def)
qed (use assms in auto)

lemma started_limits:
  assumes "tables_ok w" "ca_mode (px_cache w) = CACHE_NONE"
  shows "limits_ok (client_limits w) (server_limits w) w"
  using assms
  by (auto simp: tables_ok_def limits_ok_def client_limits_def server_limits_def client_within_def server_within_def
      client_loaded_def server_loaded_def list_all2_conv_all_nth intro: less_imp_le)

text \<open>In terms of channels: the slots are the numbers of channels.\<close>

lemma limits_channels:
  assumes "world_ok w" "limits_ok Mc Ms w"
  shows "i < length Mc \<Longrightarrow> tally (\<lambda>c. chan_cl (px_routes w) c = Some i) (px_channels w) \<le> Mc ! i"
    "i < length Ms \<Longrightarrow> tally (\<lambda>c. chan_sv (px_routes w) c = Some i) (px_channels w) \<le> Ms ! i"
  using assms accountsD [OF world_okD(2) [OF assms(1)]]
  by (auto simp: limits_ok_def list_all2_conv_all_nth client_within_def server_within_def)

subsection \<open>The end of the program\<close>

text \<open>Both ways to the end: \<open>nrdpx_exit_proc\<close> returns when the two threads of the browser end at
  some time, and the alarm ends a program that was asked to end.\<close>

lemma destroy_ended: "\<not> running n \<Longrightarrow> \<exists>r. thread_destroy (n + 1) running th = Some r"
  using wait_for_ended [of running n 60000 "th\<lparr>th_terminated := True\<rparr>"]
  by (auto simp: thread_destroy_def terminate_and_wait_def)

lemma release_pid_removes:
  "nrdpx_release_pid g fs = (g', fs') \<Longrightarrow> g_detached g \<Longrightarrow> g_pid_path g \<noteq> [] \<Longrightarrow> fs' (g_pid_path g) = None"
  by (auto simp: nrdpx_release_pid_def)

lemma exit_returns:
  assumes "case_option True world_ok (pg_proxy p)" "\<not> run1 n" "\<not> run2 n"
  shows "\<exists>p'. program_exit (n + 1) run1 run2 err t p = Some (P_end err, p')
    \<and> (g_detached (pg_glob p) \<and> g_pid_path (pg_glob p) \<noteq> [] \<longrightarrow> pg_files p' (g_pid_path (pg_glob p)) = None)"
proof -
  obtain ok th where th: "thread_destroy (Suc n) run1 (ct_thread (pg_control p)) = Some (ok, th)"
    using destroy_ended [of run1 n "ct_thread (pg_control p)"] assms(2) by auto
  obtain cl where cl: "stop_info_tracker (Suc n) run2 (pg_client p) = Some cl"
    using stop_returns [of run2 n "pg_client p"] assms(3) by auto
  have px: "(case pg_proxy p of None \<Rightarrow> Some None | Some w \<Rightarrow> map_option (\<lambda>w. None) (proxy_destroy t w)) = Some None"
    using assms(1) proxy_destroy_ok [of _ t] by (cases "pg_proxy p") (auto dest!: meta_spec)
  obtain g fs where g: "nrdpx_release_pid ((pg_glob p)\<lparr>g_log_out := g_log_out (pg_glob p) OR NRDPX_LOG_OUT_SLOG\<rparr>) (pg_files p) = (g, fs)"
    by fastforce
  from release_pid_removes [OF this] show ?thesis
    by (simp add: program_exit_def nrdpx_exit_proc_def stop_control_timer_def th cl px g)
qed

lemma term_then_alarm:
  assumes "sg \<noteq> SIGALRM"
  shows "\<exists>g px' ck' g' fs'. nrdpx_signal_handler os R sg g0 fs px ck = Handled g px' ck'
    \<and> g_terminated g \<and> g_detached g = g_detached g0 \<and> g_pid_path g = g_pid_path g0
    \<and> nrdpx_signal_handler os R SIGALRM g fs px' ck' = Exited g' fs'
    \<and> (g_detached g0 \<and> g_pid_path g0 \<noteq> [] \<longrightarrow> fs' (g_pid_path g0) = None)"
  using assms by (cases sg) (auto simp: nrdpx_signal_handler_def nrdpx_term_proc_def nrdpx_release_pid_def split: prod.splits)

end
