(* ===== verification/Sessions.thy ===== *)
theory Sessions
  imports Program
begin

text \<open>
  What a channel relays over a run of the program in which the main thread, the callback, the
  browser and the signals take turns.  The bytes that the calls for a channel delivered and took
  are read off the states before the passes over it; they are shown to be the same sequence, but
  for what still waits in the buffers.
\<close>

text \<open>The bytes of a pass over the channel with the address \<open>a\<close>, when the step from \<open>pc\<close> to \<open>pc'\<close> is
  one: received from the source, sent to the target, received from the target, sent to the source.
  A step that leaves the main thread at the channel is one of another thread.\<close>

definition exchange ::
  "nat \<Rightarrow> prog_pc \<Rightarrow> nrdpx_proxy_t option \<Rightarrow> prog_pc \<Rightarrow> byte list \<times> byte list \<times> byte list \<times> byte list" where
  "exchange a pc px pc' = (case (pc, px, pc') of
       (P_main (M_chan le k i), Some w, P_main m') \<Rightarrow>
         if m' \<noteq> M_chan le k i \<and> i < length (px_channels w) \<and> ch_addr (px_channels w ! i) = a \<and> le_sel_rc le \<noteq> 0
         then let c = px_channels w ! i; gs = got_source le k c; gt = got_target le k w c
              in (gs, take (sent_to le k (ch_target c)) (buf_bytes (ch_in_source c) @ gs),
                  gt, take (sent_to le k (ch_source c)) (buf_bytes (ch_in_target c) @ gt))
         else ([], [], [], [])
     | _ \<Rightarrow> ([], [], [], []))"

text \<open>The bytes of a run.\<close>

inductive conversation ::
  "nat \<Rightarrow> prog_pc \<times> program_t \<Rightarrow> byte list \<Rightarrow> byte list \<Rightarrow> byte list \<Rightarrow> byte list \<Rightarrow> prog_pc \<times> program_t \<Rightarrow> bool"
  for a s where
  cv_start: "conversation a s [] [] [] [] s"
| cv_step: "conversation a s rs ss rt st (pc, p) \<Longrightarrow> prog_trans (pc, p) (pc', p') \<Longrightarrow>
     exchange a pc (pg_proxy p) pc' = (r1, s1, r2, s2) \<Longrightarrow>
     conversation a s (rs @ r1) (ss @ s1) (rt @ r2) (st @ s2) (pc', p')"

lemma conversation_ok: "conversation a s rs ss rt st s' \<Longrightarrow> prog_ok s \<Longrightarrow> prog_ok s'"
  by (induction rule: conversation.induct) (auto intro: prog_trans_ok)

subsection \<open>One step\<close>

text \<open>A channel after a step of the main thread is new, or was there before and is as it was, or
  as a pass leaves it.\<close>

lemma grown_origin:
  assumes "grown w cs w'" "c' \<in> set (px_channels w')" "ch_addr c' < px_next_chan w"
  shows "c' \<in> set cs"
  using assms by (auto simp: grown_def) (meson leD)

lemma main_trans_origin:
  assumes t: "main_trans tm (m, w) (m', w')" and ok: "world_ok w"
    and c': "c' \<in> set (px_channels w')" "ch_addr c' < px_next_chan w"
  shows "(c' \<in> set (px_channels w) \<and> (\<forall>le k i. m = M_chan le k i \<and> i < length (px_channels w) \<longrightarrow> px_channels w ! i \<noteq> c'))
    \<or> (\<exists>le k i. m = M_chan le k i \<and> i < length (px_channels w) \<and> relayed_at le k w (px_channels w ! i) c')"
  using t
proof (cases rule: main_trans.cases)
  case (mt_accept j le)
  with accept_loop_grown [of le j "[px_listeners w ! j]" w w'] ok grown_origin c' show ?thesis by blast
next
  case (mt_chan i le k i')
  consider "grown w (take i (px_channels w) @ drop (Suc i) (px_channels w)) w'"
    | c1 where "relayed_at le k w (px_channels w ! i) c1" "grown w ((px_channels w)[i := c1]) w'"
    using chan_pass_relayed [OF ok mt_chan(3,4)] by blast
  then show ?thesis
  proof cases
    case 1
    have d: "distinct (px_channels w)" using world_okD(4) [OF ok] by (simp add: distinct_map)
    note in_rest = grown_origin [OF 1 c']
    then have "c' \<in> set (px_channels w)" by (auto dest: in_set_takeD in_set_dropD)
    moreover have "px_channels w ! i \<noteq> c'"
      using d mt_chan(3) in_rest by (auto simp: in_set_conv_nth nth_eq_iff_index_eq)
    ultimately show ?thesis using mt_chan(1) by simp
  next
    case 2
    have d: "distinct (px_channels w)" using world_okD(4) [OF ok] by (simp add: distinct_map)
    from grown_origin [OF 2(2) c'] obtain j where j: "j < length (px_channels w)" "c' = (px_channels w)[i := c1] ! j"
      by (auto simp: in_set_conv_nth)
    show ?thesis
    proof (cases "j = i")
      case True
      with j 2(1) mt_chan(1) show ?thesis by simp
    next
      case False
      with j d mt_chan(1,3) show ?thesis by (simp add: nth_eq_iff_index_eq)
    qed
  qed
qed (use c' in auto)

text \<open>The other steps leave the channels alone.\<close>

lemma prog_trans_origin:
  assumes "prog_trans (pc, p) (pc', p')" "pg_proxy p = Some w" "pg_proxy p' = Some w'"
  shows "(\<exists>m m'. pc = P_main m \<and> pc' = P_main m' \<and> main_trans (g_terminated (pg_glob p)) (m, w) (m', w'))
    \<or> (px_channels w' = px_channels w \<and> px_next_chan w' = px_next_chan w \<and> (\<forall>m. pc' = P_main m \<longrightarrow> pc = pc'))"
  using assms(1)
proof (cases rule: prog_trans.cases)
  case (pt_signal os R sg g px ck)
  with term_proc_ok [of os R sg "pg_glob p" "pg_files p" w "pg_check p"] assms(2,3) show ?thesis by auto
next
  case (pt_event w1 R ev w2 ck)
  with event_trans_server [OF pt_event(6)] assms(2,3) show ?thesis by (auto simp: set_server_def)
qed (use assms(2,3) in \<open>auto dest: program_exit_ok\<close>)

lemma exchange_none: "(\<forall>m. pc' = P_main m \<longrightarrow> pc = pc') \<Longrightarrow> exchange a pc px pc' = ([], [], [], [])"
  by (auto simp: exchange_def split: option.splits prog_pc.splits main_pc.splits)

lemma main_trans_next:
  assumes t: "main_trans tm (m, w) (m', w')" and ok: "world_ok w"
  shows "px_next_chan w \<le> px_next_chan w' \<and> m' \<noteq> m"
  using t
proof (cases rule: main_trans.cases)
  case (mt_accept j le)
  with accept_loop_grown [of le j "[px_listeners w ! j]" w w'] ok show ?thesis by (auto simp: grown_def)
next
  case (mt_chan i le k i')
  with chan_pass_relayed [OF ok mt_chan(3,4)] show ?thesis by (auto simp: grown_def)
qed auto

lemma relayed_queue: "b' = drop n (b @ g) \<Longrightarrow> b @ g = take n (b @ g) @ b'"
  by (simp del: take_append drop_append)

text \<open>What a step does to the channel with the address \<open>a\<close>.\<close>

definition relayed_bytes ::
  "nrdpx_channel_t \<Rightarrow> byte list \<times> byte list \<times> byte list \<times> byte list \<Rightarrow> nrdpx_channel_t \<Rightarrow> bool" where
  "relayed_bytes c x c' = (case x of (rs, ss, rt, st) \<Rightarrow> same_chan c c'
     \<and> buf_bytes (ch_in_source c) @ rs = ss @ buf_bytes (ch_in_source c')
     \<and> buf_bytes (ch_in_target c) @ rt = st @ buf_bytes (ch_in_target c'))"

lemma relayed_bytes_refl: "relayed_bytes c ([], [], [], []) c"
  by (simp add: relayed_bytes_def same_chan_def)

lemma relayed_bytes_trans:
  "relayed_bytes c (rs, ss, rt, st) c1 \<Longrightarrow> relayed_bytes c1 (r1, s1, r2, s2) c2 \<Longrightarrow>
     relayed_bytes c (rs @ r1, ss @ s1, rt @ r2, st @ s2) c2"
  by (auto simp: relayed_bytes_def same_chan_def) (metis append.assoc)+

lemma step_relayed:
  assumes t: "prog_trans (pc, p) (pc', p')" "pg_proxy p = Some w" "pg_proxy p' = Some w'" and ok: "world_ok w"
    and c': "c' \<in> set (px_channels w')" "ch_addr c' < px_next_chan w"
  shows "px_next_chan w \<le> px_next_chan w'
    \<and> (\<exists>c\<in>set (px_channels w). relayed_bytes c (exchange (ch_addr c') pc (Some w) pc') c')"
  using prog_trans_origin [OF t]
proof (elim disjE conjE exE)
  assume "px_channels w' = px_channels w" "px_next_chan w' = px_next_chan w" "\<forall>m. pc' = P_main m \<longrightarrow> pc = pc'"
  with c' relayed_bytes_refl exchange_none show ?thesis by auto
next
  fix m m' assume m: "pc = P_main m" "pc' = P_main m'" "main_trans (g_terminated (pg_glob p)) (m, w) (m', w')"
  note n = main_trans_next [OF m(3) ok]
  from main_trans_origin [OF m(3) ok c'] show ?thesis
  proof (elim disjE conjE exE)
    assume old: "c' \<in> set (px_channels w)"
      "\<forall>le k i. m = M_chan le k i \<and> i < length (px_channels w) \<longrightarrow> px_channels w ! i \<noteq> c'"
    have "ch_addr (px_channels w ! i) \<noteq> ch_addr c'" if "m = M_chan le k i" "i < length (px_channels w)" for le k i
      using same_addr [OF ok nth_mem [OF that(2)] old(1)] old(2) that by blast
    then have "exchange (ch_addr c') pc (Some w) pc' = ([], [], [], [])"
      using m(1,2) by (auto simp: exchange_def split: main_pc.splits)
    with old(1) n relayed_bytes_refl show ?thesis by auto
  next
    fix le k i assume r: "m = M_chan le k i" "i < length (px_channels w)" "relayed_at le k w (px_channels w ! i) c'"
    then have "relayed_bytes (px_channels w ! i) (exchange (ch_addr c') pc (Some w) pc') c'"
      using m(1,2) n by (auto simp: exchange_def relayed_at_def relayed_bytes_def same_chan_def Let_def
          simp del: take_append drop_append split: if_splits)
    with r(2) n show ?thesis by auto
  qed
qed

lemma conversation_relayed:
  "conversation a s rs ss rt st s' \<Longrightarrow> prog_ok s \<Longrightarrow> pg_proxy (snd s) = Some w \<Longrightarrow> c \<in> set (px_channels w) \<Longrightarrow>
     ch_addr c = a \<Longrightarrow> pg_proxy (snd s') = Some w' \<Longrightarrow>
     px_next_chan w \<le> px_next_chan w'
     \<and> (\<forall>c'\<in>set (px_channels w'). ch_addr c' = a \<longrightarrow> relayed_bytes c (rs, ss, rt, st) c')"
proof (induction arbitrary: w' rule: conversation.induct)
  case cv_start
  then have "world_ok w" by (auto simp: prog_ok_def)
  with cv_start same_addr relayed_bytes_refl show ?case by auto
next
  case (cv_step rs ss rt st pc p pc' p' r1 s1 r2 s2)
  have ok1: "prog_ok (pc, p)" by (rule conversation_ok [OF cv_step.hyps(1) cv_step.prems(1)])
  from cv_step.hyps(2) ok1 cv_step.prems(5) have "pg_proxy p \<noteq> None"
    by (cases rule: prog_trans.cases) (auto simp: prog_ok_def split: option.splits dest: program_exit_ok)
  then obtain w1 where w1: "pg_proxy p = Some w1" by blast
  from cv_step.IH [OF cv_step.prems(1-4)] w1 have
    n1: "px_next_chan w \<le> px_next_chan w1" and
    c1: "\<And>c1. c1 \<in> set (px_channels w1) \<Longrightarrow> ch_addr c1 = a \<Longrightarrow> relayed_bytes c (rs, ss, rt, st) c1" by auto
  have ok: "world_ok w" "world_ok w1" using cv_step.prems(1,2) ok1 w1 by (auto simp: prog_ok_def)
  have a: "a < px_next_chan w1"
    using world_okD(5) [OF ok(1) cv_step.prems(3)] cv_step.prems(4) n1 by (simp add: channel_ok_def)
  have w': "pg_proxy p' = Some w'" using cv_step.prems(5) by simp
  note step = step_relayed [OF cv_step.hyps(2) w1 w' ok(2)]
  have "relayed_bytes c (rs @ r1, ss @ s1, rt @ r2, st @ s2) c'" if c': "c' \<in> set (px_channels w')" "ch_addr c' = a" for c'
  proof -
    obtain d where d: "d \<in> set (px_channels w1)" "relayed_bytes d (r1, s1, r2, s2) c'"
      using step [OF c'(1)] c'(2) a cv_step.hyps(3) w1 by auto
    then have "ch_addr d = a" using c'(2) by (simp add: relayed_bytes_def same_chan_def)
    from relayed_bytes_trans [OF c1 [OF d(1) this] d(2)] show ?thesis .
  qed
  moreover have "px_next_chan w1 \<le> px_next_chan w'"
    using prog_trans_origin [OF cv_step.hyps(2) w1 w'] main_trans_next ok(2) by fastforce
  ultimately show ?case using n1 by auto
qed

end
