(* ===== verification/Descriptors.thy ===== *)
theory Descriptors
  imports Sessions "HOL-Library.Multiset"
begin

text \<open>
  Who owns the descriptors of the process.  Every descriptor that is open belongs to exactly one
  listener, to one end of one channel, or to the check of a server: shown for each operation of
  \<open>src/src/nrdpx_server.cpp\<close> that opens, hands over or closes one, and for the program as a whole,
  as long as the kernel gives out descriptors that are not open.
\<close>

subsection \<open>Owners\<close>

text \<open>The values \<open>xs\<close> that the owners hold are, but for \<open>NRD_NOSOCK\<close>, all different and just the
  open descriptors.\<close>

definition owned :: "int list \<Rightarrow> int set \<Rightarrow> bool" where
  "owned xs F \<longleftrightarrow> distinct (filter (\<lambda>s. s \<noteq> NRD_NOSOCK) xs) \<and> set (filter (\<lambda>s. s \<noteq> NRD_NOSOCK) xs) = F"

lemma owned_Nil [simp]: "owned [] F \<longleftrightarrow> F = {}"
  by (auto simp: owned_def)

lemma owned_none [simp]: "owned (NRD_NOSOCK # xs) F = owned xs F"
  by (simp add: owned_def)

lemma owned_perm: "mset xs = mset ys \<Longrightarrow> owned xs F = owned ys F"
  unfolding owned_def by (metis mset_eq_imp_distinct_iff mset_filter set_mset_mset)

lemma owned_close: "owned (x # xs) F \<Longrightarrow> owned xs (nrdpx_socket_close F x)"
  by (auto simp: owned_def nrdpx_socket_close_def split: if_splits)

lemma owned_open: "owned xs F \<Longrightarrow> x \<notin> F \<Longrightarrow> x \<noteq> NRD_NOSOCK \<Longrightarrow> owned (x # xs) (insert x F)"
  by (auto simp: owned_def)

lemma owned_in: "owned xs F \<Longrightarrow> x \<in> set xs \<Longrightarrow> x \<noteq> NRD_NOSOCK \<Longrightarrow> x \<in> F"
  by (auto simp: owned_def)

lemma owned_close_all: "owned (xs @ ys) F \<Longrightarrow> owned ys (fold (\<lambda>x F. nrdpx_socket_close F x) xs F)"
  by (induction xs arbitrary: F) (auto dest: owned_close)

text \<open>The owners of the proxy: its listeners and the two ends of each channel.\<close>

definition chan_socks :: "nrdpx_channel_t \<Rightarrow> int list" where
  "chan_socks c = [ch_source c, ch_target c]"

definition proxy_socks :: "nrdpx_proxy_t \<Rightarrow> int list" where
  "proxy_socks w = map ls_sock (px_listeners w) @ concat (map chan_socks (px_channels w))"

definition sockets_ok :: "nrdpx_proxy_t \<Rightarrow> bool" where
  "sockets_ok w \<longleftrightarrow> owned (proxy_socks w) (px_fds w) \<and> NRD_NOSOCK \<notin> set (concat (map chan_socks (px_channels w)))"

lemma close_listeners:
  "fold (\<lambda>l F. nrdpx_socket_close F (ls_sock l)) ls F = fold (\<lambda>x F. nrdpx_socket_close F x) (map ls_sock ls) F"
  by (simp add: fold_map comp_def)

subsection \<open>Operations\<close>

lemma create_fds:
  assumes "nrdpx_socket_create os F fam b = (sock, F')"
  shows "F' \<subseteq> F \<union> range (sys_socket os)"
  using assms by (auto simp: nrdpx_socket_create_def nrdpx_socket_close_def Let_def split: if_splits)

lemma channel_route_fds: "channel_route env a host nosvr w = Some (p, w') \<Longrightarrow> px_fds w' = px_fds w"
  by (auto simp: channel_route_def Let_def split: Option.bind_splits option.splits if_splits)

lemma channel_connect_fds:
  "channel_connect env p w = Some (ok, s, w') \<Longrightarrow> px_fds w' \<subseteq> px_fds w \<union> range (sys_socket (en_os env))"
  by (auto simp: channel_connect_def Let_def split: Option.bind_splits option.splits if_splits prod.splits
      dest!: create_fds)

lemma create_failed_fds: "create_failed host s1 s2 rt w = Some w' \<Longrightarrow> px_fds w' \<subseteq> px_fds w"
  by (auto simp: create_failed_def nrdpx_socket_close_def Let_def split: Option.bind_splits option.splits if_splits)

lemma channel_new_fds: "channel_new env s1 s2 p now w = Some (c, w') \<Longrightarrow> px_fds w' = px_fds w"
  by (auto simp: channel_new_def Let_def split: Option.bind_splits)

lemma create_done_fds: "create_done env host c p w = Some w' \<Longrightarrow> px_fds w' = px_fds w"
  by (auto simp: create_done_def add_channel_def split: Option.bind_splits if_splits)

lemma channel_create_fds:
  assumes "nrdpx_channel_create env src now nosvr w = Some (res, w')"
  shows "px_fds w' \<subseteq> px_fds w \<union> range (sys_socket (en_os env))"
  using assms
  by (auto simp: nrdpx_channel_create_def Let_def split: Option.bind_splits option.splits if_splits
      dest!: channel_route_fds channel_connect_fds create_failed_fds channel_new_fds create_done_fds) blast+

text \<open>\<open>nrdpx_channel_create\<close> takes the source socket from its caller: it gives it to the new
  channel with a new socket, or closes it.\<close>

lemma channel_create_socks:
  assumes ok: "world_ok w" and own: "owned (src # xs) (px_fds w)" and src: "src \<noteq> NRD_NOSOCK"
    and fresh: "fresh_sock (en_os env) (px_fds w)"
    and cc: "nrdpx_channel_create env src now nosvr w = Some (res, w')"
  shows "\<exists>new. px_channels w' = px_channels w @ new \<and> px_listeners w' = px_listeners w
    \<and> owned (concat (map chan_socks new) @ xs) (px_fds w') \<and> NRD_NOSOCK \<notin> set (concat (map chan_socks new))
    \<and> px_fds w' \<subseteq> px_fds w \<union> range (sys_socket (en_os env))"
proof -
  have "fresh_sockets env w \<and> src \<noteq> NRD_NOSOCK \<and> src \<in> px_fds w"
    using owned_in [OF own, of src] src fresh by (simp add: fresh_sockets_def fresh_sock_def)
  with channel_create_ok [OF ok, of env src now nosvr] cc have
    r: "case res of None \<Rightarrow> px_channels w' = px_channels w
       | Some a \<Rightarrow> \<exists>c. ch_addr c = a \<and> ch_source c = src \<and> px_channels w' = px_channels w @ [c]"
    and f: "case res of None \<Rightarrow> px_fds w' = px_fds w - {src}
       | Some a \<Rightarrow> (let t = ch_target (last (px_channels w')) in
           t \<notin> px_fds w \<and> t \<noteq> NRD_NOSOCK \<and> px_fds w' = insert t (px_fds w))" by auto
  have more: "px_listeners w' = px_listeners w \<and> px_fds w' \<subseteq> px_fds w \<union> range (sys_socket (en_os env))"
    using channel_create_next [OF cc] channel_create_fds [OF cc] by simp
  show ?thesis
  proof (cases res)
    case None
    with r f owned_close [OF own] src more show ?thesis by (intro exI [of _ "[]"]) (simp add: nrdpx_socket_close_def)
  next
    case (Some a)
    with r obtain c where c: "ch_source c = src" "px_channels w' = px_channels w @ [c]" by auto
    with f Some have t: "ch_target c \<notin> px_fds w" "ch_target c \<noteq> NRD_NOSOCK" "px_fds w' = insert (ch_target c) (px_fds w)"
      by (simp_all add: Let_def)
    have "owned (ch_target c # src # xs) (px_fds w')" using owned_open [OF own t(1,2)] t(3) by simp
    then have "owned (chan_socks c @ xs) (px_fds w')"
      by (subst owned_perm [of _ "ch_target c # src # xs"]) (simp_all add: chan_socks_def c(1))
    with c t(2) src more show ?thesis by (intro exI [of _ "[c]"]) (simp add: chan_socks_def)
  qed
qed

text \<open>The deletion of a channel closes its two sockets.\<close>

lemma socks_split:
  assumes "i < length (px_channels w)"
  shows "mset (proxy_socks w) = mset (chan_socks (px_channels w ! i)
    @ map ls_sock (px_listeners w) @ concat (map chan_socks (take i (px_channels w) @ drop (Suc i) (px_channels w))))"
proof -
  have "px_channels w = take i (px_channels w) @ px_channels w ! i # drop (Suc i) (px_channels w)"
    using assms by (simp add: id_take_nth_drop)
  from arg_cong [OF this, of "\<lambda>cs. mset (concat (map chan_socks cs))"] show ?thesis by (simp add: proxy_socks_def ac_simps)
qed

lemma del_channel_socks:
  assumes ok: "world_ok w" and i: "i < length (px_channels w)" and own: "owned (proxy_socks w) (px_fds w)"
    and d: "del_channel t (ch_addr (px_channels w ! i)) w = Some w'"
  shows "owned (proxy_socks w') (px_fds w') \<and> px_fds w' \<subseteq> px_fds w
    \<and> px_channels w' = take i (px_channels w) @ drop (Suc i) (px_channels w)"
proof -
  from del_channel_nth [OF ok i, of t] d have
    w': "px_channels w' = take i (px_channels w) @ drop (Suc i) (px_channels w)"
      "px_fds w' = nrdpx_socket_close (nrdpx_socket_close (px_fds w) (ch_source (px_channels w ! i))) (ch_target (px_channels w ! i))"
    by auto
  have "owned (chan_socks (px_channels w ! i) @ proxy_socks w') (px_fds w)"
    using own owned_perm [OF socks_split [OF i]] w'(1) del_channel_next [OF d] by (simp add: proxy_socks_def)
  from owned_close_all [OF this] w' show ?thesis
    by (auto simp: chan_socks_def nrdpx_socket_close_def split: if_splits)
qed

subsection \<open>The main thread\<close>

text \<open>A failed connection: the source socket goes to the new channel, and the old channel is deleted
  without it.\<close>

lemma connect_failed_socks:
  assumes ok: "world_ok w" and i: "i < length (px_channels w)" and s: "sockets_ok w"
    and fresh: "fresh_sock (en_os (le_env le k)) (px_fds w)" and cf: "connect_failed le k i w = Some w'"
  shows "sockets_ok w' \<and> px_fds w' \<subseteq> px_fds w \<union> range (sys_socket (en_os (le_env le k)))"
proof -
  let ?c = "px_channels w ! i"
  let ?d = "?c\<lparr>ch_source := NRD_NOSOCK\<rparr>"
  let ?rest = "map ls_sock (px_listeners w) @ concat (map chan_socks (take i (px_channels w) @ drop (Suc i) (px_channels w)))"
  from cf obtain sv s1 new w2 where
    w2: "nrdpx_channel_create (le_env le k) (ch_source ?c) (le_now le) (Some s1) (w\<lparr>px_servers := sv\<rparr>) = Some (new, w2)"
    and sv: "world_ok (w\<lparr>px_servers := sv\<rparr>)"
    and del: "del_channel (en_time (le_env le k)) (ch_addr ?c) (set_chan i ((px_channels w2 ! i)\<lparr>ch_source := NRD_NOSOCK\<rparr>) w2) = Some w'"
    using set_server_ok [OF ok]
    by (auto simp: connect_failed_def Let_def nrdpx_channel_delete_def get_def split: Option.bind_splits if_splits)
  have own: "owned (ch_source ?c # ch_target ?c # ?rest) (px_fds (w\<lparr>px_servers := sv\<rparr>))"
    using s owned_perm [OF socks_split [OF i]] by (simp add: sockets_ok_def chan_socks_def)
  have src: "ch_source ?c \<noteq> NRD_NOSOCK" "ch_target ?c \<noteq> NRD_NOSOCK"
    using s nth_mem [OF i] by (force simp: sockets_ok_def chan_socks_def)+
  from channel_create_socks [OF sv own src(1) _ w2] fresh obtain cs where cs: "px_channels w2 = px_channels w @ cs" "px_listeners w2 = px_listeners w"
    "owned (concat (map chan_socks cs) @ ch_target ?c # ?rest) (px_fds w2)" "NRD_NOSOCK \<notin> set (concat (map chan_socks cs))"
    "px_fds w2 \<subseteq> px_fds w \<union> range (sys_socket (en_os (le_env le k)))" by auto
  have i2: "i < length (px_channels w2)" and c2: "px_channels w2 ! i = ?c" using cs(1) i by (auto simp: nth_append)
  have ok2: "world_ok w2" using channel_create_grown [OF sv w2] by (simp add: grown_def)
  let ?w3 = "set_chan i ?d w2"
  have ok3: "world_ok ?w3"
    using chan_bufs [OF ok2 i2] c2 by (intro set_chan_ok [OF ok2 i2]) (simp_all add: chan_bufs_ok_def)
  have i3: "i < length (px_channels ?w3)" "px_channels ?w3 ! i = ?d" "px_fds ?w3 = px_fds w2"
    using i2 by (simp_all add: set_chan_def)
  have split: "take i (px_channels ?w3) @ drop (Suc i) (px_channels ?w3) = take i (px_channels w) @ drop (Suc i) (px_channels w) @ cs"
    using i cs(1) by (simp add: set_chan_def)
  have "mset (proxy_socks ?w3) = mset (NRD_NOSOCK # concat (map chan_socks cs) @ ch_target ?c # ?rest)"
    unfolding socks_split [OF i3(1)] split i3(2) using cs(2) by (simp add: chan_socks_def set_chan_def ac_simps)
  from owned_perm [OF this] cs(3) i3(3) have own: "owned (proxy_socks ?w3) (px_fds ?w3)" by simp
  from del_channel_socks [OF ok3 i3(1) own, of "en_time (le_env le k)" w'] del c2 i3(2,3) split
  have w': "owned (proxy_socks w') (px_fds w')" "px_fds w' \<subseteq> px_fds w2"
    "px_channels w' = take i (px_channels w) @ drop (Suc i) (px_channels w) @ cs" by simp_all
  have "NRD_NOSOCK \<notin> set (concat (map chan_socks (px_channels w')))"
    unfolding w'(3) using s cs(4) by (auto simp: sockets_ok_def dest: in_set_takeD in_set_dropD)
  with w' cs(5) show ?thesis by (auto simp: sockets_ok_def)
qed

lemma keeps_socks:
  assumes k: "keeps i w w'" and s: "sockets_ok w"
  shows "sockets_ok w'"
proof -
  have "map chan_socks (px_channels w') = map chan_socks (px_channels w)"
  proof (rule nth_equalityI)
    fix j assume "j < length (map chan_socks (px_channels w'))"
    with k show "map chan_socks (px_channels w') ! j = map chan_socks (px_channels w) ! j"
      by (cases "j = i") (simp_all add: keeps_def same_chan_def chan_socks_def)
  qed (use k in \<open>simp add: keeps_def\<close>)
  with k s show ?thesis by (simp add: sockets_ok_def proxy_socks_def keeps_def)
qed

lemma del_channel_sockets:
  assumes "world_ok w" "i < length (px_channels w)" "sockets_ok w" "del_channel t (ch_addr (px_channels w ! i)) w = Some w'"
  shows "sockets_ok w' \<and> px_fds w' \<subseteq> px_fds w"
  using del_channel_socks [OF assms(1,2) _ assms(4)] assms(3)
  by (auto simp: sockets_ok_def dest: in_set_takeD in_set_dropD)

lemma chan_pass_socks:
  assumes ok: "world_ok w" and i: "i < length (px_channels w)" and s: "sockets_ok w"
    and fresh: "fresh_sock (en_os (le_env le k)) (px_fds w)" and p: "chan_pass le k i w = Some (i', w')"
  shows "sockets_ok w' \<and> px_fds w' \<subseteq> px_fds w \<union> range (sys_socket (en_os (le_env le k)))"
proof (cases "connect_error le k w (px_channels w ! i) \<noteq> 0")
  case True
  with p have "connect_failed le k i w = Some w'" by (auto simp: chan_pass_def Let_def split: Option.bind_splits)
  with connect_failed_socks [OF ok i s fresh] show ?thesis .
next
  case False
  obtain alive w1 where io: "chan_io le k i w = Some (alive, w1)" "keeps i w w1"
    using chan_io_ok [OF ok i, of le k] by blast
  have w1: "sockets_ok w1" "px_fds w1 = px_fds w" "world_ok w1" "i < length (px_channels w1)"
    "ch_addr (px_channels w1 ! i) = ch_addr (px_channels w ! i)"
    using io(2) keeps_socks [OF io(2) s] i by (simp_all add: keeps_def same_chan_def)
  from p False io(1) consider "w' = w" | "w' = w1"
    | "del_channel (en_time (le_env le k)) (ch_addr (px_channels w1 ! i)) w1 = Some w'"
    using w1(5) by (auto simp: chan_pass_def Let_def nrdpx_channel_delete_def split: if_splits Option.bind_splits)
  then show ?thesis using s w1 del_channel_sockets [OF w1(3,4,1)] by cases auto
qed

lemma accept_socks:
  assumes ok: "world_ok w" and s: "sockets_ok w" and a: "accept_loop le j [l] w = Some w'"
    and fresh: "sys_accept (en_os (le_env le j)) (ls_sock l) = sd" "sd \<noteq> NRD_NOSOCK \<Longrightarrow> sd \<notin> px_fds w"
      "sd \<noteq> NRD_NOSOCK \<Longrightarrow> fresh_sock (en_os (le_env le j)) (insert sd (px_fds w))"
  shows "sockets_ok w' \<and> px_fds w' \<subseteq> insert sd (px_fds w) \<union> range (sys_socket (en_os (le_env le j)))"
proof (cases "ls_sock l \<noteq> NRD_NOSOCK \<and> ls_sock l \<in> le_read le \<and> sd \<noteq> NRD_NOSOCK")
  case False
  with a fresh(1) have "w' = w" by (auto simp: nrdpx_socket_accept_def Let_def split: if_splits)
  with s show ?thesis by auto
next
  case True
  let ?w = "w\<lparr>px_fds := insert sd (px_fds w)\<rparr>"
  from True a fresh(1) obtain chn where
    c: "nrdpx_channel_create (le_env le j) sd (le_now le) None ?w = Some (chn, w')"
    by (auto simp: nrdpx_socket_accept_def Let_def split: Option.bind_splits)
  have "owned (sd # proxy_socks w) (px_fds ?w)"
    using s True fresh(2) owned_open [of "proxy_socks w" "px_fds w" sd] by (simp add: sockets_ok_def)
  from channel_create_socks [OF _ this _ _ c] ok True fresh(3) obtain cs where
    cs: "px_channels w' = px_channels w @ cs" "px_listeners w' = px_listeners w"
      "owned (concat (map chan_socks cs) @ proxy_socks w) (px_fds w')" "NRD_NOSOCK \<notin> set (concat (map chan_socks cs))"
      "px_fds w' \<subseteq> insert sd (px_fds w) \<union> range (sys_socket (en_os (le_env le j)))" by auto
  have "mset (proxy_socks w') = mset (concat (map chan_socks cs) @ proxy_socks w)"
    using cs(1,2) by (simp add: proxy_socks_def ac_simps)
  from owned_perm [OF this] cs s show ?thesis by (auto simp: sockets_ok_def)
qed

text \<open>What the kernel has to answer in a step of the main thread that starts at \<open>m\<close>, when the descriptors
  \<open>F\<close> are open: an accepted connection and a new socket get descriptors that are not open.\<close>

fun main_fresh :: "int set \<Rightarrow> nrdpx_proxy_t \<Rightarrow> main_pc \<Rightarrow> bool" where
  "main_fresh F w (M_accept le j) = (j < length (px_listeners w) \<longrightarrow>
     (let os = en_os (le_env le j); sd = sys_accept os (ls_sock (px_listeners w ! j))
      in sd \<noteq> NRD_NOSOCK \<longrightarrow> sd \<notin> F \<and> fresh_sock os (insert sd F)))"
| "main_fresh F w (M_chan le k i) = fresh_sock (en_os (le_env le k)) F"
| "main_fresh F w pc = True"

lemma fresh_sock_mono: "fresh_sock os F \<Longrightarrow> G \<subseteq> F \<Longrightarrow> fresh_sock os G"
  by (auto simp: fresh_sock_def)

lemma main_trans_socks:
  assumes t: "main_trans tm (m, w) (m', w')" and ok: "world_ok w" and s: "sockets_ok w"
    and fresh: "main_fresh (px_fds w \<union> G) w m" and G: "px_fds w \<inter> G = {}" "NRD_NOSOCK \<notin> G"
  shows "sockets_ok w' \<and> px_fds w' \<inter> G = {}"
  using t
proof (cases rule: main_trans.cases)
  case (mt_accept j le)
  let ?os = "en_os (le_env le j)"
  let ?sd = "sys_accept ?os (ls_sock (px_listeners w ! j))"
  have f: "?sd \<noteq> NRD_NOSOCK \<Longrightarrow> ?sd \<notin> px_fds w \<union> G" "?sd \<noteq> NRD_NOSOCK \<Longrightarrow> fresh_sock ?os (insert ?sd (px_fds w \<union> G))"
    using fresh mt_accept(1,3) by (simp_all add: Let_def)
  from accept_socks [OF ok s mt_accept(4) refl] f have
    "sockets_ok w'" "px_fds w' \<subseteq> insert ?sd (px_fds w) \<union> range (sys_socket ?os)"
    by (auto intro: fresh_sock_mono)
  moreover have "w' = w" if "?sd = NRD_NOSOCK"
    using mt_accept(4) that by (auto simp: nrdpx_socket_accept_def Let_def split: if_splits)
  ultimately show ?thesis using f G by (cases "?sd = NRD_NOSOCK") (auto simp: fresh_sock_def)
next
  case (mt_chan i le k i')
  let ?os = "en_os (le_env le k)"
  have f: "fresh_sock ?os (px_fds w \<union> G)" using fresh mt_chan(1) by simp
  from chan_pass_socks [OF ok mt_chan(3) s fresh_sock_mono [OF f] mt_chan(4)] have
    "sockets_ok w'" "px_fds w' \<subseteq> px_fds w \<union> range (sys_socket ?os)" by simp_all
  with f G show ?thesis by (auto simp: fresh_sock_def)
qed (use s G in simp_all)

subsection \<open>The check of a server, signals, start and end\<close>

definition no_check :: check_state where
  "no_check = \<lparr>ck_socket = NRD_NOSOCK, ck_fds = {}\<rparr>"

lemma no_check_parts [simp]: "ck_socket no_check = NRD_NOSOCK" "ck_fds no_check = {}"
  by (simp_all add: no_check_def)

text \<open>The socket of the check at each place of the callback.\<close>

fun check_at :: "event_pc \<Rightarrow> check_state \<Rightarrow> bool" where
  "check_at (E_check now j (C_resolve h q)) ck = (ck = no_check)"
| "check_at (E_check now j (C_create a q)) ck = (ck = no_check)"
| "check_at (E_check now j (C_done ret)) ck = (ck = no_check)"
| "check_at (E_check now j pc) ck = check_owns {} ck"
| "check_at ev ck = (ck = no_check)"

lemma check_at_owns: "check_at ev ck \<Longrightarrow> check_owns {} ck"
  by (induction ev ck rule: check_at.induct) (simp_all add: no_check_def)

lemma check_at_abort: "check_at ev ck \<Longrightarrow> check_at ev (check_abort ck) \<and> ck_fds (check_abort ck) \<subseteq> ck_fds ck"
  using check_owns_abort [of "{}" ck] check_at_owns [of ev ck]
  by (induction ev ck rule: check_at.induct) (simp_all add: no_check_def)

fun creates :: "event_pc \<Rightarrow> bool" where
  "creates (E_check now j (C_create a q)) = True"
| "creates ev = False"

lemma check_step_at:
  assumes "check_at (E_check now j pc) ck" "check_step os R pc ck = (pc', ck')"
    and "creates (E_check now j pc) \<Longrightarrow> ck_socket ck' \<notin> F"
  shows "check_at (E_check now j pc') ck' \<and> ck_fds ck' \<subseteq> ck_fds ck \<union> (if creates (E_check now j pc) then - F else {})"
proof (cases pc)
  case (C_start h q)
  with assms(1) check_owns_abort [of "{}" ck] have "check_abort ck = no_check" by (simp add: no_check_def)
  with C_start assms(2) show ?thesis by (auto split: if_splits)
next
  case (C_create a q)
  with assms show ?thesis
    by (auto simp: no_check_def check_owns_def nrdpx_socket_create_def Let_def split: if_splits)
next
  case (C_made a q)
  with assms(1,2) show ?thesis by (auto simp: check_owns_def no_check_def split: if_splits)
next
  case (C_close ret)
  with assms(1) check_owns_close [of "{}" ck] have "check_close ck = no_check" by (simp add: no_check_def)
  with C_close assms(2) show ?thesis by auto
qed (use assms(1,2) in \<open>auto split: option.splits\<close>)

lemma event_trans_at:
  assumes "event_trans R tm (e, w, ck) (e', w', ck')" "check_at e ck"
    and "creates e \<Longrightarrow> e' \<noteq> e \<Longrightarrow> ck_socket ck' \<notin> F"
  shows "check_at e' ck' \<and> ck_fds ck' \<subseteq> ck_fds ck \<union> (if creates e then - F else {})"
  using assms(1)
proof (cases rule: event_trans.cases)
  case (et_check os pc pc' now j)
  have "creates e \<Longrightarrow> e' \<noteq> e" using et_check by (cases pc) (auto split: prod.splits)
  with check_step_at [of now j pc ck os R pc' ck' F] et_check assms(2,3) show ?thesis by simp
qed (use assms(2) in \<open>auto simp: no_check_def\<close>)

lemma event_trans_socks:
  assumes "event_trans R tm (e, w, ck) (e', w', ck')"
  shows "sockets_ok w' = sockets_ok w \<and> px_fds w' = px_fds w"
  using event_trans_server [OF assms] by (auto simp: set_server_def sockets_ok_def proxy_socks_def)

text \<open>The end that a signal asks for closes the listeners, and the destructor the rest.\<close>

lemma owned_nosocks: "\<forall>x\<in>set xs. x = NRD_NOSOCK \<Longrightarrow> owned (xs @ ys) F = owned ys F"
  by (induction xs) auto

lemma close_all_subset: "fold (\<lambda>x F. nrdpx_socket_close F x) xs F \<subseteq> F"
proof (induction xs arbitrary: F)
  case (Cons x xs)
  from Cons [of "nrdpx_socket_close F x"] show ?case by (auto simp: nrdpx_socket_close_def split: if_splits)
qed simp

lemma signal_socks:
  assumes "nrdpx_signal_handler os R sg g fs px ck = Handled g' px' ck'" "\<forall>w. px = Some w \<longrightarrow> sockets_ok w"
  shows "(\<forall>w'. px' = Some w' \<longrightarrow> sockets_ok w' \<and> (\<exists>w. px = Some w \<and> px_fds w' \<subseteq> px_fds w)) \<and> ck' \<in> {ck, check_abort ck}"
proof -
  have "sockets_ok (w\<lparr>px_fds := fold (\<lambda>l F. nrdpx_socket_close F (ls_sock l)) (px_listeners w) (px_fds w),
      px_listeners := map (\<lambda>l. l\<lparr>ls_sock := NRD_NOSOCK\<rparr>) (px_listeners w)\<rparr>)" if "sockets_ok w" for w
    using that owned_close_all [of "map ls_sock (px_listeners w)"]
    by (simp add: sockets_ok_def proxy_socks_def close_listeners owned_nosocks)
  moreover have "fold (\<lambda>l F. nrdpx_socket_close F (ls_sock l)) ls F \<subseteq> F" for ls :: "nrdpx_listener_t list" and F
    using close_all_subset by (simp add: close_listeners)
  ultimately show ?thesis
    using assms
    by (cases sg) (auto simp: nrdpx_signal_handler_def nrdpx_term_proc_def check_abort_server Let_def split: if_splits prod.splits)
qed

lemma delete_channels_fds:
  "delete_channels t cs w = Some w' \<Longrightarrow>
     px_fds w' = fold (\<lambda>x F. nrdpx_socket_close F x) (concat (map chan_socks cs)) (px_fds w)"
proof (induction cs arbitrary: w)
  case (Cons c cs)
  then obtain w1 where "channel_destroy t c w = Some w1" "delete_channels t cs w1 = Some w'" by (auto split: Option.bind_splits)
  moreover from this(1) have "px_fds w1 = nrdpx_socket_close (nrdpx_socket_close (px_fds w) (ch_source c)) (ch_target c)"
    by (auto simp: channel_destroy_def Let_def split: Option.bind_splits if_splits)
  ultimately show ?case using Cons.IH by (simp add: chan_socks_def)
qed simp

lemma proxy_destroy_socks:
  assumes "world_ok w" "sockets_ok w"
  shows "\<exists>w'. proxy_destroy t w = Some w' \<and> px_fds w' = {}"
proof -
  obtain w' where w': "proxy_destroy t w = Some w'" using proxy_destroy_ok [OF assms(1), of t] by blast
  then have "px_fds w' = fold (\<lambda>x F. nrdpx_socket_close F x) (proxy_socks w) (px_fds w)"
    by (auto simp: proxy_destroy_def proxy_socks_def close_listeners dest!: delete_channels_fds split: Option.bind_splits)
  with owned_close_all [of "proxy_socks w" "[]" "px_fds w"] assms(2) w' show ?thesis by (simp add: sockets_ok_def)
qed

text \<open>The listeners are opened one after the other.\<close>

fun listeners_fresh :: "(nat \<Rightarrow> sock_os) \<Rightarrow> resolver \<Rightarrow> nat \<Rightarrow> nrdpx_listener_t list \<Rightarrow> int set \<Rightarrow> bool" where
  "listeners_fresh os R k [] F = True"
| "listeners_fresh os R k (l # ls) F = (fresh_sock (os k) F \<and>
     listeners_fresh os R (k + 1) ls (fst (snd (nrdpx_socket_listen (os k) R F (ls_host l) (ls_port l)))))"

lemma socket_listen_in:
  "nrdpx_socket_listen os R F host port = (sock, F', host') \<Longrightarrow> sock = NRD_NOSOCK \<or> sock \<in> range (sys_socket os)"
  by (auto simp: nrdpx_socket_listen_def nrdpx_socket_create_def NRD_NOSOCK_def Let_def
      split: if_splits prod.splits option.splits)

lemma open_listeners_socks:
  "open_listeners os R k ls F = (ls', F') \<Longrightarrow> listeners_fresh os R k ls F \<Longrightarrow> owned xs F \<Longrightarrow>
     owned (map ls_sock ls' @ xs) F'"
proof (induction ls arbitrary: k F ls' F' xs)
  case (Cons l ls)
  obtain sock F1 host where l: "nrdpx_socket_listen (os k) R F (ls_host l) (ls_port l) = (sock, F1, host)" by (metis prod_cases3)
  obtain ls1 F2 where r: "open_listeners os R (k + 1) ls F1 = (ls1, F2)" by fastforce
  have fresh: "\<And>fam. sys_socket (os k) fam \<notin> F" "listeners_fresh os R (k + 1) ls F1"
    using Cons.prems(2) l by (simp_all add: fresh_sock_def)
  have res: "F' = F2" "ls' = (if sock = NRD_NOSOCK then ls1 else l\<lparr>ls_host := host, ls_sock := sock\<rparr> # ls1)"
    using Cons.prems(1) l r by auto
  show ?case
  proof (cases "sock = NRD_NOSOCK")
    case True
    with socket_listen_fds [OF fresh(1) l] have "F1 = F" by simp
    with Cons.IH [OF r fresh(2), of xs] Cons.prems(3) res True show ?thesis by simp
  next
    case False
    with socket_listen_in [OF l] fresh(1) have "sock \<notin> F" by auto
    with owned_open [OF Cons.prems(3) this False] socket_listen_fds [OF fresh(1) l] False have "owned (sock # xs) F1" by simp
    from Cons.IH [OF r fresh(2) this] have "owned (map ls_sock ls1 @ sock # xs) F2" .
    moreover have "mset (map ls_sock ls' @ xs) = mset (map ls_sock ls1 @ sock # xs)" using False res(2) by simp
    ultimately show ?thesis using owned_perm res(1) by blast
  qed
qed simp

subsection \<open>The program\<close>

text \<open>The descriptors of the process, and the runs in which the kernel gives out only those that are
  not open.  A new socket of a check is seen in the state after the step.\<close>

definition open_fds :: "program_t \<Rightarrow> int set" where
  "open_fds p = (case pg_proxy p of None \<Rightarrow> {} | Some w \<Rightarrow> px_fds w) \<union> ck_fds (pg_check p)"

definition start_fresh :: "start_env \<Rightarrow> bool" where
  "start_fresh e =
     (let p = snd (nrdpx_main e);
          (ok, w) = nrdpx_load_config (se_res e) (pg_files p) (g_cfg_path (pg_glob p)) (new_proxy (se_chktime e))
      in ok \<longrightarrow> listeners_fresh (se_os e) (se_res e) 0 (px_listeners w) {})"

fun main_fresh_at :: "program_t \<Rightarrow> prog_pc \<Rightarrow> bool" where
  "main_fresh_at p (P_main m) = (case pg_proxy p of None \<Rightarrow> True | Some w \<Rightarrow> main_fresh (open_fds p) w m)"
| "main_fresh_at p pc = True"

definition kernel_fresh :: "prog_pc \<times> program_t \<Rightarrow> prog_pc \<times> program_t \<Rightarrow> bool" where
  "kernel_fresh s s' \<longleftrightarrow> main_fresh_at (snd s) (fst s)
     \<and> (creates (pg_event (snd s)) \<and> pg_event (snd s') \<noteq> pg_event (snd s) \<longrightarrow> ck_socket (pg_check (snd s')) \<notin> open_fds (snd s))"

inductive kernel_reach :: "start_env \<Rightarrow> prog_pc \<times> program_t \<Rightarrow> bool" for e where
  kr_start: "start_fresh e \<Longrightarrow> kernel_reach e (nrdpx_main e)"
| kr_step: "kernel_reach e s \<Longrightarrow> prog_trans s s' \<Longrightarrow> kernel_fresh s s' \<Longrightarrow> kernel_reach e s'"

lemma kernel_reach_prog: "kernel_reach e s \<Longrightarrow> prog_reach e s"
  by (induction rule: kernel_reach.induct) (auto intro: pr_start pr_step)

definition descriptors_ok :: "program_t \<Rightarrow> bool" where
  "descriptors_ok p \<longleftrightarrow> check_at (pg_event p) (pg_check p)
     \<and> (\<forall>w. pg_proxy p = Some w \<longrightarrow> sockets_ok w \<and> px_fds w \<inter> ck_fds (pg_check p) = {})"

lemma check_at_none: "check_at ev ck \<Longrightarrow> NRD_NOSOCK \<notin> ck_fds ck"
  using check_at_owns [of ev ck] by (auto simp: check_owns_def)

lemma start_descriptors:
  assumes "start_fresh e"
  shows "descriptors_ok (snd (nrdpx_main e))"
proof (cases rule: main_cases [of e])
  case (ended n)
  then show ?thesis by (simp add: descriptors_ok_def program_init_def no_check_def)
next
  case (failed g fs ok w0 fds w)
  note w0 = load_config_closed [OF failed(4)] load_config_spec [OF failed(4)]
  have "sockets_ok w"
  proof (cases ok)
    case True
    with failed have "open_listeners (se_os e) (se_res e) 0 (px_listeners w0) {} = ([], fds)"
      "w = w0\<lparr>px_listeners := [], px_fds := fds\<rparr>" using w0 by simp_all
    moreover have "listeners_fresh (se_os e) (se_res e) 0 (px_listeners w0) {}"
      using assms failed(1,4) True by (simp add: start_fresh_def nrdpx_fail_proc_def)
    ultimately show ?thesis using open_listeners_socks [of _ _ _ _ "{}" "[]" fds "[]"] failed(3)
      by (simp add: sockets_ok_def proxy_socks_def)
  next
    case False
    with failed(3,5) w0(1) show ?thesis
      using owned_nosocks [of "map ls_sock (px_listeners w0)" "[]" "{}"] by (simp add: sockets_ok_def proxy_socks_def)
  qed
  with failed(1) show ?thesis by (simp add: descriptors_ok_def program_init_def no_check_def)
next
  case (started g fs w w' ls fds)
  note w = load_config_closed [OF started(1)] load_config_spec [OF started(1)]
  have "listeners_fresh (se_os e) (se_res e) 0 (px_listeners w) {}"
    using assms started by (simp add: start_fresh_def)
  with open_listeners_socks [of _ _ _ _ "{}" ls fds "[]"] started(2,3) w have "sockets_ok w'"
    by (simp add: sockets_ok_def proxy_socks_def tables_ok_def)
  with started(5) show ?thesis by (simp add: descriptors_ok_def program_init_def no_check_def)
qed

lemma exit_descriptors:
  "program_exit fuel run1 run2 err t p = Some s \<Longrightarrow> descriptors_ok p \<Longrightarrow> descriptors_ok (snd s)"
  by (auto simp: program_exit_def nrdpx_exit_proc_def descriptors_ok_def split: option.splits Option.bind_splits prod.splits)

lemma step_descriptors:
  assumes t: "prog_trans s s'" and ok: "prog_ok s" and inv: "descriptors_ok (snd s)" and k: "kernel_fresh s s'"
  shows "descriptors_ok (snd s')"
  using t
proof (cases rule: prog_trans.cases)
  case (pt_main p w m m' w')
  with ok inv check_at_none have w: "world_ok w" "sockets_ok w" "px_fds w \<inter> ck_fds (pg_check p) = {}"
    "NRD_NOSOCK \<notin> ck_fds (pg_check p)" by (auto simp: prog_ok_def descriptors_ok_def)
  have "main_fresh (px_fds w \<union> ck_fds (pg_check p)) w m"
    using k pt_main by (simp add: kernel_fresh_def open_fds_def)
  from main_trans_socks [OF pt_main(4) w(1,2) this w(3,4)] pt_main inv show ?thesis by (simp add: descriptors_ok_def)
next
  case (pt_exit p m R W fuel run1 run2 t)
  with exit_descriptors inv show ?thesis by simp
next
  case (pt_fail_exit p fuel run1 run2 t)
  with exit_descriptors inv show ?thesis by simp
next
  case (pt_signal pc os R sg p g px ck)
  note sg = signal_socks [OF pt_signal(4)]
  have "\<forall>w. pg_proxy p = Some w \<longrightarrow> sockets_ok w" using inv pt_signal by (simp add: descriptors_ok_def)
  note sg = sg [OF this]
  have "check_at (pg_event p) ck \<and> ck_fds ck \<subseteq> ck_fds (pg_check p)"
    using check_at_abort [of "pg_event p" "pg_check p"] sg inv pt_signal by (auto simp: descriptors_ok_def)
  with sg inv pt_signal show ?thesis by (fastforce simp: descriptors_ok_def)
next
  case (pt_event pc p w R ev w' ck)
  have c: "check_at (pg_event p) (pg_check p)" "sockets_ok w" "px_fds w \<inter> ck_fds (pg_check p) = {}"
    using inv pt_event by (simp_all add: descriptors_ok_def)
  have "creates (pg_event p) \<Longrightarrow> ev \<noteq> pg_event p \<Longrightarrow> ck_socket ck \<notin> open_fds p"
    using k pt_event by (simp add: kernel_fresh_def)
  from event_trans_at [OF pt_event(6) c(1) this] event_trans_socks [OF pt_event(6)] c pt_event(4) pt_event show ?thesis
    by (auto simp: descriptors_ok_def open_fds_def split: if_splits)
qed (use inv in \<open>simp_all add: descriptors_ok_def\<close>)

lemma kernel_reach_descriptors: "kernel_reach e s \<Longrightarrow> descriptors_ok (snd s)"
proof (induction rule: kernel_reach.induct)
  case (kr_step s s')
  from step_descriptors [OF kr_step(2) prog_reach_ok [OF kernel_reach_prog [OF kr_step(1)]] kr_step(4,3)] show ?case .
qed (rule start_descriptors)

text \<open>The check's socket among the others.\<close>

lemma descriptors_owned:
  assumes "descriptors_ok p" "pg_proxy p = Some w"
  shows "owned (ck_socket (pg_check p) # proxy_socks w) (open_fds p)"
proof -
  have "owned (proxy_socks w) (px_fds w)" "px_fds w \<inter> ck_fds (pg_check p) = {}" "check_owns {} (pg_check p)"
    using assms check_at_owns by (auto simp: descriptors_ok_def sockets_ok_def)
  with owned_open [of "proxy_socks w" "px_fds w" "ck_socket (pg_check p)"] assms(2) show ?thesis
    by (auto simp: check_owns_def open_fds_def)
qed

end
