(* ===== verification/Loop_End.thy ===== *)
theory Loop_End
  imports Run_Inv
begin

text \<open>
  The loop over the channels ends, however many connections fail in it.

  A channel whose connection failed is replaced by one to another server, which the same loop
  reaches again.  The argument that this ends is a measure in three parts: the channels that are
  left; the faults that the active servers may still have before they are deactivated; and for
  the channels that are left, whether their server is active, or else whether their route is
  in the cache (a cached route is taken again even if its server is inactive, but only once).
\<close>

subsection \<open>What the measure reads\<close>

definition server_view :: "nrdpx_proxy_t \<Rightarrow> (bool \<times> int) list" where
  "server_view w = map (\<lambda>s. (nrdpx_server_is_active (Some s), sv_num_faults s)) (px_servers w)"

definition route_view :: "rheap \<Rightarrow> nat \<Rightarrow> (bool \<times> nat option) option" where
  "route_view h p = map_option (\<lambda>r. (rt_cached r, rt_server r)) (h p)"

text \<open>The faults that remain, and the weight of a route.\<close>

definition credit :: "int \<Rightarrow> bool \<times> int \<Rightarrow> nat" where
  "credit m v = (if fst v then Suc (nat (m - snd v)) else 0)"

definition credits :: "nrdpx_proxy_t \<Rightarrow> nat" where
  "credits w = sum_list (map (credit (px_max_faults w)) (server_view w))"

definition weight :: "bool list \<Rightarrow> (bool \<times> nat option) option \<Rightarrow> nat" where
  "weight sv r = (case r of Some (cached, Some s) \<Rightarrow> if sv ! s then 0 else if cached then 1 else 2 | _ \<Rightarrow> 0)"

definition weights :: "nrdpx_proxy_t \<Rightarrow> nrdpx_channel_t list \<Rightarrow> nat" where
  "weights w cs = sum_list (map (\<lambda>c. weight (map fst (server_view w)) (route_view (px_routes w) (ch_route c))) cs)"

text \<open>What the loop leaves alone for a channel: its route as the measure sees it, and the place of
  the route in the cache.\<close>

definition same_routes :: "nrdpx_channel_t list \<Rightarrow> nrdpx_proxy_t \<Rightarrow> nrdpx_proxy_t \<Rightarrow> bool" where
  "same_routes cs w w' \<longleftrightarrow> px_max_faults w' = px_max_faults w
     \<and> (\<forall>c\<in>set cs. route_view (px_routes w') (ch_route c) = route_view (px_routes w) (ch_route c)
        \<and> (\<forall>k. cache_tab (px_cache w) k = Some (ch_route c) \<longrightarrow> cache_tab (px_cache w') k = Some (ch_route c)))"

lemma same_routesI:
  assumes "px_max_faults w' = px_max_faults w"
    "\<And>c. c \<in> set cs \<Longrightarrow> route_view (px_routes w') (ch_route c) = route_view (px_routes w) (ch_route c)"
    "\<And>c k. c \<in> set cs \<Longrightarrow> cache_tab (px_cache w) k = Some (ch_route c) \<Longrightarrow> cache_tab (px_cache w') k = Some (ch_route c)"
  shows "same_routes cs w w'"
  using assms by (simp add: same_routes_def)

lemma same_routes_refl [simp]: "same_routes cs w w"
  by (simp add: same_routes_def)

lemma same_routes_trans: "same_routes cs w1 w2 \<Longrightarrow> same_routes cs w2 w3 \<Longrightarrow> same_routes cs w1 w3"
  by (simp add: same_routes_def)

lemma same_routes_sub: "same_routes cs w w' \<Longrightarrow> set cs' \<subseteq> set cs \<Longrightarrow> same_routes cs' w w'"
  by (auto simp: same_routes_def)

text \<open>The routes of channels are in use, so the cache does not drop them.\<close>

lemma channel_route_busy:
  assumes ok: "world_ok w" and c: "c \<in> set (px_channels w)"
  shows "\<exists>r. px_routes w (ch_route c) = Some r \<and> rt_num_slots r \<noteq> 0"
proof -
  obtain r where r: "px_routes w (ch_route c) = Some r" using accountsD(1) [OF world_okD(2) [OF ok] c] by blast
  have "0 < route_slots (px_channels w) (ch_route c)"
    unfolding route_slots_def using c by (intro tally_pos [of c]) simp_all
  with accountsD(3) [OF world_okD(2) [OF ok] r] r show ?thesis by auto
qed

subsection \<open>Creating a channel\<close>

text \<open>The route of a new channel: a cached one to another server than the one to avoid, or a new
  one, to an active server if it has any.\<close>

definition route_choice ::
  "nat option \<Rightarrow> string \<Rightarrow> nrdpx_proxy_t \<Rightarrow> nat \<Rightarrow> nrdpx_proxy_t \<Rightarrow> bool" where
  "route_choice nosvr host w p w' \<longleftrightarrow> (\<exists>r. px_routes w' p = Some r \<and>
     (rt_cached r \<and> rt_server r \<noteq> nosvr \<and> cache_tab (px_cache w) host = Some p \<and> cache_tab (px_cache w') host = Some p
      \<or> \<not> rt_cached r \<and> px_routes w p = None
        \<and> (\<forall>s. rt_server r = Some s \<longrightarrow> nrdpx_server_is_active (Some (px_servers w ! s)))))"

lemma channel_route_view:
  assumes ok: "world_ok w" and cr: "channel_route env a host nosvr w = Some (p, w')"
  shows "same_routes (px_channels w) w w' \<and> route_choice nosvr host w p w'
    \<and> px_servers w' = px_servers w \<and> px_channels w' = px_channels w"
proof -
  obtain found ca h where f: "cache_find (en_time env) host (px_cache w) (px_routes w) = Some (found, ca, h)"
    "cache_ok ca h" "frees_idle (px_routes w) h" "cache_tab ca \<subseteq>\<^sub>m cache_tab (px_cache w)"
    "\<And>p. found = Some p \<Longrightarrow> cache_tab ca host = Some p"
    "\<And>k p. cache_tab (px_cache w) k = Some p \<Longrightarrow> \<not> route_idle (px_routes w) p \<Longrightarrow> cache_tab ca k = Some p"
    using rc.find_law [OF world_okD(1) [OF ok], of "en_time env" host] by blast
  have kept: "same_routes (px_channels w) w (w\<lparr>px_cache := ca', px_routes := h'(q \<mapsto> r), px_next_route := n\<rparr>)"
    "same_routes (px_channels w) w (w\<lparr>px_cache := ca', px_routes := h'\<rparr>)"
    if h': "frees_idle (px_routes w) h'" and q: "px_routes w q = None"
      and t: "\<And>k p. cache_tab (px_cache w) k = Some p \<Longrightarrow> \<not> route_idle (px_routes w) p \<Longrightarrow> cache_tab ca' k = Some p"
    for ca' h' q r n
  proof -
    have c: "h' (ch_route c) = px_routes w (ch_route c)" "\<not> route_idle (px_routes w) (ch_route c)" "ch_route c \<noteq> q"
      if "c \<in> set (px_channels w)" for c
      using channel_route_busy [OF ok that] frees_idle_busy [OF h'] q by (auto simp: route_idle_def)
    show "same_routes (px_channels w) w (w\<lparr>px_cache := ca', px_routes := h'(q \<mapsto> r), px_next_route := n\<rparr>)"
      "same_routes (px_channels w) w (w\<lparr>px_cache := ca', px_routes := h'\<rparr>)"
      by (rule same_routesI; use c t in \<open>simp add: route_view_def\<close>)+
  qed
  have fresh: "px_routes w (px_next_route w) = None" using world_okD(3) [OF ok] by simp
  let ?r = "route_scan (en_fl env) a nosvr (px_clients w) (px_servers w) (enumerate 0 (px_balancers w)) [] new_route"
  have scan: "\<not> rt_cached ?r \<and> (\<forall>s. rt_server ?r = Some s \<longrightarrow> nrdpx_server_is_active (Some (px_servers w ! s)))"
  proof -
    have "\<forall>b\<in>snd ` set (enumerate 0 (px_balancers w)). balancer_ok (length (px_clients w)) (length (px_servers w)) b"
      using world_okD(6) [OF ok] by (metis enumerate_eq_zip image_set map_snd_enumerate)
    from route_scan_props [OF this, of "[]" new_route "en_fl env" a nosvr] new_route_server show ?thesis
      by (fastforce simp: new_route_def eligible_def server_usable_def)
  qed
  have new: ?thesis
    if "w' = w\<lparr>px_cache := ca', px_routes := h'(px_next_route w \<mapsto> ?r), px_next_route := px_next_route w + 1\<rparr>"
      "p = px_next_route w" "frees_idle (px_routes w) h'"
      "\<And>k p. cache_tab (px_cache w) k = Some p \<Longrightarrow> \<not> route_idle (px_routes w) p \<Longrightarrow> cache_tab ca' k = Some p"
    for ca' h'
    using kept(1) [OF that(3) fresh that(4)] that(1,2) scan fresh by (simp add: route_choice_def)
  show ?thesis
  proof (cases found)
    case None
    with cr f(1) have w': "w' = w\<lparr>px_cache := ca, px_routes := h(px_next_route w \<mapsto> ?r), px_next_route := px_next_route w + 1\<rparr>"
      "p = px_next_route w" by (auto simp: channel_route_def Let_def)
    from new [OF w' f(3,6)] show ?thesis by blast
  next
    case (Some q)
    from f(5) [OF Some] rc.tab_alive [OF f(2)] obtain r where r: "h q = Some r" "rt_cached r" by blast
    show ?thesis
    proof (cases "rt_server r = nosvr")
      case True
      obtain ca1 h1 where rm: "cache_remove host ca h = Some (ca1, h1)" "frees_idle h h1"
        "\<And>k p. cache_tab ca k = Some p \<Longrightarrow> \<not> route_idle h p \<Longrightarrow> cache_tab ca1 k = Some p"
        using rc.remove_law [OF f(2), of host] by blast
      have idle: "\<not> route_idle (px_routes w) p \<Longrightarrow> \<not> route_idle h p" for p
        using frees_idle_sub [OF f(3)] by (auto simp: route_idle_def)
      from cr f(1) Some r True rm have w':
        "w' = w\<lparr>px_cache := ca1, px_routes := h1(px_next_route w \<mapsto> ?r), px_next_route := px_next_route w + 1\<rparr>"
        "p = px_next_route w" by (auto simp: channel_route_def Let_def)
      show ?thesis
        by (rule new [OF w' frees_idle_trans [OF f(3) rm(2)]]) (use f(6) rm(3) idle in blast)
    next
      case False
      with cr f(1) Some r have w': "w' = w\<lparr>px_cache := ca, px_routes := h\<rparr>" "p = q"
        by (auto simp: channel_route_def Let_def)
      have "cache_tab (px_cache w) host = Some q" using f(4,5) [OF ] Some by (auto simp: map_le_def dom_def)
      with kept(2) [OF f(3) fresh f(6)] w' r False f(5) Some show ?thesis by (simp add: route_choice_def)
    qed
  qed
qed

lemma channel_new_view:
  assumes "channel_new env src dst p now w = Some (c, w')"
  shows "route_view (px_routes w') q = route_view (px_routes w) q" "px_cache w' = px_cache w"
    "server_view w' = server_view w" "px_max_faults w' = px_max_faults w" "px_channels w' = px_channels w"
    "ch_route c = p" "ch_source c = src"
  using assms
  by (auto simp: channel_new_def Let_def route_view_def server_view_def map_update_same nrdpx_server_is_active_def
      split: Option.bind_splits)

lemma create_done_view:
  assumes cd: "create_done env host c p w = Some w'" and r: "px_routes w p = Some r"
    and other: "\<not> rt_cached r \<Longrightarrow> \<forall>x\<in>set (px_channels w). ch_route x \<noteq> p"
  shows "same_routes (px_channels w) w w'" "server_view w' = server_view w" "px_channels w' = px_channels w @ [c]"
    "\<exists>r'. px_routes w' p = Some r' \<and> rt_server r' = rt_server r
      \<and> (rt_cached r' \<longrightarrow> (if rt_cached r then px_cache w' = px_cache w else cache_tab (px_cache w') host = Some p))
      \<and> (rt_cached r \<longrightarrow> rt_cached r')"
proof -
  have "same_routes (px_channels w) w w' \<and> server_view w' = server_view w \<and> px_channels w' = px_channels w @ [c]
    \<and> (\<exists>r'. px_routes w' p = Some r' \<and> rt_server r' = rt_server r
      \<and> (rt_cached r' \<longrightarrow> (if rt_cached r then px_cache w' = px_cache w else cache_tab (px_cache w') host = Some p))
      \<and> (rt_cached r \<longrightarrow> rt_cached r'))"
  proof (cases "rt_cached r")
    case True
    with cd r have "w' = add_channel c w" by (simp add: create_done_def)
    with True r show ?thesis by (simp add: add_channel_def same_routes_def server_view_def)
  next
    case False
    from cd r False obtain added ca h where ad: "cache_add (en_time env) host p (px_cache w) (px_routes w) = Some (added, ca, h)"
      and w': "w' = add_channel c (w\<lparr>px_cache := ca, px_routes := h\<rparr>)"
      by (auto simp: create_done_def split: Option.bind_splits)
    have h: "route_view h q = route_view (px_routes w) q" if "q \<noteq> p" for q
      using ad r that by (auto simp: cache_add_def route_view_def split: if_splits option.splits)
    have hp: "\<exists>r'. h p = Some r' \<and> rt_server r' = rt_server r \<and> (rt_cached r' \<longrightarrow> cache_tab ca host = Some p)"
      using ad r False by (auto simp: cache_add_def cache_tab_def map_add_def split: if_splits option.splits)
    have t: "cache_tab ca k = Some q" if "cache_tab (px_cache w) k = Some q" for k q
      using ad that by (auto simp: cache_add_def cache_tab_def map_add_def split: if_splits option.splits Option.bind_splits)
    have "same_routes (px_channels w) w w'"
      by (rule same_routesI) (use h t other [OF False] in \<open>simp_all add: w' add_channel_def\<close>)
    with hp False show ?thesis by (simp add: w' add_channel_def server_view_def)
  qed
  then show "same_routes (px_channels w) w w'" "server_view w' = server_view w" "px_channels w' = px_channels w @ [c]"
    "\<exists>r'. px_routes w' p = Some r' \<and> rt_server r' = rt_server r
      \<and> (rt_cached r' \<longrightarrow> (if rt_cached r then px_cache w' = px_cache w else cache_tab (px_cache w') host = Some p))
      \<and> (rt_cached r \<longrightarrow> rt_cached r')"
    by blast+
qed

lemma route_ready_other:
  assumes "route_ready p w" "px_routes w p = Some r" "\<not> rt_cached r"
  shows "\<forall>x\<in>set (px_channels w). ch_route x \<noteq> p"
proof
  fix x assume x: "x \<in> set (px_channels w)"
  have "world_ok (w\<lparr>px_routes := (px_routes w)(p := None)\<rparr>)" using assms by (auto simp: route_ready_def)
  from channel_route_busy [OF this, of x] x show "ch_route x \<noteq> p" by auto
qed

lemma create_failed_view:
  assumes cf: "create_failed host s1 s2 (Some p) w = Some w'" and rdy: "route_ready p w"
  shows "same_routes (px_channels w) w w' \<and> server_view w' = server_view w \<and> px_channels w' = px_channels w"
proof -
  obtain r where r: "px_routes w p = Some r" using rdy by (auto simp: route_ready_def)
  let ?fds = "nrdpx_socket_close (nrdpx_socket_close (px_fds w) s1) s2"
  show ?thesis
  proof (cases "rt_cached r")
    case True
    with rdy r have ok: "world_ok w" by (auto simp: route_ready_def)
    obtain ca h where rm: "cache_remove host (px_cache w) (px_routes w) = Some (ca, h)" "frees_idle (px_routes w) h"
      "\<And>k p. cache_tab (px_cache w) k = Some p \<Longrightarrow> \<not> route_idle (px_routes w) p \<Longrightarrow> cache_tab ca k = Some p"
      using rc.remove_law [OF world_okD(1) [OF ok], of host] by blast
    with cf r True have w': "w' = w\<lparr>px_fds := ?fds, px_cache := ca, px_routes := h\<rparr>"
      by (auto simp: create_failed_def Let_def)
    have c: "h (ch_route c) = px_routes w (ch_route c)" "\<not> route_idle (px_routes w) (ch_route c)"
      if "c \<in> set (px_channels w)" for c
      using channel_route_busy [OF ok that] frees_idle_busy [OF rm(2)] by (auto simp: route_idle_def)
    have "same_routes (px_channels w) w w'"
      by (rule same_routesI) (use c rm(3) in \<open>simp_all add: w' route_view_def\<close>)
    then show ?thesis by (simp add: w' server_view_def)
  next
    case False
    with cf r have w': "w' = w\<lparr>px_fds := ?fds, px_routes := (px_routes w)(p := None)\<rparr>"
      by (auto simp: create_failed_def Let_def)
    have "same_routes (px_channels w) w w'"
      by (rule same_routesI) (use route_ready_other [OF rdy r False] in \<open>simp_all add: w' route_view_def\<close>)
    then show ?thesis by (simp add: w' server_view_def)
  qed
qed

text \<open>A channel that was attached: its route has a server; if the route is cached it is in the cache
  for the channel's host; and the server is active, or the route was in the cache already, with
  another server than the one to avoid.\<close>

definition attached :: "nat option \<Rightarrow> string \<Rightarrow> nrdpx_proxy_t \<Rightarrow> nrdpx_channel_t \<Rightarrow> nrdpx_proxy_t \<Rightarrow> bool" where
  "attached nosvr host w c w' \<longleftrightarrow> (\<exists>r s. px_routes w' (ch_route c) = Some r \<and> rt_server r = Some s
     \<and> (rt_cached r \<longrightarrow> cache_tab (px_cache w') host = Some (ch_route c))
     \<and> (nrdpx_server_is_active (Some (px_servers w ! s))
        \<or> rt_cached r \<and> Some s \<noteq> nosvr \<and> cache_tab (px_cache w) host = Some (ch_route c)))"

lemma channel_create_view:
  assumes ok: "world_ok w" and cc: "nrdpx_channel_create env src now nosvr w = Some (res, w')"
  shows "same_routes (px_channels w) w w' \<and> server_view w' = server_view w
    \<and> (px_channels w' = px_channels w \<or>
       (\<exists>c a. px_channels w' = px_channels w @ [c] \<and> ch_source c = src \<and> en_peer env src = Some a
          \<and> attached nosvr (addr_to_host (en_res env) a True) w c w'))"
proof -
  have early: ?thesis if "create_failed host (-1) src None w = Some w'" for host
    using that by (auto simp: create_failed_def same_routes_def server_view_def)
  show ?thesis
  proof (cases "en_peer env src")
    case None
    with cc show ?thesis by (intro early [of "[]"]) (auto simp: nrdpx_channel_create_def split: Option.bind_splits)
  next
    case (Some a)
    let ?h = "addr_to_host (en_res env) a True"
    show ?thesis
    proof (cases "?h = []")
      case True
      with Some cc show ?thesis by (intro early [of "[]"]) (auto simp: nrdpx_channel_create_def split: Option.bind_splits)
    next
      case False
      obtain p w1 where w1: "channel_route env a ?h nosvr w = Some (p, w1)" "route_ready p w1"
        using channel_route_ok [OF ok, of env a ?h nosvr] by blast
      from channel_route_view [OF ok w1(1)] have v1: "same_routes (px_channels w) w w1" "route_choice nosvr ?h w p w1"
        "px_servers w1 = px_servers w" "px_channels w1 = px_channels w" by auto
      from cc Some False w1(1) obtain k s2 w2 where
        cn: "channel_connect env p w1 = Some (k, s2, w2)"
        and rest: "(if \<not> k then do { w \<leftarrow> create_failed ?h s2 src (Some p) w2; Some (None, w) }
          else do { (c, w) \<leftarrow> channel_new env src s2 p now w2; w \<leftarrow> create_done env ?h c p w; Some (Some (ch_addr c), w) })
          = Some (res, w')"
        by (auto simp: nrdpx_channel_create_def Let_def split: Option.bind_splits)
      obtain fds where w2: "w2 = w1\<lparr>px_fds := fds\<rparr>" using channel_connect_config [OF cn] by blast
      have rdy: "route_ready p w2" using w1(2) by (simp add: w2)
      have v2: "same_routes (px_channels w) w w2" "route_choice nosvr ?h w p w2" "server_view w2 = server_view w"
        "px_channels w2 = px_channels w" "px_servers w2 = px_servers w"
        using v1 by (simp_all add: w2 same_routes_def route_choice_def server_view_def)
      show ?thesis
      proof (cases k)
        case False
        with rest obtain "create_failed ?h s2 src (Some p) w2 = Some w'" by (auto split: Option.bind_splits)
        from create_failed_view [OF this rdy] v2 same_routes_trans [OF v2(1)] show ?thesis by simp
      next
        case True
        with rest obtain c w3 where w3: "channel_new env src s2 p now w2 = Some (c, w3)"
          "create_done env ?h c p w3 = Some w'" by (auto split: Option.bind_splits)
        note n = channel_new_view [OF w3(1)]
        obtain r where r: "px_routes w2 p = Some r" "rt_server r \<noteq> None"
          using channel_connect_server [of env p w1 s2 w2] cn True by (auto simp: w2)
        then obtain s where s: "rt_server r = Some s" by blast
        from n(1) [of p] r(1) obtain r3 where r3: "px_routes w3 p = Some r3" "rt_cached r3 = rt_cached r"
          "rt_server r3 = rt_server r" by (auto simp: route_view_def)
        have "\<not> rt_cached r3 \<Longrightarrow> \<forall>x\<in>set (px_channels w3). ch_route x \<noteq> p"
          using route_ready_other [OF rdy r(1)] n(5) r3(2) by simp
        note d = create_done_view [OF w3(2) r3(1) this]
        have v3: "same_routes (px_channels w) w w3"
          using n v2(1) by (simp add: same_routes_def)
        from d(4) obtain r' where r': "px_routes w' p = Some r'" "rt_server r' = Some s"
          "rt_cached r' \<Longrightarrow> if rt_cached r then px_cache w' = px_cache w2 else cache_tab (px_cache w') ?h = Some p"
          "rt_cached r \<Longrightarrow> rt_cached r'"
          using r3 s n(2) by auto
        have "attached nosvr ?h w c w'"
        proof (cases "rt_cached r")
          case True
          with v2(2) r s r' show ?thesis by (auto simp: attached_def route_choice_def n(6))
        next
          case False
          with v2(2) r(1) s have "nrdpx_server_is_active (Some (px_servers w ! s))" by (auto simp: route_choice_def)
          with False r' show ?thesis by (auto simp: attached_def n(6))
        qed
        moreover have "same_routes (px_channels w) w w'"
          using same_routes_trans [OF v3] d(1) n(5) v2(4) by simp
        ultimately show ?thesis using d(2,3) n(3,5,7) v2(3,4) Some by auto
      qed
    qed
  qed
qed

subsection \<open>Deleting a channel, reading and writing\<close>

lemma delete_view:
  assumes ok: "world_ok w" and i: "i < length (px_channels w)"
    and del: "del_channel t (ch_addr (px_channels w ! i)) w = Some w'"
  shows "same_routes (px_channels w') w w' \<and> server_view w' = server_view w"
proof -
  let ?c = "px_channels w ! i" and ?cs = "take i (px_channels w) @ drop (Suc i) (px_channels w)"
  have w': "world_ok w'" using del_channel_ok [OF ok, of t "ch_addr ?c"] del by auto
  obtain r where r: "px_routes w (ch_route ?c) = Some r" using channel_route_busy [OF ok nth_mem [OF i]] by blast
  have d: "channel_destroy t ?c (w\<lparr>px_channels := ?cs\<rparr>) = Some w'"
    using del erase_channel_nth [OF world_okD(4) [OF ok] i] by (simp add: del_channel_def)
  then have parts: "px_cache w' = px_cache w" "px_max_faults w' = px_max_faults w" "server_view w' = server_view w"
    by (auto simp: channel_destroy_def Let_def server_view_def map_update_same nrdpx_server_is_active_def
        split: Option.bind_splits if_splits)
  have "route_view (px_routes w') (ch_route x) = route_view (px_routes w) (ch_route x)"
    if x: "x \<in> set (px_channels w')" for x
  proof (cases "rt_cached r")
    case True
    with d r show ?thesis by (auto simp: channel_destroy_def Let_def route_view_def split: Option.bind_splits)
  next
    case False
    with d r have h: "px_routes w' = (px_routes w)(ch_route ?c := None)"
      by (auto simp: channel_destroy_def Let_def split: Option.bind_splits)
    moreover have "px_routes w' (ch_route x) \<noteq> None" using channel_route_busy [OF w' x] by blast
    ultimately show ?thesis by (auto simp: route_view_def)
  qed
  then have "same_routes (px_channels w') w w'" by (intro same_routesI) (simp_all add: parts)
  with parts show ?thesis by blast
qed

interpretation io_rest: io_invariant "\<lambda>w. px_cache w = C \<and> px_max_faults w = M" for C M
  by unfold_locales (auto simp: set_chan_def)

lemma chan_io_view:
  assumes "world_ok w" "i < length (px_channels w)" "chan_io le k i w = Some (alive, w')"
  shows "same_routes cs w w'"
proof -
  have "px_routes w' = px_routes w" using chan_io_ok [OF assms(1,2), of le k] assms(3) by (auto simp: keeps_def)
  moreover have "px_cache w' = px_cache w" "px_max_faults w' = px_max_faults w"
    using io_rest.chan_io_holds [OF assms(3)] by blast+
  ultimately show ?thesis by (simp add: same_routes_def)
qed

subsection \<open>The places of the channels' routes in the cache\<close>

text \<open>A channel whose route is cached has its route under the host of its peer.\<close>

definition keyed :: "(int \<Rightarrow> addr_t option) \<Rightarrow> resolver \<Rightarrow> nrdpx_proxy_t \<Rightarrow> nrdpx_channel_t list \<Rightarrow> bool" where
  "keyed peer R w cs \<longleftrightarrow> (\<forall>c\<in>set cs. \<forall>s. route_view (px_routes w) (ch_route c) = Some (True, s) \<longrightarrow>
     (\<exists>a. peer (ch_source c) = Some a \<and> cache_tab (px_cache w) (addr_to_host R a True) = Some (ch_route c)))"

lemma keyed_same: "same_routes cs w w' \<Longrightarrow> keyed peer R w cs \<Longrightarrow> keyed peer R w' cs"
  unfolding keyed_def same_routes_def by metis

lemma keyed_sub: "keyed peer R w cs \<Longrightarrow> set cs' \<subseteq> set cs \<Longrightarrow> keyed peer R w cs'"
  by (auto simp: keyed_def)

lemma keyed_attached:
  assumes "attached nosvr (addr_to_host R a True) w0 c w" "peer (ch_source c) = Some a"
  shows "keyed peer R w [c]"
  using assms by (auto simp: keyed_def attached_def route_view_def)

lemma keyed_append [simp]: "keyed peer R w (cs @ cs') \<longleftrightarrow> keyed peer R w cs \<and> keyed peer R w cs'"
  by (auto simp: keyed_def)

text \<open>Channels are compared by what \<open>keyed\<close> and \<open>same_routes\<close> read of them.\<close>

lemma keyed_channels:
  "map (\<lambda>c. (ch_route c, ch_source c)) cs' = map (\<lambda>c. (ch_route c, ch_source c)) cs \<Longrightarrow>
     keyed peer R w cs' = keyed peer R w cs"
proof -
  assume m: "map (\<lambda>c. (ch_route c, ch_source c)) cs' = map (\<lambda>c. (ch_route c, ch_source c)) cs"
  have k: "keyed peer R w cs \<longleftrightarrow> (\<forall>(q, f)\<in>set (map (\<lambda>c. (ch_route c, ch_source c)) cs). \<forall>s. route_view (px_routes w) q = Some (True, s) \<longrightarrow>
     (\<exists>a. peer f = Some a \<and> cache_tab (px_cache w) (addr_to_host R a True) = Some q))" for cs
    by (auto simp: keyed_def)
  show ?thesis unfolding k m ..
qed

lemma chan_pass_moves_keyed:
  assumes ok: "world_ok w" and i: "i < length (px_channels w)"
    and err: "connect_error le k w (px_channels w ! i) = 0" and key: "keyed peer R w (px_channels w)"
  shows "\<exists>i' w'. chan_pass le k i w = Some (i', w') \<and> world_ok w'
    \<and> drop i' (px_channels w') = drop (Suc i) (px_channels w) \<and> keyed peer R w' (px_channels w')"
proof -
  obtain i' w' where p: "chan_pass le k i w = Some (i', w')" "world_ok w'"
    "drop i' (px_channels w') = drop (Suc i) (px_channels w)"
    using chan_pass_moves [OF ok i err] by blast
  have "keyed peer R w' (px_channels w')"
  proof (cases "le_sel_rc le = 0")
    case True
    with p(1) err key show ?thesis by (simp add: chan_pass_def Let_def)
  next
    case False
    obtain alive w1 where io: "chan_io le k i w = Some (alive, w1)" "keeps i w w1"
      using chan_io_ok [OF ok i, of le k] by blast
    have len: "length (px_channels w1) = length (px_channels w)" and ok1: "world_ok w1"
      and addr: "ch_addr (px_channels w1 ! i) = ch_addr (px_channels w ! i)"
      using io(2) by (simp_all add: keeps_def same_chan_def)
    have at: "ch_route (px_channels w1 ! j) = ch_route (px_channels w ! j)
      \<and> ch_source (px_channels w1 ! j) = ch_source (px_channels w ! j)" for j
      using io(2) by (cases "j = i") (simp_all add: keeps_def same_chan_def)
    have "map (\<lambda>c. (ch_route c, ch_source c)) (px_channels w1) = map (\<lambda>c. (ch_route c, ch_source c)) (px_channels w)"
      by (rule nth_equalityI) (use at len in simp_all)
    from keyed_channels [OF this] keyed_same [OF chan_io_view [OF ok i io(1)] key]
    have key1: "keyed peer R w1 (px_channels w1)" by blast
    show ?thesis
    proof (cases alive)
      case True
      with p(1) err False io(1) key1 show ?thesis by (simp add: chan_pass_def Let_def)
    next
      case dead: False
      with p(1) err False io(1) have d: "del_channel (en_time (le_env le k)) (ch_addr (px_channels w1 ! i)) w1 = Some w'"
        by (auto simp: chan_pass_def Let_def nrdpx_channel_delete_def addr split: Option.bind_splits)
      have "set (px_channels w') \<subseteq> set (px_channels w1)"
        using del_channel_nth [OF ok1, of i "en_time (le_env le k)"] d i len by (auto dest: in_set_takeD in_set_dropD)
      with keyed_same [OF _ keyed_sub [OF key1]] delete_view [OF ok1 _ d] i len show ?thesis by auto
    qed
  qed
  with p show ?thesis by blast
qed

text \<open>A channel that is made for a new connection is keyed.\<close>

lemma channel_create_keyed:
  assumes ok: "world_ok w" and cc: "nrdpx_channel_create env src now nosvr w = Some (res, w')"
    and env: "en_peer env = peer" "en_res env = R" and key: "keyed peer R w (px_channels w)"
  shows "keyed peer R w' (px_channels w')"
  using channel_create_view [OF ok cc] keyed_same [OF _ key] env by (auto intro: keyed_attached)

subsection \<open>A failed connection lowers the measure\<close>

lemma sum_list_less:
  fixes xs :: "nat list"
  assumes "i < length xs" "y < xs ! i"
  shows "sum_list (xs[i := y]) < sum_list xs"
proof -
  have "xs ! i \<le> sum_list xs" using elem_le_sum_list [OF assms(1)] .
  with assms show ?thesis by (simp add: sum_list_update)
qed

text \<open>The fault of the server: an active server has fewer left, an inactive one stays inactive.\<close>

lemma count_fault_view:
  fixes w s
  assumes s: "s < length (px_servers w)"
  defines "w0 \<equiv> w\<lparr>px_servers := (px_servers w)[s := count_fault (px_max_faults w) (px_servers w ! s)]\<rparr>"
  shows "nrdpx_server_is_active (Some (px_servers w ! s)) \<Longrightarrow> credits w0 < credits w"
    "\<not> nrdpx_server_is_active (Some (px_servers w ! s)) \<Longrightarrow>
       credits w0 = credits w \<and> map fst (server_view w0) = map fst (server_view w)"
proof -
  let ?s = "px_servers w ! s" and ?m = "px_max_faults w"
  let ?v = "(nrdpx_server_is_active (Some (count_fault ?m ?s)), sv_num_faults (count_fault ?m ?s))"
  have view: "server_view w0 = (server_view w)[s := ?v]" by (simp add: w0_def server_view_def map_update)
  have at: "server_view w ! s = (nrdpx_server_is_active (Some ?s), sv_num_faults ?s)" "s < length (server_view w)"
    using s by (simp_all add: server_view_def)
  have sum: "credits w0 = sum_list ((map (credit ?m) (server_view w))[s := credit ?m ?v])"
    by (simp add: credits_def view map_update) (simp add: w0_def)
  have same: "nrdpx_server_is_active (Some (t\<lparr>sv_num_faults := n\<rparr>)) = nrdpx_server_is_active (Some t)" for t n
    by (simp add: nrdpx_server_is_active_def)
  show "credits w0 < credits w" if "nrdpx_server_is_active (Some ?s)"
  proof -
    have "credit ?m ?v < credit ?m (server_view w ! s)"
      using that by (auto simp: at(1) credit_def count_fault_def Let_def same)
    then show ?thesis unfolding sum using at(2) by (simp add: credits_def sum_list_less)
  qed
  show "credits w0 = credits w \<and> map fst (server_view w0) = map fst (server_view w)"
    if "\<not> nrdpx_server_is_active (Some ?s)"
  proof -
    have off: "\<not> fst ?v" using that by (auto simp: count_fault_def Let_def same)
    then have e: "credit ?m ?v = map (credit ?m) (server_view w) ! s" "fst ?v = map fst (server_view w) ! s"
      using that at by (simp_all add: credit_def)
    have "(map (credit ?m) (server_view w))[s := credit ?m ?v] = map (credit ?m) (server_view w)"
      "(map fst (server_view w))[s := fst ?v] = map fst (server_view w)"
      by (simp_all only: e list_update_id)
    then show ?thesis unfolding sum view map_update by (simp add: credits_def)
  qed
qed

text \<open>What a failed connection does: the channel goes, another may come at the end of the list.\<close>

lemma connect_failed_view:
  assumes ok: "world_ok w" and i: "i < length (px_channels w)" and key: "keyed peer R w (px_channels w)"
    and env: "en_peer (le_env le k) = peer" "en_res (le_env le k) = R"
  shows "\<exists>w' new. connect_failed le k i w = Some w' \<and> world_ok w' \<and> keyed peer R w' (px_channels w')
    \<and> drop i (px_channels w') = drop (Suc i) (px_channels w) @ new
    \<and> (new = [] \<or> (\<exists>c. new = [c]) \<and> (credits w' < credits w \<or>
        credits w' = credits w \<and> weights w' (drop i (px_channels w')) < weights w (drop i (px_channels w))))"
proof -
  let ?c = "px_channels w ! i" and ?cs = "px_channels w"
  obtain s where s: "chan_server ?c w = Some s" "s < length (px_servers w)"
    using chan_server_ok [OF ok nth_mem [OF i]] by blast
  let ?sv = "px_servers w ! s"
  define w0 where "w0 = w\<lparr>px_servers := (px_servers w)[s := count_fault (px_max_faults w) ?sv]\<rparr>"
  have ok0: "world_ok w0" unfolding w0_def using s(2) by (intro set_server_ok [OF ok]) simp_all
  have parts0: "px_channels w0 = ?cs" "px_routes w0 = px_routes w" "px_cache w0 = px_cache w" "same_routes ?cs w w0"
    by (simp_all add: w0_def same_routes_def)
  obtain res w1 where cc: "nrdpx_channel_create (le_env le k) (ch_source ?c) (le_now le) (Some s) w0 = Some (res, w1)"
    and ok1: "world_ok w1" using channel_create_ok [OF ok0, of "le_env le k" "ch_source ?c" "le_now le" "Some s"] by blast
  from channel_create_view [OF ok0 cc] env parts0(1) obtain new where
    v1: "same_routes ?cs w0 w1" "server_view w1 = server_view w0" "px_channels w1 = ?cs @ new"
    and new: "new = [] \<or> (\<exists>c' a. new = [c'] \<and> ch_source c' = ch_source ?c \<and> peer (ch_source ?c) = Some a
      \<and> attached (Some s) (addr_to_host R a True) w0 c' w1)" by auto
  define w2 where "w2 = set_chan i (?c\<lparr>ch_source := NRD_NOSOCK\<rparr>) w1"
  have at1: "px_channels w1 ! i = ?c" "i < length (px_channels w1)" using i v1(3) by (simp_all add: nth_append)
  have ok2: "world_ok w2" unfolding w2_def
    using chan_bufs [OF ok1 at1(2)] by (intro set_chan_ok [OF ok1 at1(2)]) (simp_all add: chan_bufs_ok_def at1)
  have i2: "i < length (px_channels w2)" "ch_addr (px_channels w2 ! i) = ch_addr ?c"
    using at1 by (simp_all add: w2_def set_chan_def)
  obtain w3 where del: "del_channel (en_time (le_env le k)) (ch_addr (px_channels w2 ! i)) w2 = Some w3"
    and ok3: "world_ok w3"
    and cs3: "px_channels w3 = take i (px_channels w2) @ drop (Suc i) (px_channels w2)"
    using del_channel_nth [OF ok2 i2(1)] by blast
  have cs3': "px_channels w3 = take i ?cs @ drop (Suc i) ?cs @ new"
    using i by (simp add: cs3 w2_def set_chan_def v1(3))
  from delete_view [OF ok2 i2(1) del] have v3: "same_routes (px_channels w3) w2 w3" "server_view w3 = server_view w2" by auto
  have w21: "same_routes (px_channels w3) w1 w2" "server_view w2 = server_view w1"
    by (simp_all add: w2_def set_chan_def same_routes_def server_view_def)
  note v13 = same_routes_trans [OF w21(1) v3(1)]
  have sv3: "server_view w3 = server_view w0" "credits w3 = credits w0"
    using v3 w21 v1 parts0(4) by (simp_all add: credits_def same_routes_def)
  have sub: "set (take i ?cs @ drop (Suc i) ?cs) \<subseteq> set ?cs" by (auto dest: in_set_takeD in_set_dropD)
  have "set (take i ?cs @ drop (Suc i) ?cs) \<subseteq> set (px_channels w3)" by (auto simp: cs3')
  from same_routes_trans [OF same_routes_sub [OF same_routes_trans [OF parts0(4) v1(1)] sub] same_routes_sub [OF v13 this]]
  have old: "same_routes (take i ?cs @ drop (Suc i) ?cs) w w3" .
  have key3: "keyed peer R w3 (px_channels w3)"
  proof -
    have "keyed peer R w3 (take i ?cs @ drop (Suc i) ?cs)" by (rule keyed_same [OF old keyed_sub [OF key sub]])
    moreover have "keyed peer R w3 new"
    proof (rule disjE [OF new])
      assume "new = []"
      then show ?thesis by (simp add: keyed_def)
    next
      assume "\<exists>c' a. new = [c'] \<and> ch_source c' = ch_source ?c \<and> peer (ch_source ?c) = Some a
        \<and> attached (Some s) (addr_to_host R a True) w0 c' w1"
      then have "keyed peer R w1 new" by (auto intro: keyed_attached)
      moreover have "same_routes new w1 w3" by (rule same_routes_sub [OF v13]) (auto simp: cs3')
      ultimately show ?thesis by (rule keyed_same [rotated])
    qed
    ultimately show ?thesis by (simp add: cs3')
  qed
  have drop3: "drop i (px_channels w3) = drop (Suc i) ?cs @ new" using i by (simp add: cs3')
  have meas: "credits w3 < credits w \<or> credits w3 = credits w \<and> weights w3 (drop i (px_channels w3)) < weights w (drop i ?cs)"
    if "new \<noteq> []"
  proof (cases "nrdpx_server_is_active (Some ?sv)")
    case True
    with count_fault_view(1) [OF s(2)] sv3(2) show ?thesis by (simp add: w0_def)
  next
    case False
    with count_fault_view(2) [OF s(2)] have inact: "credits w0 = credits w" "map fst (server_view w0) = map fst (server_view w)"
      by (simp_all add: w0_def)
    from new that obtain c' a where c': "new = [c']" "ch_source c' = ch_source ?c" "peer (ch_source ?c) = Some a"
      "attached (Some s) (addr_to_host R a True) w0 c' w1" by blast
    from s(1) obtain r where r: "px_routes w (ch_route ?c) = Some r" "rt_server r = Some s"
      by (auto simp: chan_server_def split: Option.bind_splits)
    have off: "\<not> map fst (server_view w) ! s" using s(2) False by (simp add: server_view_def)
    have wc: "weight (map fst (server_view w)) (route_view (px_routes w) (ch_route ?c)) = (if rt_cached r then 1 else 2)"
      using r off by (simp add: weight_def route_view_def)
    from c'(4) obtain r' s' where r': "px_routes w1 (ch_route c') = Some r'" "rt_server r' = Some s'"
      and ch: "nrdpx_server_is_active (Some (px_servers w0 ! s'))
        \<or> rt_cached r' \<and> s' \<noteq> s \<and> cache_tab (px_cache w0) (addr_to_host R a True) = Some (ch_route c')"
      by (auto simp: attached_def)
    have view': "route_view (px_routes w3) (ch_route c') = Some (rt_cached r', Some s')"
      using v13 r' by (simp add: same_routes_def cs3' c'(1) route_view_def)
    have s': "s' < length (px_servers w0)" using accountsD(2) [OF world_okD(2) [OF ok1] r'(1)] r'(2) arg_cong [OF v1(2), of length]
      by (auto simp: refs_ok_def server_view_def)
    have less: "weight (map fst (server_view w3)) (route_view (px_routes w3) (ch_route c'))
        < weight (map fst (server_view w)) (route_view (px_routes w) (ch_route ?c))"
    proof (cases "nrdpx_server_is_active (Some (px_servers w0 ! s'))")
      case True
      then have "map fst (server_view w0) ! s'" using s' by (simp add: server_view_def)
      then have "map fst (server_view w3) ! s'" by (simp only: sv3(1))
      then show ?thesis unfolding wc view' by (simp add: weight_def)
    next
      case False
      with ch have hit: "rt_cached r'" "s' \<noteq> s" "cache_tab (px_cache w) (addr_to_host R a True) = Some (ch_route c')"
        by (simp_all add: parts0)
      have "\<not> rt_cached r"
      proof
        assume "rt_cached r"
        with key r i c'(3) have "cache_tab (px_cache w) (addr_to_host R a True) = Some (ch_route ?c)"
          by (auto simp: keyed_def route_view_def)
        with hit(3) have "ch_route c' = ch_route ?c" by simp
        moreover have "route_view (px_routes w1) (ch_route ?c) = route_view (px_routes w) (ch_route ?c)"
          using same_routes_trans [OF parts0(4) v1(1)] i by (simp add: same_routes_def)
        ultimately show False using r r' hit(2) by (auto simp: route_view_def)
      qed
      then show ?thesis unfolding wc view' using hit(1) by (simp add: weight_def)
    qed
    have rest: "weights w3 (drop (Suc i) ?cs) = weights w (drop (Suc i) ?cs)"
      unfolding weights_def
      by (rule arg_cong [of _ _ sum_list], rule map_cong [OF refl]) (use old inact(2) in \<open>simp add: same_routes_def sv3\<close>)
    have "weights w (drop i ?cs) = weight (map fst (server_view w)) (route_view (px_routes w) (ch_route ?c)) + weights w (drop (Suc i) ?cs)"
      using i by (simp add: weights_def Cons_nth_drop_Suc [symmetric])
    moreover have "weights w3 (drop (Suc i) ?cs @ [c'])
        = weights w3 (drop (Suc i) ?cs) + weight (map fst (server_view w3)) (route_view (px_routes w3) (ch_route c'))"
      by (simp add: weights_def)
    ultimately show ?thesis using inact(1) sv3(2) less rest drop3 c'(1) by simp
  qed
  have run: "connect_failed le k i w = Some w3"
    using s cc del i2(2) at1(1)
    by (simp add: connect_failed_def Let_def nrdpx_channel_delete_def w0_def [symmetric] w2_def [symmetric])
  have "new = [] \<or> (\<exists>c. new = [c])" using new by blast
  with run ok3 key3 drop3 meas show ?thesis by blast
qed

subsection \<open>The loop ends\<close>

lemma chan_loop_more: "chan_loop fuel le k i w = Some (True, w') \<Longrightarrow> fuel \<le> fuel' \<Longrightarrow> chan_loop fuel' le k i w = Some (True, w')"
proof (induction fuel arbitrary: fuel' k i w)
  case 0
  then show ?case by (cases fuel') auto
next
  case (Suc fuel)
  then obtain f where f: "fuel' = Suc f" "fuel \<le> f" by (cases fuel') auto
  with Suc show ?case by (auto split: if_splits Option.bind_splits)
qed

theorem chan_loop_ends:
  assumes env: "\<And>k. en_peer (le_env le k) = peer" "\<And>k. en_res (le_env le k) = R"
    and "world_ok w" "keyed peer R w (px_channels w)"
  shows "\<exists>fuel w'. chan_loop fuel le k i w = Some (True, w') \<and> world_ok w' \<and> keyed peer R w' (px_channels w')"
  using assms(3,4)
proof (induction "(length (drop i (px_channels w)), credits w, weights w (drop i (px_channels w)))" arbitrary: k i w
    rule: wf_induct_rule [OF wf_lex_prod [OF wf_less_than wf_lex_prod [OF wf_less_than wf_less_than]]])
  case less: (1 i w k)
  show ?case
  proof (cases "i < length (px_channels w)")
    case False
    with less(2,3) show ?thesis by (intro exI [of _ 0]) simp
  next
    case True
    have step: ?thesis if "chan_pass le k i w = Some (i', w1)"
      "\<exists>fuel w'. chan_loop fuel le (k + 1) i' w1 = Some (True, w') \<and> world_ok w' \<and> keyed peer R w' (px_channels w')" for i' w1
    proof -
      from that(2) obtain fuel w' where "chan_loop fuel le (k + 1) i' w1 = Some (True, w')" "world_ok w'"
        "keyed peer R w' (px_channels w')" by blast
      with that(1) True show ?thesis by (intro exI [of _ "Suc fuel"]) simp
    qed
    have shorter: "length (drop (Suc i) (px_channels w)) < length (drop i (px_channels w))" using True by simp
    show ?thesis
    proof (cases "connect_error le k w (px_channels w ! i) = 0")
      case no: True
      from chan_pass_moves_keyed [OF less(2) True no less(3)] obtain i' w1 where
        p: "chan_pass le k i w = Some (i', w1)" "world_ok w1" "drop i' (px_channels w1) = drop (Suc i) (px_channels w)"
        "keyed peer R w1 (px_channels w1)" by blast
      show ?thesis by (rule step [OF p(1)], rule less(1)) (use p shorter in simp_all)
    next
      case failed: False
      from connect_failed_view [OF less(2) True less(3) env] obtain w1 new where
        f: "connect_failed le k i w = Some w1" "world_ok w1" "keyed peer R w1 (px_channels w1)"
        "drop i (px_channels w1) = drop (Suc i) (px_channels w) @ new"
        "new = [] \<or> (\<exists>c. new = [c]) \<and> (credits w1 < credits w \<or>
          credits w1 = credits w \<and> weights w1 (drop i (px_channels w1)) < weights w (drop i (px_channels w)))" by blast
      have "chan_pass le k i w = Some (i, w1)" using failed f(1) by (simp add: chan_pass_def Let_def)
      moreover have "((length (drop i (px_channels w1)), credits w1, weights w1 (drop i (px_channels w1))),
          (length (drop i (px_channels w)), credits w, weights w (drop i (px_channels w))))
          \<in> less_than <*lex*> less_than <*lex*> less_than"
        using f(4,5) shorter True by (auto simp del: drop_drop)
      ultimately show ?thesis using less(1) f(2,3) step by blast
    qed
  qed
qed

end
