(* ===== verification/Routing.thy ===== *)
theory Routing
  imports Admission Loop_End
begin

text \<open>
  \<open>nrdpx_channel_create\<close> from end to end: which server a connection is led to and when a channel
  is made at all, without the cache and with it; and what is left in the cache when a connection
  has failed and was tried again.
\<close>

subsection \<open>Connecting to the server of a route\<close>

text \<open>A server answers when it has a port, its host can be interpreted, a socket can be made and the
  connection does not fail at once.\<close>

definition server_answers :: "px_env \<Rightarrow> int set \<Rightarrow> nrdpx_server_t \<Rightarrow> bool" where
  "server_answers env fds sv \<longleftrightarrow> sv_port sv \<noteq> 0 \<and>
     (case host_to_addr (en_res env) (sv_host sv) False of
        None \<Rightarrow> False
      | Some a \<Rightarrow>
          (let a = fst (set_addr_port a (sv_port sv)); sock = fst (nrdpx_socket_create (en_os env) fds (sa_family a) False)
           in sock \<noteq> NRD_NOSOCK
              \<and> (nrdpx_socket_connect (en_os env) sock (Some a) = 0 \<or> \<not> is_error_fatal (en_errno env) True)))"

definition complete_route :: "nrdpx_route_t \<Rightarrow> bool" where
  "complete_route r \<longleftrightarrow> rt_balancer r \<noteq> None \<and> rt_client r \<noteq> None \<and> rt_server r \<noteq> None"

lemma channel_connect_answers:
  assumes "px_routes w p = Some r" "complete_route r" "rt_server r = Some si" "si < length (px_servers w)"
  shows "\<exists>s fds. channel_connect env p w = Some (server_answers env (px_fds w) (px_servers w ! si), s, w\<lparr>px_fds := fds\<rparr>)"
proof -
  let ?sv = "px_servers w ! si"
  obtain b ci where c: "rt_balancer r = Some b" "rt_client r = Some ci" using assms(2) by (auto simp: complete_route_def)
  have start: "channel_connect env p w =
      (if sv_port ?sv = 0 then Some (False, -1, w)
       else case host_to_addr (en_res env) (sv_host ?sv) False of
          None \<Rightarrow> Some (False, -1, w)
        | Some svr_addr \<Rightarrow>
            let svr_addr = fst (set_addr_port svr_addr (sv_port ?sv));
                (svr_sock, fds) = nrdpx_socket_create (en_os env) (px_fds w) (sa_family svr_addr) False;
                w = w\<lparr>px_fds := fds\<rparr>
            in if svr_sock = NRD_NOSOCK then Some (False, svr_sock, w)
               else if nrdpx_socket_connect (en_os env) svr_sock (Some svr_addr) \<noteq> 0 \<and> is_error_fatal (en_errno env) True
                    then Some (False, svr_sock, w) else Some (True, svr_sock, w))"
    using assms c by (simp add: channel_connect_def)
  have same: "w\<lparr>px_fds := px_fds w\<rparr> = w" by simp
  show ?thesis
  proof (cases "sv_port ?sv = 0 \<or> host_to_addr (en_res env) (sv_host ?sv) False = None")
    case True
    then have "channel_connect env p w = Some (False, -1, w)" "\<not> server_answers env (px_fds w) ?sv"
      unfolding start by (auto simp: server_answers_def)
    with same show ?thesis by metis
  next
    case False
    then obtain a where a: "host_to_addr (en_res env) (sv_host ?sv) False = Some a" by auto
    obtain sock fds where sk: "nrdpx_socket_create (en_os env) (px_fds w) (sa_family (fst (set_addr_port a (sv_port ?sv)))) False
      = (sock, fds)" by fastforce
    show ?thesis
      by (intro exI [of _ sock] exI [of _ fds]) (use False a sk in \<open>auto simp: start server_answers_def Let_def\<close>)
  qed
qed

lemma channel_connect_incomplete:
  "px_routes w p = Some r \<Longrightarrow> \<not> complete_route r \<Longrightarrow> channel_connect env p w = Some (False, -1, w)"
  by (auto simp: channel_connect_def complete_route_def)

subsection \<open>A channel on a route\<close>

definition one_more :: "nat \<Rightarrow> nrdpx_client_t list \<Rightarrow> nrdpx_client_t list" where
  "one_more i xs = xs[i := (xs ! i)\<lparr>cl_num_slots := cl_num_slots (xs ! i) + 1\<rparr>]"

definition one_more_sv :: "nat \<Rightarrow> nrdpx_server_t list \<Rightarrow> nrdpx_server_t list" where
  "one_more_sv i xs = xs[i := (xs ! i)\<lparr>sv_num_slots := sv_num_slots (xs ! i) + 1\<rparr>]"

lemma create_done_parts:
  assumes "create_done env host c p w = Some w'" "px_routes w p = Some r"
  shows "px_clients w' = px_clients w" "px_servers w' = px_servers w" "px_channels w' = px_channels w @ [c]"
    "\<exists>r'. px_routes w' p = Some r' \<and> rt_balancer r' = rt_balancer r \<and> rt_client r' = rt_client r \<and> rt_server r' = rt_server r"
  using assms
  by (auto simp: create_done_def cache_add_def add_channel_def split: if_splits Option.bind_splits option.splits)

lemma create_failed_parts:
  "create_failed host s1 s2 rt w = Some w' \<Longrightarrow>
     px_clients w' = px_clients w \<and> px_servers w' = px_servers w \<and> px_channels w' = px_channels w"
  by (auto simp: create_failed_def Let_def split: if_splits Option.bind_splits option.splits)

text \<open>The channel after its route: it is made exactly when the route is complete and its server
  answers; then the client and the server of the route have one slot more.\<close>

definition connected_to :: "px_env \<Rightarrow> nrdpx_route_t \<Rightarrow> nrdpx_proxy_t \<Rightarrow> nat option \<Rightarrow> nrdpx_proxy_t \<Rightarrow> bool" where
  "connected_to env r w res w' \<longleftrightarrow>
     (case (rt_client r, rt_server r) of
        (Some ci, Some si) \<Rightarrow>
          if server_answers env (px_fds w) (px_servers w ! si)
          then \<exists>a c r'. res = Some a \<and> ch_addr c = a \<and> px_channels w' = px_channels w @ [c]
             \<and> px_routes w' (ch_route c) = Some r' \<and> rt_balancer r' = rt_balancer r
             \<and> rt_client r' = Some ci \<and> rt_server r' = Some si
             \<and> px_clients w' = one_more ci (px_clients w) \<and> px_servers w' = one_more_sv si (px_servers w)
          else res = None \<and> px_channels w' = px_channels w \<and> px_clients w' = px_clients w \<and> px_servers w' = px_servers w
      | _ \<Rightarrow> res = None \<and> px_channels w' = px_channels w \<and> px_clients w' = px_clients w \<and> px_servers w' = px_servers w)"

lemma create_on_route:
  assumes peer: "en_peer env src = Some a" "addr_to_host (en_res env) a True = host" "host \<noteq> []"
    and route: "channel_route env a host nosvr w = Some (p, w1)" "px_routes w1 p = Some r" "route_ready p w1"
    and run: "nrdpx_channel_create env src now nosvr w = Some (res, w')"
  shows "connected_to env r w1 res w'"
proof -
  obtain ok s2 w2 where cn: "channel_connect env p w1 = Some (ok, s2, w2)"
    and rest: "(if \<not> ok then do { w \<leftarrow> create_failed host s2 src (Some p) w2; Some (None, w) }
        else do { (c, w) \<leftarrow> channel_new env src s2 p now w2; w \<leftarrow> create_done env host c p w; Some (Some (ch_addr c), w) })
        = Some (res, w')"
    using run peer route(1) by (auto simp: nrdpx_channel_create_def Let_def split: Option.bind_splits)
  have failed: "res = None \<and> px_channels w' = px_channels w1 \<and> px_clients w' = px_clients w1 \<and> px_servers w' = px_servers w1"
    if "\<not> ok"
    using rest that channel_connect_config [OF cn] create_failed_parts
    by (fastforce split: Option.bind_splits)
  show ?thesis
  proof (cases "rt_server r = None")
    case True
    then have "\<not> ok" using cn channel_connect_incomplete [OF route(2), of env] by (simp add: complete_route_def)
    with failed True show ?thesis by (simp add: connected_to_def split: option.splits)
  next
    case False
    with route_ready_refs [OF route(3,2)] obtain ci si where
      refs: "rt_client r = Some ci" "ci < length (px_clients w1)" "rt_server r = Some si" "si < length (px_servers w1)"
      by (auto simp: refs_ok_def)
    have "complete_route r" using route_ready_refs [OF route(3,2) False] by (auto simp: complete_route_def refs_ok_def)
    from channel_connect_answers [OF route(2) this refs(3,4), of env] cn obtain fds where
      ok: "ok = server_answers env (px_fds w1) (px_servers w1 ! si)" and w2: "w2 = w1\<lparr>px_fds := fds\<rparr>" by auto
    show ?thesis
    proof (cases ok)
      case False
      with failed ok refs show ?thesis by (simp add: connected_to_def)
    next
      case True
      with rest obtain c w3 where new: "channel_new env src s2 p now w2 = Some (c, w3)"
        and fin: "create_done env host c p w3 = Some w'" "res = Some (ch_addr c)" by (auto split: Option.bind_splits)
      from new refs route(2) have w3: "px_clients w3 = one_more ci (px_clients w1)" "px_servers w3 = one_more_sv si (px_servers w1)"
        "px_channels w3 = px_channels w1" "ch_route c = p"
        "px_routes w3 p = Some (r\<lparr>rt_act_time := en_time env, rt_num_slots := rt_num_slots r + 1\<rparr>)"
        by (auto simp: w2 channel_new_def Let_def one_more_def one_more_sv_def split: Option.bind_splits)
      from create_done_parts [OF fin(1) w3(5)] w3 refs ok True fin(2) show ?thesis
        by (simp add: connected_to_def)
    qed
  qed
qed

subsection \<open>Which route a connection takes\<close>

text \<open>The cached route, if there is one whose server is not the one to avoid; else the choice of the
  first balancer that admits the address.\<close>

definition route_taken ::
  "px_env \<Rightarrow> addr_t \<Rightarrow> nat option \<Rightarrow> nrdpx_proxy_t \<Rightarrow> nat option \<Rightarrow> rheap \<Rightarrow> nrdpx_route_t \<Rightarrow> bool" where
  "route_taken env a nosvr w found h r \<longleftrightarrow>
     (case Option.bind found h of
        Some r0 \<Rightarrow> if rt_server r0 \<noteq> nosvr then r = r0
          else first_admitting (en_fl env) a nosvr (px_clients w) (px_servers w) (enumerate 0 (px_balancers w)) r
      | None \<Rightarrow> first_admitting (en_fl env) a nosvr (px_clients w) (px_servers w) (enumerate 0 (px_balancers w)) r)"

lemma channel_route_taken:
  assumes ok: "world_ok w" and f: "cache_find (en_time env) host (px_cache w) (px_routes w) = Some (found, ca, h)"
    and cr: "channel_route env a host nosvr w = Some (p, w1)"
  shows "\<exists>r. px_routes w1 p = Some r \<and> route_taken env a nosvr w found h r"
proof -
  let ?r = "route_scan (en_fl env) a nosvr (px_clients w) (px_servers w) (enumerate 0 (px_balancers w)) [] new_route"
  have scan: "first_admitting (en_fl env) a nosvr (px_clients w) (px_servers w) (enumerate 0 (px_balancers w)) ?r"
    by (rule route_scan_spec) (simp_all add: new_route_def)
  show ?thesis
  proof (cases "Option.bind found h")
    case None
    have "found = None"
    proof (rule ccontr)
      assume "found \<noteq> None"
      then obtain q where q: "found = Some q" by blast
      with rc.found_alive [OF world_okD(1) [OF ok], of "en_time env" host q ca h] f have "h q \<noteq> None" by auto
      with None q show False by simp
    qed
    with cr f have "px_routes w1 p = Some ?r" by (auto simp: channel_route_def Let_def)
    with scan None show ?thesis by (auto simp: route_taken_def)
  next
    case (Some r0)
    then obtain q where q: "found = Some q" "h q = Some r0" by (auto simp: bind_eq_Some_conv)
    show ?thesis
    proof (cases "rt_server r0 = nosvr")
      case True
      with cr f q have "px_routes w1 p = Some ?r" by (auto simp: channel_route_def Let_def split: Option.bind_splits)
      with scan Some True show ?thesis by (auto simp: route_taken_def)
    next
      case False
      with cr f q have "px_routes w1 p = Some r0" by (auto simp: channel_route_def Let_def)
      with Some False show ?thesis by (auto simp: route_taken_def)
    qed
  qed
qed

text \<open>From the accepted socket to the channel.\<close>

lemma connected_to_cong:
  assumes "px_fds w1 = px_fds w" "px_servers w1 = px_servers w" "px_clients w1 = px_clients w" "px_channels w1 = px_channels w"
  shows "connected_to env r w1 res w' = connected_to env r w res w'"
  unfolding connected_to_def assms ..

lemma channel_create_taken:
  assumes ok: "world_ok w" and peer: "en_peer env src = Some a" "addr_to_host (en_res env) a True = host" "host \<noteq> []"
    and f: "cache_find (en_time env) host (px_cache w) (px_routes w) = Some (found, ca, h)"
  shows "\<exists>r res w'. nrdpx_channel_create env src now nosvr w = Some (res, w') \<and> world_ok w'
    \<and> route_taken env a nosvr w found h r \<and> connected_to env r w res w'"
proof -
  obtain res w' where run: "nrdpx_channel_create env src now nosvr w = Some (res, w')" "world_ok w'"
    using channel_create_ok [OF ok, of env src now nosvr] by blast
  obtain p w1 where w1: "channel_route env a host nosvr w = Some (p, w1)" "route_ready p w1"
    "px_channels w1 = px_channels w" "px_servers w1 = px_servers w" "px_clients w1 = px_clients w" "px_fds w1 = px_fds w"
    using channel_route_ok [OF ok, of env a host nosvr] by blast
  obtain r where r: "px_routes w1 p = Some r" "route_taken env a nosvr w found h r"
    using channel_route_taken [OF ok f w1(1)] by blast
  from create_on_route [OF peer w1(1) r(1) w1(2) run(1)] have "connected_to env r w res w'"
    using connected_to_cong [OF w1(6,4,5,3)] by simp
  with run r(2) show ?thesis by blast
qed

text \<open>With a cached route the slots go beyond the limits.\<close>

lemma connected_to_slots:
  assumes ok: "world_ok w'" and c: "connected_to env r w res w'" "rt_client r = Some ci" "rt_server r = Some si"
    "ci < length (px_clients w)" "si < length (px_servers w)" "server_answers env (px_fds w) (px_servers w ! si)"
  shows "res \<noteq> None \<and> tally (\<lambda>c. chan_cl (px_routes w') c = Some ci) (px_channels w') = cl_num_slots (px_clients w ! ci) + 1
    \<and> tally (\<lambda>c. chan_sv (px_routes w') c = Some si) (px_channels w') = sv_num_slots (px_servers w ! si) + 1"
proof -
  from c have w': "res \<noteq> None" "px_clients w' = one_more ci (px_clients w)" "px_servers w' = one_more_sv si (px_servers w)"
    by (auto simp: connected_to_def)
  note acc = world_okD(2) [OF ok]
  from accountsD(6) [OF acc, of ci] accountsD(5) [OF acc, of si] c(4,5) w' show ?thesis
    by (simp add: one_more_def one_more_sv_def)
qed

lemma cached_route_ignores_limits:
  assumes ok: "world_ok w" and peer: "en_peer env src = Some a" "addr_to_host (en_res env) a True = host" "host \<noteq> []"
    and f: "cache_find (en_time env) host (px_cache w) (px_routes w) = Some (Some p, ca, h)" "h p = Some r"
    and r: "rt_client r = Some ci" "rt_server r = Some si" "Some si \<noteq> nosvr"
    and answers: "server_answers env (px_fds w) (px_servers w ! si)"
  shows "\<exists>x w'. nrdpx_channel_create env src now nosvr w = Some (Some x, w')
    \<and> tally (\<lambda>c. chan_cl (px_routes w') c = Some ci) (px_channels w') = cl_num_slots (px_clients w ! ci) + 1
    \<and> tally (\<lambda>c. chan_sv (px_routes w') c = Some si) (px_channels w') = sv_num_slots (px_servers w ! si) + 1"
proof -
  obtain r' res w' where run: "nrdpx_channel_create env src now nosvr w = Some (res, w')" "world_ok w'"
    "route_taken env a nosvr w (Some p) h r'" "connected_to env r' w res w'"
    using channel_create_taken [OF ok peer f(1)] by blast
  have r': "r' = r" using run(3) f(2) r by (simp add: route_taken_def)
  have "frees_idle (px_routes w) h" using rc.find_law [OF world_okD(1) [OF ok], of "en_time env" host] f(1) by auto
  then have "px_routes w p = Some r" using f(2) frees_idle_sub by blast
  from accountsD(2) [OF world_okD(2) [OF ok] this] r have "ci < length (px_clients w)" "si < length (px_servers w)"
    by (auto simp: refs_ok_def)
  from connected_to_slots [OF run(2) run(4) [unfolded r'] r(1,2) this answers] run(1) show ?thesis by auto
qed

subsection \<open>After a failed connection\<close>

text \<open>A route that is not expired is found.\<close>

lemma cache_find_fresh:
  assumes ok: "cache_ok ca h" and on: "ca_mode ca \<noteq> CACHE_NONE" and p: "cache_tab ca key = Some p" "h p = Some r"
    and fresh: "\<not> route_expired now (ca_timeout ca) r"
  shows "\<exists>ca' h'. cache_find now key ca h = Some (Some p, ca', h') \<and> h' p = Some r"
proof (cases "now > ca_chktime ca")
  case False
  with on p fresh show ?thesis by (simp add: cache_find_def cache_tab_def)
next
  case True
  obtain keys h1 where cl: "cache_clean now (ca_timeout ca) (ca_routes ca) h = Some (keys, h1)"
    and d: "cache_drops ca h (ca\<lparr>ca_chktime := now + 3600, ca_routes := fold routes_erase keys (ca_routes ca)\<rparr>) h1
        (\<lambda>p. route_expired now (ca_timeout ca) (the (h p)))"
    using clean_drops [OF ok, of now "ca_timeout ca" "now + 3600"] by blast
  have h1: "h1 p = Some r" using d p(2) fresh by (simp add: cache_drops_def)
  have "(key, p) \<in> set (ca_routes ca)" using p(1) by (simp add: cache_tab_def map_of_SomeD)
  then have "(key, p) \<in> set (fold routes_erase keys (ca_routes ca))" using d p(2) fresh by (simp add: cache_drops_def)
  then have "map_of (fold routes_erase keys (ca_routes ca)) key = Some p"
    using cache_drops_facts(1) [OF ok d] by (simp add: cache_ok_def map_of_is_SomeI)
  with True on cl h1 fresh show ?thesis by (simp add: cache_find_def)
qed

lemma del_channel_cached:
  assumes ok: "world_ok w" and i: "i < length (px_channels w)" and r: "px_routes w (ch_route (px_channels w ! i)) = Some r" "rt_cached r"
    and del: "del_channel t (ch_addr (px_channels w ! i)) w = Some w'"
  shows "px_cache w' = px_cache w \<and> (\<exists>r'. px_routes w' (ch_route (px_channels w ! i)) = Some r'
    \<and> rt_server r' = rt_server r \<and> rt_cached r' \<and> rt_act_time r' = t)"
  using del erase_channel_nth [OF world_okD(4) [OF ok] i] r
  by (auto simp: del_channel_def channel_destroy_def Let_def split: Option.bind_splits)

text \<open>A failed connection whose route is in the cache: the route stays there, with its server.\<close>

lemma failed_route_kept:
  assumes ok: "world_ok w" and i: "i < length (px_channels w)" and cf: "connect_failed le k i w = Some w'"
    and r: "px_routes w (ch_route (px_channels w ! i)) = Some r" "rt_cached r"
    and tab: "cache_tab (px_cache w) host = Some (ch_route (px_channels w ! i))"
  shows "world_ok w' \<and> cache_tab (px_cache w') host = Some (ch_route (px_channels w ! i))
    \<and> ca_mode (px_cache w') = ca_mode (px_cache w) \<and> ca_timeout (px_cache w') = ca_timeout (px_cache w)
    \<and> (\<exists>r'. px_routes w' (ch_route (px_channels w ! i)) = Some r' \<and> rt_server r' = rt_server r \<and> rt_cached r'
          \<and> rt_act_time r' = en_time (le_env le k))"
proof -
  let ?c = "px_channels w ! i" and ?cs = "px_channels w" and ?t = "en_time (le_env le k)"
  obtain s where s: "chan_server ?c w = Some s" "s < length (px_servers w)"
    using chan_server_ok [OF ok nth_mem [OF i]] by blast
  define w0 where "w0 = w\<lparr>px_servers := (px_servers w)[s := count_fault (px_max_faults w) (px_servers w ! s)]\<rparr>"
  have ok0: "world_ok w0" unfolding w0_def using s(2) by (intro set_server_ok [OF ok]) simp_all
  obtain res w1 where cc: "nrdpx_channel_create (le_env le k) (ch_source ?c) (le_now le) (Some s) w0 = Some (res, w1)"
    and ok1: "world_ok w1" using channel_create_ok [OF ok0, of "le_env le k" "ch_source ?c" "le_now le" "Some s"] by blast
  define w2 where "w2 = set_chan i ((px_channels w1 ! i)\<lparr>ch_source := NRD_NOSOCK\<rparr>) w1"
  have del: "nrdpx_channel_delete ?t (Some (ch_addr ?c)) w2 = Some w'"
    using cf s cc by (simp add: connect_failed_def Let_def w0_def [symmetric] w2_def)
  from channel_create_view [OF ok0 cc] obtain new where v: "same_routes ?cs w0 w1" "px_channels w1 = ?cs @ new"
    by (auto simp: w0_def)
  have at1: "px_channels w1 ! i = ?c" "i < length (px_channels w1)" using i v(2) by (simp_all add: nth_append)
  have ok2: "world_ok w2" unfolding w2_def
    using chan_bufs [OF ok1 at1(2)] by (intro set_chan_ok [OF ok1 at1(2)]) (simp_all add: chan_bufs_ok_def at1)
  have w2: "px_cache w2 = px_cache w1" "px_routes w2 = px_routes w1" "i < length (px_channels w2)"
    "ch_addr (px_channels w2 ! i) = ch_addr ?c" "ch_route (px_channels w2 ! i) = ch_route ?c"
    using at1 by (simp_all add: w2_def set_chan_def)
  have mem: "?c \<in> set ?cs" using i by simp
  have "route_view (px_routes w1) (ch_route ?c) = Some (True, rt_server r)" "cache_tab (px_cache w1) host = Some (ch_route ?c)"
    using v(1) mem r tab by (simp_all add: same_routes_def w0_def route_view_def)
  then obtain r1 where r1: "px_routes w2 (ch_route ?c) = Some r1" "rt_cached r1" "rt_server r1 = rt_server r"
    and t1: "cache_tab (px_cache w2) host = Some (ch_route ?c)"
    by (auto simp: route_view_def w2)
  have del': "del_channel ?t (ch_addr (px_channels w2 ! i)) w2 = Some w'" using del by (simp add: nrdpx_channel_delete_def w2)
  have "world_ok w'" using del_channel_ok [OF ok2, of ?t "ch_addr (px_channels w2 ! i)"] del' by simp
  moreover have "config_of w1 = config_of w0" using channel_create_config [OF cc] .
  then have "ca_mode (px_cache w1) = ca_mode (px_cache w)" "ca_timeout (px_cache w1) = ca_timeout (px_cache w)"
    by (simp_all add: config_of_def w0_def)
  moreover note del_channel_cached [OF ok2 w2(3) _ r1(2) del', unfolded w2(5), OF r1(1)]
  ultimately show ?thesis using t1 r1(3) w2(1) by auto
qed

lemma failed_server_again:
  assumes ok: "world_ok w" and i: "i < length (px_channels w)" and cf: "connect_failed le k i w = Some w'"
    and r: "px_routes w (ch_route (px_channels w ! i)) = Some r" "rt_cached r" and on: "ca_mode (px_cache w) \<noteq> CACHE_NONE"
    and tab: "cache_tab (px_cache w) host = Some (ch_route (px_channels w ! i))"
    and later: "en_peer env src = Some a" "addr_to_host (en_res env) a True = host" "host \<noteq> []"
      "en_time env \<le> en_time (le_env le k) + ca_timeout (px_cache w)"
  shows "\<exists>r' res w''. nrdpx_channel_create env src now None w' = Some (res, w'')
    \<and> rt_server r' = rt_server r \<and> connected_to env r' w' res w''"
proof -
  let ?p = "ch_route (px_channels w ! i)"
  from failed_route_kept [OF ok i cf r tab] obtain r' where
    w': "world_ok w'" "cache_tab (px_cache w') host = Some ?p" "ca_mode (px_cache w') \<noteq> CACHE_NONE"
      "ca_timeout (px_cache w') = ca_timeout (px_cache w)"
    and r': "px_routes w' ?p = Some r'" "rt_server r' = rt_server r" "rt_cached r'" "rt_act_time r' = en_time (le_env le k)"
    using on by auto
  have "\<not> route_expired (en_time env) (ca_timeout (px_cache w')) r'" using later(4) w'(4) r'(4) by (simp add: route_expired_def)
  from cache_find_fresh [OF world_okD(1) [OF w'(1)] w'(3,2) r'(1) this] obtain ca h where
    f: "cache_find (en_time env) host (px_cache w') (px_routes w') = Some (Some ?p, ca, h)" "h ?p = Some r'" by blast
  from channel_create_taken [OF w'(1) later(1-3) f(1), where nosvr = None and now = now] obtain r2 res w'' where
    "nrdpx_channel_create env src now None w' = Some (res, w'')" "route_taken env a None w' (Some ?p) h r2" "connected_to env r2 w' res w''"
    by blast
  moreover have "rt_server r' \<noteq> None" using accountsD(2) [OF world_okD(2) [OF w'(1)] r'(1)] by (auto simp: refs_ok_def)
  ultimately show ?thesis using f(2) r'(2) by (auto simp: route_taken_def)
qed

end
