(* ===== verification/Samples.thy ===== *)
theory Samples
  imports Descriptors Routing
begin

text \<open>
  A small proxy on which the theorems of the development are instantiated: one listener, a
  client for \<open>10.0.0.0/8\<close>, two servers, one balancer; without channels, and with one channel.
  The answers of the system are concrete functions.
\<close>

definition sample_addr :: addr_t where "sample_addr = Addr_in 0x0A000007 1024"

definition sample_res :: resolver where
  "sample_res = \<lparr>inet_pton4 = (\<lambda>s. if s = ''192.168.0.1'' then Some 0xC0A80001
                                 else if s = ''10.0.0.0'' then Some 0x0A000000 else None),
     inet_pton6 = (\<lambda>s. None), inet_ntop4 = (\<lambda>a. Some ''10.0.0.7''), inet_ntop6 = (\<lambda>a. None),
     getaddrinfo = (\<lambda>s f. None)\<rparr>"

definition sample_os :: sock_os where
  "sample_os = \<lparr>sys_socket = (\<lambda>f. 9), sys_ioctl_ok = (\<lambda>s. True), sys_bind_ok = (\<lambda>s a. True),
     sys_listen_ok = (\<lambda>s. True), sys_accept = (\<lambda>s. 8), sys_connect = (\<lambda>s a. 0),
     sys_so_error = (\<lambda>s. Some 0), sys_maxseg = (\<lambda>s. Some 1460), sys_getbuf = (\<lambda>s p. Some 65536),
     sys_setbuf_ok = (\<lambda>s p n. True)\<rparr>"

definition sample_env :: px_env where
  "sample_env = \<lparr>en_fl = (\<lambda>x. x), en_res = sample_res, en_os = sample_os, en_peer = (\<lambda>s. Some sample_addr),
     en_time = 100, en_errno = 0, en_junk = (\<lambda>i. 0)\<rparr>"

definition sample_server :: "string \<Rightarrow> bool \<Rightarrow> nrdpx_server_t" where
  "sample_server name redt = nrdpx_server_activate (new_server\<lparr>sv_name := name, sv_host := ''192.168.0.1'',
     sv_redundant := redt\<rparr>)"

definition sample_client :: nrdpx_client_t where
  "sample_client = new_client_t\<lparr>cl_name := ''lan'', cl_sources := [\<lparr>cd_addr = Addr_in 0x0A000000 0, cd_pref = 8\<rparr>]\<rparr>"

definition sample_balancer :: nrdpx_balancer_t where
  "sample_balancer = new_balancer\<lparr>bl_name := ''all'', bl_clients := [0], bl_servers := [0, 1]\<rparr>"

definition sample_idle :: nrdpx_proxy_t where
  "sample_idle = (new_proxy 0)\<lparr>px_clients := [sample_client],
     px_servers := [sample_server ''one'' False, sample_server ''spare'' True],
     px_balancers := [sample_balancer], px_listeners := [\<lparr>ls_host = ''0.0.0.0'', ls_port = 3389, ls_sock = 3\<rparr>],
     px_fds := {3, 7}\<rparr>"

definition sample_route :: nrdpx_route_t where
  "sample_route = \<lparr>rt_balancer = Some 0, rt_client = Some 0, rt_server = Some 0, rt_cached = True,
     rt_act_time = 100, rt_num_slots = 1\<rparr>"

definition sample_channel :: nrdpx_channel_t where
  "sample_channel = \<lparr>ch_addr = 0, ch_id = 1, ch_route = 0, ch_conn_time = 100, ch_connected = True,
     ch_in_source = new_buffer (\<lambda>i. 0), ch_in_target = new_buffer (\<lambda>i. 0), ch_source = 7, ch_target = 9\<rparr>"

definition sample_busy :: nrdpx_proxy_t where
  "sample_busy = sample_idle\<lparr>
     px_clients := [sample_client\<lparr>cl_num_slots := 1\<rparr>],
     px_servers := [(sample_server ''one'' False)\<lparr>sv_num_slots := 1\<rparr>, sample_server ''spare'' True],
     px_cache := (new_cache 3700)\<lparr>ca_routes := [(''10.0.0.7'', 0)]\<rparr>,
     px_channels := [sample_channel], px_routes := Map.empty(0 \<mapsto> sample_route),
     px_next_route := 1, px_next_chan := 1, px_id_count := 1, px_fds := {3, 7, 9}\<rparr>"

definition sample_loop :: loop_env where
  "sample_loop = \<lparr>le_sel_rc = 1, le_sel_errno = 0, le_read = {7}, le_write = {9}, le_now = 100,
     le_env = (\<lambda>k. sample_env), le_recv = (\<lambda>k s. ([1, 2, 3], 0)), le_send = (\<lambda>k s. (2, 0))\<rparr>"

definition sample_text :: string where
  "sample_text = concat (map (\<lambda>l. l @ [lf]) [''[proxy]'', ''[client.a]'', ''sources=10.0.0.0'',
     ''[server.a]'', ''address=192.168.0.1'', ''[balancer.a]'', ''clients=all''])"

text \<open>A start of the program on this configuration, with the cache turned off.\<close>

definition sample_start :: start_env where
  "sample_start = \<lparr>se_args = [], se_pid = 100, se_cwd = Some ''/'', se_realpath = (\<lambda>p. None), se_alive = (\<lambda>p. False),
     se_fork = 0, se_child = 101, se_setsid = True, se_writable = (\<lambda>f. True), se_log_opened = True,
     se_files = (\<lambda>f. Some (''[proxy]'' @ [lf] @ ''cache_timeout=0'' @ [lf] @ drop 8 sample_text)),
     se_res = sample_res, se_os = (\<lambda>k. sample_os), se_chktime = 0, se_timer = True, se_tracker = True\<rparr>"

lemma sample_idle_ok: "world_ok sample_idle"
  unfolding world_ok_def
  by (auto simp: sample_idle_def new_proxy_def new_cache_def cache_ok_def cache_tab_def accounts_def
      balancer_ok_def sample_balancer_def new_balancer_def sample_client_def new_client_t_def
      sample_server_def nrdpx_server_activate_def new_server_def less_Suc_eq)

lemma sample_busy_ok: "world_ok sample_busy"
  unfolding world_ok_def
  by (auto simp: sample_busy_def sample_idle_def new_proxy_def new_cache_def cache_ok_def cache_tab_def
      accounts_def refs_ok_def route_slots_def chan_sv_def chan_cl_def sample_route_def sample_channel_def
      channel_ok_def chan_bufs_ok_def
      balancer_ok_def sample_balancer_def new_balancer_def sample_client_def new_client_t_def
      sample_server_def nrdpx_server_activate_def new_server_def less_Suc_eq)

text \<open>The busy proxy when its client may have one channel only.\<close>

definition sample_full :: nrdpx_proxy_t where
  "sample_full = sample_busy\<lparr>px_clients := [sample_client\<lparr>cl_num_slots := 1, cl_max_slots := 1\<rparr>]\<rparr>"

lemma sample_full_ok: "world_ok sample_full"
  unfolding world_ok_def
  by (auto simp: sample_full_def sample_busy_def sample_idle_def new_proxy_def new_cache_def cache_ok_def cache_tab_def
      accounts_def refs_ok_def route_slots_def chan_sv_def chan_cl_def sample_route_def sample_channel_def
      channel_ok_def chan_bufs_ok_def
      balancer_ok_def sample_balancer_def new_balancer_def sample_client_def new_client_t_def
      sample_server_def nrdpx_server_activate_def new_server_def less_Suc_eq)

lemma sample_answers: "server_answers sample_env (px_fds sample_full) (px_servers sample_full ! 0)"
  by code_simp

text \<open>The start reaches the main loop.\<close>

lemma sample_started:
  "\<exists>p w. nrdpx_main sample_start = (P_main M_head, p) \<and> pg_proxy p = Some w \<and> ca_mode (px_cache w) = CACHE_NONE"
proof -
  have "case nrdpx_main sample_start of
      (P_main M_head, p) \<Rightarrow> (case pg_proxy p of Some w \<Rightarrow> ca_mode (px_cache w) = CACHE_NONE | None \<Rightarrow> False) | _ \<Rightarrow> False"
    by code_simp
  then show ?thesis by (auto split: prod.splits prog_pc.splits main_pc.splits option.splits)
qed

lemma sample_busy_keyed: "keyed (\<lambda>s. Some sample_addr) sample_res sample_busy (px_channels sample_busy)"
  by (simp add: keyed_def sample_busy_def sample_channel_def sample_addr_def sample_res_def ssafe_def cache_tab_def)

text \<open>An iteration on the busy proxy.\<close>

lemma sample_fill: "fill_fds True True sample_busy = Some ({3, 7, 9}, {}, 9)"
  by (simp add: fill_fds_def sample_busy_def sample_idle_def sample_channel_def fill_channel_def watch_def
      FD_SET_def FD_SETSIZE_def new_buffer_def NRD_NOSOCK_def NRDPX_BUFFER_SIZE_MIN_def NRDPX_STANDARD_BSS_def
      NRDPX_STANDARD_MSS_def NRDPX_STANDARD_MTU_def insert_commute xtl_max_def)

lemma sample_iterated:
  "\<exists>w' c'. main_iteration 2 sample_loop sample_busy = Some (Iterated True w') \<and> px_channels w' = [c'] \<and> ch_addr c' = 0"
proof -
  let ?le = "sample_loop\<lparr>le_read := {7}, le_write := {}\<rparr>"
  have le: "le_selected sample_loop {3, 7, 9} {} = ?le" by (simp add: le_selected_def sample_loop_def)
  have acc: "accept_loop ?le 0 (px_listeners sample_busy) sample_busy = Some sample_busy"
    by (simp add: sample_busy_def sample_idle_def sample_loop_def)
  have len: "0 < length (px_channels sample_busy)" by (simp add: sample_busy_def)
  obtain alive w1 where io: "chan_io ?le 1 0 sample_busy = Some (alive, w1)" "keeps 0 sample_busy w1"
    using chan_io_ok [OF sample_busy_ok len] by blast
  have alive
    using io(1) by (auto simp: chan_io_def and_then_def read_source_def read_target_def write_source_def
        write_target_def sample_loop_def sample_busy_def sample_channel_def set_connected_def recv_bytes_def
        send_count_def new_buffer_def set_chan_def buf_put_def buf_room_def Let_def split: Option.bind_splits if_splits)
  with io(1) have p: "chan_pass ?le 1 0 sample_busy = Some (1, w1)"
    by (simp add: chan_pass_def connect_error_def sample_busy_def sample_channel_def sample_loop_def)
  have w1: "length (px_channels w1) = 1" "ch_addr (px_channels w1 ! 0) = 0"
    using io(2) by (simp_all add: keeps_def same_chan_def sample_busy_def sample_channel_def)
  have l: "chan_loop 2 ?le 1 0 sample_busy = Some (True, w1)"
    using p len w1 by (simp add: numeral_2_eq_2)
  have "main_iteration 2 sample_loop sample_busy = Some (Iterated True w1)"
  proof -
    have n: "length (px_listeners sample_busy) = 1" "le_sel_rc ?le = 1"
      by (simp_all add: sample_busy_def sample_idle_def sample_loop_def)
    show ?thesis
      unfolding main_iteration_def sample_fill using acc l n by (simp only: Let_def bind.bind_lunit case_prod_conv le) simp
  qed
  moreover obtain c' where "px_channels w1 = [c']" using w1(1) by (auto simp: length_Suc_conv)
  ultimately show ?thesis using w1(2) by auto
qed

text \<open>A pass over its channel receives three bytes and sends two, and the program before that pass.\<close>

definition sample_program :: program_t where
  "sample_program = (program_init sample_start)\<lparr>pg_proxy := Some sample_busy\<rparr>"

lemma sample_program_ok: "prog_ok (P_main m, sample_program)"
  using sample_busy_ok by (simp add: prog_ok_def sample_program_def program_init_def new_client_def)

lemma sample_pass:
  "\<exists>w' c'. chan_pass sample_loop 1 0 sample_busy = Some (1, w') \<and> px_channels w' = [c'] \<and> ch_addr c' = 0"
proof -
  have len: "0 < length (px_channels sample_busy)" by (simp add: sample_busy_def)
  obtain alive w1 where io: "chan_io sample_loop 1 0 sample_busy = Some (alive, w1)" "keeps 0 sample_busy w1"
    using chan_io_ok [OF sample_busy_ok len] by blast
  have alive
    using io(1) by (auto simp: chan_io_def and_then_def read_source_def read_target_def write_source_def
        write_target_def sample_loop_def sample_busy_def sample_channel_def set_connected_def recv_bytes_def
        send_count_def new_buffer_def set_chan_def buf_put_def buf_room_def Let_def split: Option.bind_splits if_splits)
  with io(1) have p: "chan_pass sample_loop 1 0 sample_busy = Some (1, w1)"
    by (simp add: chan_pass_def connect_error_def sample_busy_def sample_channel_def sample_loop_def)
  have "length (px_channels w1) = 1" "ch_addr (px_channels w1 ! 0) = 0"
    using io(2) by (simp_all add: keeps_def same_chan_def sample_busy_def sample_channel_def)
  moreover then obtain c' where "px_channels w1 = [c']" by (auto simp: length_Suc_conv)
  ultimately show ?thesis using p by auto
qed

text \<open>A check that a signal aborts after its socket was made.\<close>

lemma check_then:
  "check_reach R s (pc, ck) \<Longrightarrow> fresh_sock os (ck_fds ck) \<Longrightarrow> check_step os R pc ck = t \<Longrightarrow> check_reach R s t"
  using cr_step ct_step by fastforce

lemma sample_aborted:
  "check_reach sample_res (C_start ''192.168.0.1'' 3389, \<lparr>ck_socket = NRD_NOSOCK, ck_fds = {3}\<rparr>)
     (C_done False, \<lparr>ck_socket = NRD_NOSOCK, ck_fds = {3}\<rparr>)" (is "check_reach _ ?s _")
proof -
  note d = fresh_sock_def sample_os_def check_abort_def check_close_def nrdpx_socket_close_def NRD_NOSOCK_def
  have h: "host_to_addr sample_res ''192.168.0.1'' False = Some (Addr_in 0xC0A80001 0)"
    by code_simp
  note start = cr_start [of sample_res ?s]
  have "check_reach sample_res ?s (C_resolve ''192.168.0.1'' 3389, \<lparr>ck_socket = NRD_NOSOCK, ck_fds = {3}\<rparr>)"
    by (rule check_then [OF start, of sample_os]) (simp_all add: d)
  then have "check_reach sample_res ?s (C_create (Addr_in 0xC0A80001 0) 3389, \<lparr>ck_socket = NRD_NOSOCK, ck_fds = {3}\<rparr>)"
    by (rule check_then [of _ _ _ _ sample_os]) (simp_all add: d h)
  then have "check_reach sample_res ?s (C_made (Addr_in 0xC0A80001 0) 3389, \<lparr>ck_socket = 9, ck_fds = {9, 3}\<rparr>)"
    by (rule check_then [of _ _ _ _ sample_os]) (simp_all add: d nrdpx_socket_create_def Let_def)
  from cr_step [OF this ct_abort]
  have "check_reach sample_res ?s (C_made (Addr_in 0xC0A80001 0) 3389, \<lparr>ck_socket = NRD_NOSOCK, ck_fds = {3}\<rparr>)"
    by (simp add: d)
  then show ?thesis by (rule check_then [of _ _ _ _ sample_os]) (simp_all add: d)
qed

text \<open>A run in which the kernel numbers the descriptors: the program starts with two listeners and
  accepts a connection on the first one.\<close>

definition sample_kernel :: start_env where
  "sample_kernel = sample_start\<lparr>se_os := (\<lambda>k. sample_os\<lparr>sys_socket := (\<lambda>f. 3 + int k)\<rparr>)\<rparr>"

definition sample_connection :: loop_env where
  "sample_connection = sample_loop\<lparr>le_read := {3}, le_write := {},
     le_env := (\<lambda>k. sample_env\<lparr>en_peer := (\<lambda>s. Some (Addr_in 0x0A000000 1024))\<rparr>)\<rparr>"

lemma sample_listeners_fresh:
  "F \<subseteq> {3..<3 + int k} \<Longrightarrow> listeners_fresh (se_os sample_kernel) R k ls F"
proof (induction ls arbitrary: k F)
  case (Cons l ls)
  obtain sock F1 host where l: "nrdpx_socket_listen (se_os sample_kernel k) R F (ls_host l) (ls_port l) = (sock, F1, host)"
    by (metis prod_cases3)
  have fresh: "sys_socket (se_os sample_kernel k) fam = 3 + int k" for fam by (simp add: sample_kernel_def)
  with Cons.prems have f: "sys_socket (se_os sample_kernel k) fam \<notin> F" for fam by auto
  have a: "F1 \<subseteq> insert (3 + int k) F"
    using socket_listen_fds [OF f l] socket_listen_in [OF l] fresh by auto
  have b: "insert (3 + int k) F \<subseteq> {3..<3 + int (k + 1)}" using Cons.prems by (auto simp: subset_iff)
  from order_trans [OF a b] have "F1 \<subseteq> {3..<3 + int (k + 1)}" .
  from Cons.IH [OF this] f l show ?case by (simp add: fresh_sock_def)
qed simp

lemma sample_kernel_fresh: "start_fresh sample_kernel"
  by (simp add: start_fresh_def sample_listeners_fresh split: prod.splits)

lemma sample_accepted:
  "\<exists>p w R W m w'. nrdpx_main sample_kernel = (P_main M_head, p) \<and> pg_proxy p = Some w \<and> \<not> g_terminated (pg_glob p)
     \<and> fill_fds True True w = Some (R, W, m) \<and> 0 < length (px_listeners w) \<and> px_fds w = {3, 4}
     \<and> accept_loop (le_selected sample_connection R W) 0 [px_listeners w ! 0] w = Some w'
     \<and> map chan_socks (px_channels w') = [[8, 9]] \<and> px_fds w' = {3, 4, 8, 9}"
proof -
  have "case nrdpx_main sample_kernel of (P_main M_head, p) \<Rightarrow> (case pg_proxy p of None \<Rightarrow> False
      | Some w \<Rightarrow> \<not> g_terminated (pg_glob p) \<and> (case fill_fds True True w of None \<Rightarrow> False
        | Some s \<Rightarrow> 0 < length (px_listeners w) \<and> px_fds w = {3, 4}
          \<and> (case accept_loop (le_selected sample_connection (fst s) (fst (snd s))) 0 [px_listeners w ! 0] w of None \<Rightarrow> False
             | Some w' \<Rightarrow> map chan_socks (px_channels w') = [[8, 9]] \<and> px_fds w' = {3, 4, 8, 9}))) | _ \<Rightarrow> False"
    by code_simp
  then show ?thesis
    by (auto simp del: accept_loop.simps split: prod.split_asm prog_pc.split_asm main_pc.split_asm option.split_asm)
qed

lemma sample_kernel_reach:
  "\<exists>p w m. kernel_reach sample_kernel (P_main m, p) \<and> pg_proxy p = Some w \<and> pg_check p = no_check
     \<and> map chan_socks (px_channels w) = [[8, 9]] \<and> px_fds w = {3, 4, 8, 9}"
proof -
  obtain p w R W m w' where p: "nrdpx_main sample_kernel = (P_main M_head, p)" "pg_proxy p = Some w" "\<not> g_terminated (pg_glob p)"
    and f: "fill_fds True True w = Some (R, W, m)" and l: "0 < length (px_listeners w)" "px_fds w = {3, 4}"
    and a: "accept_loop (le_selected sample_connection R W) 0 [px_listeners w ! 0] w = Some w'"
    and w': "map chan_socks (px_channels w') = [[8, 9]]" "px_fds w' = {3, 4, 8, 9}"
    using sample_accepted by (elim exE conjE) (rule that)
  let ?le = "le_selected sample_connection R W"
  have start: "kernel_reach sample_kernel (P_main M_head, p)"
    using kr_start [OF sample_kernel_fresh] p(1) by simp
  have p0: "pg_proxy p = Some w \<Longrightarrow> p\<lparr>pg_proxy := Some w\<rparr> = p" by (cases p) simp
  have same: "p\<lparr>pg_proxy := Some w\<rparr> = p" using p0 p(2) .
  have pc: "pg_check p = no_check" "pg_event p = E_idle"
    using p(1) by (cases rule: main_cases [of sample_kernel]; auto simp: program_init_def no_check_def)+
  have step: "kernel_reach sample_kernel (P_main m2, p\<lparr>pg_proxy := Some w2\<rparr>)"
    if "kernel_reach sample_kernel (P_main m1, p)" "main_trans False (m1, w) (m2, w2)" "main_fresh {3, 4} w m1" for m1 m2 w2
    by (rule kr_step [OF that(1) pt_main [OF p(2)]])
      (use that(2,3) p(2,3) pc l(2) in \<open>simp_all add: kernel_fresh_def open_fds_def\<close>)
  have "kernel_reach sample_kernel (P_main M_fill, p)" using step [OF start mt_test] same by simp
  from step [OF this mt_fill [OF f]] same have "kernel_reach sample_kernel (P_main (M_select R W), p)" by simp
  moreover have "main_trans False (M_select R W, w) (M_accept ?le 0, w)"
    using mt_select [of False sample_connection R W w] by (simp add: sample_connection_def sample_loop_def)
  ultimately have "kernel_reach sample_kernel (P_main (M_accept ?le 0), p)" using step [of "M_select R W" "M_accept ?le 0" w] same by simp
  from step [OF this mt_accept [OF l(1) a]] have
    "kernel_reach sample_kernel (P_main (M_accept ?le (0 + 1)), p\<lparr>pg_proxy := Some w'\<rparr>)"
    by (simp add: le_selected_def sample_connection_def sample_loop_def sample_env_def sample_os_def fresh_sock_def)
  with w' pc show ?thesis by fastforce
qed

end
