(* ===== verification/Guards.thy ===== *)
theory Guards
  imports Thread "HOL-Library.Multiset"
begin

text \<open>
  \<open>src/src/com/xtllib/xtl_thread.h\<close>: the scope guards of the mutexes, the classes without effect
  that stand in for them, the loop of \<open>begin_write\<close>, and the life of a thread object.

  A guard is its constructor and its destructor on the object behind its pointer, which may be
  null.  The contract of a guard is the locale \<open>scoped_lock\<close>.  \<open>m_thread_id\<close>, which this program
  does not read, is left out of the thread.
\<close>

subsection \<open>Guards\<close>

definition locker_enter :: "tid \<Rightarrow> mutex_t option \<Rightarrow> mutex_t option option" where
  "locker_enter t mtx = (case mtx of None \<Rightarrow> Some None | Some m \<Rightarrow> map_option Some (mutex_lock t m))"

definition locker_leave :: "tid \<Rightarrow> mutex_t option \<Rightarrow> mutex_t option" where
  "locker_leave t mtx = map_option (mutex_unlock t) mtx"

definition dummy_lock :: "'a \<Rightarrow> 'a" where "dummy_lock m = m"
definition dummy_unlock :: "'a \<Rightarrow> 'a" where "dummy_unlock m = m"

definition rlocker_enter :: "tid \<Rightarrow> rwmutex_t option \<Rightarrow> rwmutex_t option option" where
  "rlocker_enter t rwmtx = (case rwmtx of None \<Rightarrow> Some None | Some s \<Rightarrow> map_option Some (begin_read t s))"

definition rlocker_leave :: "tid \<Rightarrow> rwmutex_t option \<Rightarrow> rwmutex_t option option" where
  "rlocker_leave t rwmtx = (case rwmtx of None \<Rightarrow> Some None | Some s \<Rightarrow> map_option Some (end_read t s))"

text \<open>The loop of \<open>begin_write\<close>.  \<open>others k\<close> is what the other threads do to the mutex before the
  next try, while the thread sleeps or waits in \<open>lock\<close>; fuel bounds the tries.\<close>

fun begin_write :: "nat \<Rightarrow> (nat \<Rightarrow> rwmutex_t \<Rightarrow> rwmutex_t) \<Rightarrow> nat \<Rightarrow> tid \<Rightarrow> rwmutex_t \<Rightarrow> rwmutex_t option" where
  "begin_write 0 others k t s = None"
| "begin_write (Suc fuel) others k t s =
     (case try_write t s of
        Some (True, s') \<Rightarrow> Some s'
      | Some (False, s') \<Rightarrow> begin_write fuel others (k + 1) t (others k s')
      | None \<Rightarrow> begin_write fuel others (k + 1) t (others k s))"

definition wlocker_enter ::
  "nat \<Rightarrow> (nat \<Rightarrow> rwmutex_t \<Rightarrow> rwmutex_t) \<Rightarrow> tid \<Rightarrow> rwmutex_t option \<Rightarrow> rwmutex_t option option" where
  "wlocker_enter fuel others t rwmtx =
     (case rwmtx of None \<Rightarrow> Some None | Some s \<Rightarrow> map_option Some (begin_write fuel others 0 t s))"

definition wlocker_leave :: "tid \<Rightarrow> rwmutex_t option \<Rightarrow> rwmutex_t option" where
  "wlocker_leave t rwmtx = map_option (end_write t) rwmtx"

text \<open>The destructor of the read-write mutex lets the writers end their job.\<close>

definition rwmutex_destroy :: "nat \<Rightarrow> (nat \<Rightarrow> rwmutex_t \<Rightarrow> rwmutex_t) \<Rightarrow> tid \<Rightarrow> rwmutex_t \<Rightarrow> rwmutex_t option" where
  "rwmutex_destroy fuel others t s = map_option (end_write t) (begin_write fuel others 0 t s)"

text \<open>The guard with a mode: its constructor initialises \<open>m_mode\<close> with the constant \<open>write\<close>, not
  with its argument.\<close>

datatype rw_mode = RW_read | RW_write

definition rwlocker_mode :: "rw_mode \<Rightarrow> rw_mode" where
  "rwlocker_mode mode = RW_write"

definition rwlocker_lock ::
  "nat \<Rightarrow> (nat \<Rightarrow> rwmutex_t \<Rightarrow> rwmutex_t) \<Rightarrow> rw_mode \<Rightarrow> tid \<Rightarrow> rwmutex_t option \<Rightarrow> rwmutex_t option option" where
  "rwlocker_lock fuel others m_mode t rwmtx =
     (case m_mode of RW_write \<Rightarrow> wlocker_enter fuel others t rwmtx | RW_read \<Rightarrow> rlocker_enter t rwmtx)"

definition rwlocker_unlock :: "rw_mode \<Rightarrow> tid \<Rightarrow> rwmutex_t option \<Rightarrow> rwmutex_t option option" where
  "rwlocker_unlock m_mode t rwmtx =
     (case m_mode of RW_write \<Rightarrow> Some (wlocker_leave t rwmtx) | RW_read \<Rightarrow> rlocker_leave t rwmtx)"

definition rwlocker_enter ::
  "nat \<Rightarrow> (nat \<Rightarrow> rwmutex_t \<Rightarrow> rwmutex_t) \<Rightarrow> rw_mode \<Rightarrow> tid \<Rightarrow> rwmutex_t option \<Rightarrow> rwmutex_t option option" where
  "rwlocker_enter fuel others mode t rwmtx = rwlocker_lock fuel others (rwlocker_mode mode) t rwmtx"

subsection \<open>The contract of a guard\<close>

text \<open>\<open>view\<close> is what a guard gives back as it found it, \<open>held\<close> says that the thread is inside.\<close>

locale scoped_lock =
  fixes ok :: "'s \<Rightarrow> bool" and enter :: "tid \<Rightarrow> 's \<Rightarrow> 's option" and leave :: "tid \<Rightarrow> 's \<Rightarrow> 's option"
    and view :: "'s \<Rightarrow> 'v"
  assumes enter_ok: "ok s \<Longrightarrow> enter t s = Some s' \<Longrightarrow> ok s'"
    and leave_ok: "ok s \<Longrightarrow> leave t s = Some s' \<Longrightarrow> ok s'"
    and leaves: "ok s \<Longrightarrow> enter t s = Some s1 \<Longrightarrow> ok s2 \<Longrightarrow> view s2 = view s1 \<Longrightarrow>
        \<exists>s'. leave t s2 = Some s' \<and> view s' = view s"
    and enters: "ok s \<Longrightarrow> enter t s = Some s1 \<Longrightarrow> ok s2 \<Longrightarrow> view s2 = view s1 \<Longrightarrow> \<exists>s'. enter t s2 = Some s'"
begin

text \<open>The code of a block under the guard; \<open>f\<close> is the block.\<close>

definition guarded :: "tid \<Rightarrow> ('s \<Rightarrow> 's option) \<Rightarrow> 's \<Rightarrow> 's option" where
  "guarded t f s = Option.bind (enter t s) (\<lambda>s. Option.bind (f s) (leave t))"

lemma guarded_restores:
  assumes "ok s" "enter t s = Some s1" "f s1 = Some s2" "ok s2" "view s2 = view s1"
  shows "\<exists>s'. guarded t f s = Some s' \<and> ok s' \<and> view s' = view s"
  using leaves [OF assms(1,2,4,5)] leave_ok [OF assms(4)] assms(2,3) by (auto simp: guarded_def)

text \<open>Guards nest: a thread that has entered enters again, and each block ends where it began.\<close>

lemma guarded_nests:
  assumes "ok s" "enter t s = Some s1"
  shows "\<exists>s'. guarded t (guarded t Some) s = Some s' \<and> ok s' \<and> view s' = view s"
proof -
  note ok1 = enter_ok [OF assms]
  obtain s2 where s2: "enter t s1 = Some s2" using enters [OF assms ok1] by auto
  from guarded_restores [OF ok1 s2, of Some] enter_ok [OF ok1 s2] obtain s3 where
    s3: "guarded t Some s1 = Some s3" "ok s3" "view s3 = view s1" by auto
  show ?thesis by (rule guarded_restores [where f = "guarded t Some", OF assms s3])
qed

end

definition mutex_ok :: "mutex_t \<Rightarrow> bool" where
  "mutex_ok m \<longleftrightarrow> (mx_owner m = None \<longleftrightarrow> mx_count m = 0)"

lemma mutex_ok_lock: "mutex_ok m \<Longrightarrow> mutex_lock t m = Some m' \<Longrightarrow> mutex_ok m'"
  by (auto simp: mutex_ok_def mutex_lock_def split: if_splits)

lemma mutex_ok_unlock: "mutex_ok m \<Longrightarrow> mutex_ok (mutex_unlock t m)"
  by (auto simp: mutex_ok_def mutex_unlock_def)

interpretation mtx: scoped_lock "\<lambda>m. case_option True mutex_ok m" locker_enter "\<lambda>t m. Some (locker_leave t m)" "\<lambda>m. m"
proof unfold_locales
  fix s s1 s2 :: "mutex_t option" and t
  assume a: "case_option True mutex_ok s" "locker_enter t s = Some s1" "s2 = s1"
  show "\<exists>s'. Some (locker_leave t s2) = Some s' \<and> s' = s"
    using a mutex_lock_unlock(1) [of t] by (auto simp: locker_enter_def locker_leave_def mutex_ok_def split: option.splits)
  show "\<exists>s'. locker_enter t s2 = Some s'"
    using a by (auto simp: locker_enter_def mutex_lock_def split: option.splits if_splits)
qed (auto simp: locker_enter_def locker_leave_def mutex_ok_lock mutex_ok_unlock split: option.splits)

lemma rw_inv_mutex: "rw_inv s \<Longrightarrow> mutex_ok (rw_mutex s)"
  by (simp add: rw_inv_def mutex_ok_def)

subsection \<open>Objects with a lock of their own\<close>

text \<open>The macros give an object a mutex \<open>__class_locker\<close> that \<open>_section\<close> points at; \<open>sy_rest\<close> is
  the object itself.  \<open>XTL_LOCK_PTR\<close>, \<open>XTL_LOCK_REF\<close> and \<open>XTL_LOCK_STATIC\<close> are a guard on it.\<close>

record 'o synchronized =
  sy_locker :: mutex_t
  sy_rest :: 'o

definition new_mutex :: mutex_t where
  "new_mutex = \<lparr>mx_owner = None, mx_count = 0\<rparr>"

definition sync_section :: "'o synchronized \<Rightarrow> mutex_t option" where
  "sync_section s = Some (sy_locker s)"

definition sync_lock :: "tid \<Rightarrow> 'o synchronized \<Rightarrow> 'o synchronized option" where
  "sync_lock t s = map_option (\<lambda>m. s\<lparr>sy_locker := m\<rparr>) (mutex_lock t (sy_locker s))"

definition sync_unlock :: "tid \<Rightarrow> 'o synchronized \<Rightarrow> 'o synchronized" where
  "sync_unlock t s = s\<lparr>sy_locker := mutex_unlock t (sy_locker s)\<rparr>"

definition lock_ptr :: "tid \<Rightarrow> 'o synchronized \<Rightarrow> 'o synchronized option" where
  "lock_ptr t s = map_option (\<lambda>m. s\<lparr>sy_locker := case_option (sy_locker s) (\<lambda>m. m) m\<rparr>) (locker_enter t (sync_section s))"

definition unlock_ptr :: "tid \<Rightarrow> 'o synchronized \<Rightarrow> 'o synchronized" where
  "unlock_ptr t s = s\<lparr>sy_locker := case_option (sy_locker s) (\<lambda>m. m) (locker_leave t (sync_section s))\<rparr>"

lemma lock_ptr_is_lock: "lock_ptr t s = sync_lock t s" "unlock_ptr t s = sync_unlock t s"
  by (simp_all add: lock_ptr_def unlock_ptr_def sync_lock_def sync_unlock_def sync_section_def locker_enter_def locker_leave_def
      option.map_comp comp_def)

lemma sync_lockE:
  assumes "sync_lock t s = Some s'"
  obtains m where "mutex_lock t (sy_locker s) = Some m" "s' = s\<lparr>sy_locker := m\<rparr>"
  using assms by (auto simp: sync_lock_def)

lemma mutex_lock_owner: "mutex_lock t m = Some m' \<Longrightarrow> mx_owner m' = Some t"
  by (auto simp: mutex_lock_def split: if_splits)

interpretation sync: scoped_lock "\<lambda>s. mutex_ok (sy_locker s)" lock_ptr "\<lambda>t s. Some (unlock_ptr t s)" sy_locker
proof unfold_locales
  fix s s1 s2 :: "'o synchronized" and t
  assume a: "mutex_ok (sy_locker s)" "lock_ptr t s = Some s1" "sy_locker s2 = sy_locker s1"
  obtain m where m: "mutex_lock t (sy_locker s) = Some m" "s1 = s\<lparr>sy_locker := m\<rparr>"
    using a(2) by (auto simp: lock_ptr_is_lock elim: sync_lockE)
  show "\<exists>s'. Some (unlock_ptr t s2) = Some s' \<and> sy_locker s' = sy_locker s"
    using a(1,3) m mutex_lock_unlock(1) [of t "sy_locker s" m] by (simp add: lock_ptr_is_lock sync_unlock_def mutex_ok_def)
  show "\<exists>s'. lock_ptr t s2 = Some s'"
    using a(3) m mutex_lock_owner [OF m(1)] by (simp add: lock_ptr_is_lock sync_lock_def mutex_lock_def)
next
  fix s s' :: "'o synchronized" and t
  assume "mutex_ok (sy_locker s)" "lock_ptr t s = Some s'"
  then show "mutex_ok (sy_locker s')" by (auto simp: lock_ptr_is_lock mutex_ok_lock elim: sync_lockE)
qed (auto simp: lock_ptr_is_lock sync_unlock_def mutex_ok_unlock)

text \<open>A block under the lock changes the object as the block does and leaves the lock as it was.\<close>

lemma sync_block:
  assumes "mutex_ok (sy_locker s)" "lock_ptr t s = Some s1"
  shows "\<exists>s'. sync.guarded t (\<lambda>s. Some (s\<lparr>sy_rest := f (sy_rest s)\<rparr>)) s = Some s'
    \<and> sy_locker s' = sy_locker s"
  using sync.guarded_restores [OF assms, of "\<lambda>s. Some (s\<lparr>sy_rest := f (sy_rest s)\<rparr>)" "s1\<lparr>sy_rest := f (sy_rest s1)\<rparr>"]
    sync.enter_ok [OF assms] by auto

text \<open>The stand-in of the read-write mutex.\<close>

definition dummy_rw :: "'a \<Rightarrow> 'a" where "dummy_rw s = s"
definition dummy_try_write :: "'a \<Rightarrow> bool \<times> 'a" where "dummy_try_write s = (True, s)"

text \<open>Reading gives the mutex back and the readers as a multiset: \<open>end_read\<close> erases the first entry
  of the thread.\<close>

definition rw_view :: "rwmutex_t option \<Rightarrow> (mutex_t \<times> tid multiset) option" where
  "rw_view = map_option (\<lambda>s. (rw_mutex s, mset (rw_readers s)))"

lemma begin_read_view:
  assumes inv: "rw_inv s" and b: "begin_read t s = Some s'"
  shows "rw_inv s' \<and> rw_mutex s' = rw_mutex s \<and> mset (rw_readers s') = add_mset t (mset (rw_readers s))
    \<and> (mx_owner (rw_mutex s) = None \<or> mx_owner (rw_mutex s) = Some t)"
proof -
  obtain m where m: "mutex_lock t (rw_mutex s) = Some m"
    and s': "s' = s\<lparr>rw_readers := rw_readers s @ [t], rw_mutex := mutex_unlock t m\<rparr>"
    using b by (auto simp: begin_read_def split: option.splits)
  have "mx_owner (rw_mutex s) = None \<longleftrightarrow> mx_count (rw_mutex s) = 0" using inv by (simp add: rw_inv_def)
  note l = mutex_lock_unlock [OF m this]
  show ?thesis using rw_inv_step [OF inv step_begin_read [OF b]] l(1,2) s' by simp
qed

lemma end_read_view:
  assumes "rw_inv s" "mx_owner (rw_mutex s) = None \<or> mx_owner (rw_mutex s) = Some t"
  shows "\<exists>s'. end_read t s = Some s' \<and> rw_mutex s' = rw_mutex s \<and> mset (rw_readers s') = mset (rw_readers s) - {#t#}"
proof -
  obtain m where "mutex_lock t (rw_mutex s) = Some m" using assms(2) by (auto simp: mutex_lock_def)
  with mutex_lock_unlock(1) [OF this] assms(1) show ?thesis by (simp add: end_read_def rw_inv_def)
qed

interpretation rdl: scoped_lock "\<lambda>s. case_option True rw_inv s" rlocker_enter rlocker_leave rw_view
proof unfold_locales
  fix s s1 s2 :: "rwmutex_t option" and t
  assume a: "case_option True rw_inv s" "rlocker_enter t s = Some s1" "case_option True rw_inv s2" "rw_view s2 = rw_view s1"
  have cases: "(s = None \<and> s1 = None \<and> s2 = None) \<or> (\<exists>r r1 r2. s = Some r \<and> s1 = Some r1 \<and> s2 = Some r2 \<and> rw_inv r \<and> rw_inv r2
      \<and> begin_read t r = Some r1 \<and> rw_mutex r2 = rw_mutex r1 \<and> mset (rw_readers r2) = mset (rw_readers r1))"
    using a by (cases s; cases s1; cases s2) (auto simp: rlocker_enter_def rw_view_def)
  show "\<exists>s'. rlocker_leave t s2 = Some s' \<and> rw_view s' = rw_view s"
    using cases
  proof (elim disjE exE conjE)
    fix r r1 r2 assume r: "s = Some r" "s2 = Some r2" "rw_inv r" "rw_inv r2" "begin_read t r = Some r1"
      "rw_mutex r2 = rw_mutex r1" "mset (rw_readers r2) = mset (rw_readers r1)"
    with begin_read_view [OF r(3,5)] end_read_view [OF r(4), of t] show ?thesis
      by (auto simp: rlocker_leave_def rw_view_def)
  qed (simp add: rlocker_leave_def rw_view_def)
  show "\<exists>s'. rlocker_enter t s2 = Some s'"
    using cases
  proof (elim disjE exE conjE)
    fix r r1 r2 assume r: "s2 = Some r2" "rw_inv r" "begin_read t r = Some r1" "rw_mutex r2 = rw_mutex r1"
    with begin_read_view [OF r(2,3)] show ?thesis by (auto simp: rlocker_enter_def begin_read_def mutex_lock_def)
  qed (simp add: rlocker_enter_def)
next
  fix s s' :: "rwmutex_t option" and t
  assume "case_option True rw_inv s" "rlocker_leave t s = Some s'"
  then show "case_option True rw_inv s'"
    by (auto simp: rlocker_leave_def split: option.splits intro: rw_inv_step [OF _ step_end_read])
qed (auto simp: rlocker_enter_def split: option.splits dest: begin_read_view)

text \<open>Writing, from the try of \<open>begin_write\<close> that succeeds.\<close>

definition write_enter :: "tid \<Rightarrow> rwmutex_t option \<Rightarrow> rwmutex_t option option" where
  "write_enter t rwmtx = (case rwmtx of None \<Rightarrow> Some None
     | Some s \<Rightarrow> (case try_write t s of Some (True, s') \<Rightarrow> Some (Some s') | _ \<Rightarrow> None))"

lemma try_write_true:
  assumes "rw_inv s" "try_write t s = Some (True, s')"
  shows "rw_inv s' \<and> rw_write s' \<and> mx_owner (rw_mutex s') = Some t \<and> set (rw_readers s') \<subseteq> {t}
    \<and> rw_readers s' = rw_readers s \<and> mutex_lock t (rw_mutex s) = Some (rw_mutex s')"
  using assms rw_inv_step [OF assms(1) step_try_write [OF assms(2)]]
  by (auto simp: try_write_def mutex_lock_def list_ex_iff split: option.splits if_splits)

lemma end_write_restores:
  assumes "rw_inv s" "mutex_lock t (rw_mutex s) = Some (rw_mutex s2)" "rw_inv s2"
  shows "rw_mutex (end_write t s2) = rw_mutex s"
proof -
  have m: "mx_owner (rw_mutex s) = None \<longleftrightarrow> mx_count (rw_mutex s) = 0" using assms(1) by (simp add: rw_inv_def)
  note l = mutex_lock_unlock [OF assms(2) m]
  then have "rw_write s2" using assms(3) by (simp add: rw_inv_def)
  with l(1) show ?thesis by (simp add: end_write_def)
qed

interpretation wrl: scoped_lock "\<lambda>s. case_option True rw_inv s" write_enter "\<lambda>t s. Some (wlocker_leave t s)" rw_view
proof unfold_locales
  fix s s1 s2 :: "rwmutex_t option" and t
  assume a: "case_option True rw_inv s" "write_enter t s = Some s1" "case_option True rw_inv s2" "rw_view s2 = rw_view s1"
  have cases: "(s = None \<and> s1 = None \<and> s2 = None) \<or> (\<exists>r r1 r2. s = Some r \<and> s1 = Some r1 \<and> s2 = Some r2 \<and> rw_inv r \<and> rw_inv r2
      \<and> try_write t r = Some (True, r1) \<and> rw_mutex r2 = rw_mutex r1 \<and> mset (rw_readers r2) = mset (rw_readers r1))"
    using a by (auto simp: write_enter_def rw_view_def split: option.splits prod.splits bool.splits)
  show "\<exists>s'. Some (wlocker_leave t s2) = Some s' \<and> rw_view s' = rw_view s"
    using cases
  proof (elim disjE exE conjE)
    fix r r1 r2 assume r: "s = Some r" "s2 = Some r2" "rw_inv r" "rw_inv r2" "try_write t r = Some (True, r1)"
      "rw_mutex r2 = rw_mutex r1" "mset (rw_readers r2) = mset (rw_readers r1)"
    note w = try_write_true [OF r(3,5)]
    then have "rw_mutex (end_write t r2) = rw_mutex r" using end_write_restores [OF r(3) _ r(4)] r(6) by simp
    moreover have "rw_readers (end_write t r2) = rw_readers r2" by (simp add: end_write_def)
    ultimately show ?thesis using r w by (simp add: wlocker_leave_def rw_view_def)
  qed (simp add: wlocker_leave_def rw_view_def)
  show "\<exists>s'. write_enter t s2 = Some s'"
    using cases
  proof (elim disjE exE conjE)
    fix r r1 r2 assume r: "s2 = Some r2" "rw_inv r" "rw_inv r2" "try_write t r = Some (True, r1)"
      "rw_mutex r2 = rw_mutex r1" "mset (rw_readers r2) = mset (rw_readers r1)"
    note w = try_write_true [OF r(2,4)]
    then have "set (rw_readers r2) \<subseteq> {t}" using mset_eq_setD [OF r(6)] by auto
    with w r(1,5) show ?thesis by (auto simp: write_enter_def try_write_def mutex_lock_def list_ex_iff)
  qed (simp add: write_enter_def)
next
  fix s s' :: "rwmutex_t option" and t
  assume "case_option True rw_inv s" "write_enter t s = Some s'"
  then show "case_option True rw_inv s'"
    by (auto simp: write_enter_def dest: try_write_true split: option.splits prod.splits bool.splits)
next
  fix s s' :: "rwmutex_t option" and t
  assume "case_option True rw_inv s" "Some (wlocker_leave t s) = Some s'"
  then show "case_option True rw_inv s'"
    by (auto simp: wlocker_leave_def split: option.splits intro: rw_inv_step [OF _ step_end_write])
qed

subsection \<open>The scope of a writer\<close>

text \<open>What may happen from the moment a thread was let in for writing: anything by the others, and
  reads and nested writes by the thread itself; \<open>n\<close> is the depth of the nested writes.\<close>

inductive write_scope :: "tid \<Rightarrow> rwmutex_t \<Rightarrow> nat \<Rightarrow> rwmutex_t \<Rightarrow> bool" for t s where
  ws_start: "write_scope t s 0 s"
| ws_other: "write_scope t s n s1 \<Longrightarrow> rw_step s1 u op s2 \<Longrightarrow> u \<noteq> t \<Longrightarrow> write_scope t s n s2"
| ws_read: "write_scope t s n s1 \<Longrightarrow> rw_step s1 t op s2 \<Longrightarrow> op \<in> {Begin_read, End_read} \<Longrightarrow> write_scope t s n s2"
| ws_write: "write_scope t s n s1 \<Longrightarrow> rw_step s1 t (Try_write True) s2 \<Longrightarrow> write_scope t s (Suc n) s2"
| ws_end: "write_scope t s (Suc n) s1 \<Longrightarrow> rw_step s1 t End_write s2 \<Longrightarrow> write_scope t s n s2"

lemma other_locked: "mx_owner m = Some t \<Longrightarrow> u \<noteq> t \<Longrightarrow> mutex_lock u m = None \<and> mutex_unlock u m = m"
  by (simp add: mutex_lock_def mutex_unlock_def)

lemma other_step:
  assumes "rw_step s u op s'" "mx_owner (rw_mutex s) = Some t" "u \<noteq> t"
  shows "rw_mutex s' = rw_mutex s \<and> rw_readers s' = rw_readers s"
  using assms other_locked [OF assms(2,3)]
  by (cases rule: rw_step.cases) (auto simp: begin_read_def end_read_def try_write_def end_write_def)

lemma write_scope_holds:
  "write_scope t s n s' \<Longrightarrow> rw_inv s \<Longrightarrow> mx_owner (rw_mutex s) = Some t \<Longrightarrow>
     rw_inv s' \<and> mx_owner (rw_mutex s') = Some t \<and> mx_count (rw_mutex s') = mx_count (rw_mutex s) + n"
proof (induction rule: write_scope.induct)
  case (ws_other n s1 u op s2)
  then have i: "rw_inv s1" "mx_owner (rw_mutex s1) = Some t" by blast+
  from rw_inv_step [OF i(1) ws_other.hyps(2)] other_step [OF ws_other.hyps(2) i(2) ws_other.hyps(3)] ws_other.IH ws_other.prems
  show ?case by simp
next
  case (ws_read n s1 op s2)
  then have i: "rw_inv s1" "mx_owner (rw_mutex s1) = Some t" "rw_inv s2" using rw_inv_step by blast+
  have "begin_read t s1 = Some s2 \<or> end_read t s1 = Some s2" using ws_read.hyps(2,3) by (auto elim: rw_step.cases)
  then have "rw_mutex s2 = rw_mutex s1"
    using begin_read_view [OF i(1), of t s2] end_read_view [OF i(1), of t] i(2) by auto
  with ws_read i show ?case by simp
next
  case (ws_write n s1 s2)
  then have "rw_inv s1" "try_write t s1 = Some (True, s2)" by (auto elim: rw_step.cases)
  from try_write_true [OF this] have "rw_inv s2" "mx_owner (rw_mutex s2) = Some t"
    "rw_mutex s2 = \<lparr>mx_owner = Some t, mx_count = mx_count (rw_mutex s1) + 1\<rparr>" by (auto simp: mutex_lock_def split: if_splits)
  with ws_write show ?case by simp
next
  case (ws_end n s1 s2)
  then have i: "rw_inv s1" "mx_owner (rw_mutex s1) = Some t" "mx_count (rw_mutex s1) = mx_count (rw_mutex s) + Suc n" by blast+
  have "s2 = end_write t s1" using ws_end.hyps(2) by (auto elim: rw_step.cases)
  moreover have "rw_write s1" using i(1,2) by (simp add: rw_inv_def)
  ultimately have "rw_mutex s2 = mutex_unlock t (rw_mutex s1)" by (simp add: end_write_def)
  moreover have "0 < mx_count (rw_mutex s)" using ws_end.prems by (auto simp: rw_inv_def)
  ultimately show ?case using i rw_inv_step [OF i(1) ws_end.hyps(2)] by (simp add: mutex_unlock_def)
qed simp

lemma writer_scope:
  assumes "rw_reach s" "try_write t s = Some (True, s1)" "write_scope t s1 n s2" "u \<noteq> t"
  shows "u \<notin> set (rw_readers s2)" "begin_read u s2 = None" "try_write u s2 = None"
    "n = 0 \<Longrightarrow> rw_mutex (end_write t s2) = rw_mutex s"
proof -
  have inv: "rw_inv s" using rw_reach_inv [OF assms(1)] .
  note w = try_write_true [OF inv assms(2)]
  have h: "rw_inv s2" "mx_owner (rw_mutex s2) = Some t" "mx_count (rw_mutex s2) = mx_count (rw_mutex s1) + n"
    using write_scope_holds [OF assms(3)] w by blast+
  then show "u \<notin> set (rw_readers s2)" "begin_read u s2 = None" "try_write u s2 = None"
    using assms(4) other_locked [OF h(2) assms(4)] by (auto simp: rw_inv_def begin_read_def try_write_def)
  show "rw_mutex (end_write t s2) = rw_mutex s" if "n = 0"
  proof (rule end_write_restores [OF inv _ h(1)])
    have "rw_mutex s2 = rw_mutex s1" using h(2,3) w that by (cases "rw_mutex s2"; cases "rw_mutex s1") simp
    with w show "mutex_lock t (rw_mutex s) = Some (rw_mutex s2)" by simp
  qed
qed

text \<open>\<open>begin_write\<close> returns only inside, and it returns once the others have left.\<close>

lemma begin_write_inside:
  "begin_write fuel others k t s = Some s' \<Longrightarrow> rw_inv s \<Longrightarrow> \<forall>k s. rw_inv s \<longrightarrow> rw_inv (others k s) \<Longrightarrow>
     rw_inv s' \<and> mx_owner (rw_mutex s') = Some t \<and> set (rw_readers s') \<subseteq> {t}"
proof (induction fuel arbitrary: k s)
  case (Suc fuel)
  show ?case
  proof (cases "try_write t s")
    case (Some r)
    obtain b s1 where r: "r = (b, s1)" by (cases r)
    have "rw_inv s1" using rw_inv_step [OF Suc.prems(2) step_try_write] Some r by blast
    with Suc Some r try_write_true [OF Suc.prems(2), of t s1] show ?thesis by (cases b) auto
  qed (use Suc in auto)
qed simp

lemma begin_write_returns:
  assumes free: "\<And>s. mx_owner (rw_mutex (others k s)) = None \<and> rw_readers (others k s) = []"
  shows "n \<le> k \<Longrightarrow> \<exists>s'. begin_write (k - n + 2) others n t s = Some s'"
proof (induction "k - n" arbitrary: n s)
  case 0
  then have "n = k" by simp
  moreover have "try_write t (others k s') = Some (True, (others k s')\<lparr>rw_write := True, rw_mutex := \<lparr>mx_owner = Some t,
      mx_count = mx_count (rw_mutex (others k s')) + 1\<rparr>\<rparr>)" for s'
    using free [of s'] by (simp add: try_write_def mutex_lock_def)
  ultimately show ?case by (auto simp: numeral_2_eq_2 split: option.splits bool.splits)
next
  case (Suc m)
  then have n: "k - n = Suc m" "m = k - Suc n" "Suc n \<le> k" by auto
  from Suc.hyps(1) [OF n(2,3)] show ?case unfolding n(1) using n(2) by (auto split: option.splits bool.splits)
qed

text \<open>The guard with a mode excludes the other readers, also when it was made for reading.\<close>

lemma rwlocker_ignores_mode: "rwlocker_enter fuel others RW_read = rwlocker_enter fuel others RW_write"
  by (simp add: rwlocker_enter_def rwlocker_mode_def fun_eq_iff)

subsection \<open>The semaphore object\<close>

definition new_semaphore :: "bool \<Rightarrow> bool \<Rightarrow> bool \<Rightarrow> int option" where
  "new_semaphore ok create_it signal_it = (if create_it then snd (sem_create ok signal_it None) else None)"

definition sem_is_created :: "int option \<Rightarrow> bool" where "sem_is_created sem = (sem \<noteq> None)"

lemma new_semaphore_wait:
  "sem_wait (new_semaphore True True True) = Some (True, Some 0)" "sem_wait (new_semaphore True True False) = None"
  by (simp_all add: new_semaphore_def sem_create_def sem_signal_def XTL_SEMMAX_def sem_wait_def Let_def)

subsection \<open>The life of a thread\<close>

definition kill_handle :: "thread_t \<Rightarrow> thread_t" where
  "kill_handle th = th\<lparr>th_thread := False\<rparr>"

text \<open>\<open>thread_main_func\<close>; \<open>main\<close> is what the thread does to its object until it returns or
  throws; \<open>None\<close> when the object deletes itself.\<close>

definition thread_main_func :: "(thread_t \<Rightarrow> thread_t) \<Rightarrow> thread_t \<Rightarrow> thread_t option" where
  "thread_main_func main th = (let th = main th in if th_free_on_term th then None else Some (kill_handle th))"

definition get_free_on_term :: "thread_t \<Rightarrow> bool" where "get_free_on_term = th_free_on_term"
definition set_free_on_term :: "bool \<Rightarrow> thread_t \<Rightarrow> thread_t" where "set_free_on_term v th = th\<lparr>th_free_on_term := v\<rparr>"
definition is_terminated :: "thread_t \<Rightarrow> bool" where "is_terminated = th_terminated"
definition terminate_thread :: "thread_t \<Rightarrow> thread_t" where "terminate_thread th = th\<lparr>th_terminated := True\<rparr>"
definition set_wait_on_destroy :: "bool \<Rightarrow> thread_t \<Rightarrow> thread_t" where
  "set_wait_on_destroy v th = th\<lparr>th_wait_on_destroy := v\<rparr>"
definition get_wait_on_destroy :: "thread_t \<Rightarrow> bool" where "get_wait_on_destroy = th_wait_on_destroy"
definition is_created :: "thread_t \<Rightarrow> bool" where "is_created = th_thread"
definition get_priority :: "thread_t \<Rightarrow> int" where "get_priority = th_priority"
definition set_priority :: "int \<Rightarrow> thread_t \<Rightarrow> thread_t" where "set_priority v th = th\<lparr>th_priority := v\<rparr>"

text \<open>The destructor.\<close>

definition thread_delete :: "nat \<Rightarrow> (nat \<Rightarrow> bool) \<Rightarrow> thread_t \<Rightarrow> thread_t option" where
  "thread_delete fuel running th =
     (if \<not> th_thread th then Some th
      else map_option kill_handle
             (if \<not> th_free_on_term th \<and> th_wait_on_destroy th
              then map_option snd (terminate_and_wait fuel running 60000 th) else Some th))"

text \<open>The minute of the destructor is a multiple of 25 ms, so that it always ends.\<close>

lemma wait_minute: "\<exists>rc th'. wait_for 2401 running 60000 th = Some (rc, th')"
  using wait_loop_multiple [of 2400 running 0] by (auto simp: wait_for_def)

lemma thread_delete_returns: "\<exists>th'. thread_delete 2401 running th = Some th' \<and> \<not> th_thread th'"
  using wait_minute [of running "th\<lparr>th_terminated := True\<rparr>"]
  by (auto simp: thread_delete_def terminate_and_wait_def kill_handle_def)

text \<open>A thread is created again after its end, and can be waited for once in each life.\<close>

lemma thread_lives:
  assumes "thread_main_func main th = Some th1"
  shows "\<exists>th2. thread_create True th1 = (True, th2) \<and> is_created th2 \<and> \<not> is_terminated th2 \<and> \<not> th_waiting th2"
  using assms
  by (auto simp: thread_main_func_def thread_create_def kill_handle_def is_created_def is_terminated_def Let_def split: if_splits)

end
