(* ===== verification/Wide.thy ===== *)
theory Wide
  imports Text
begin

text \<open>
  \<open>src/src/com/xtllib/xtl_string.h\<close> and \<open>xtl_utils.h\<close>: strings of wide characters and their
  line ends, hexadecimal numbers, times, the directory of the program.  \<open>wchr_t\<close> is a \<open>short\<close>
  of which only the bits count; \<open>le\<close> says whether the machine keeps its low byte first.

  The conversion of line ends on wide strings is the one on narrow strings, whichever of the two
  orders the bytes of the characters are in, unless the string begins with the mark that should
  tell the order.
\<close>

unbundle bit_operations_syntax

type_synonym wchr_t = "16 word"

definition wc_bytes :: "bool \<Rightarrow> wchr_t \<Rightarrow> wchr_t \<times> wchr_t" where
  "wc_bytes le wc = (if le then (wc AND 0xFF, drop_bit 8 wc) else (drop_bit 8 wc, wc AND 0xFF))"

definition get_bom :: "bool \<Rightarrow> wchr_t list \<Rightarrow> int" where
  "get_bom le s =
     (case s of [] \<Rightarrow> 0
      | wc # _ \<Rightarrow>
          let (b0, b1) = wc_bytes le wc in
          if wc = 0xFFFE \<or> (b0 \<noteq> 0 \<and> b1 = 0) then 1
          else if wc = 0xFEFF \<or> (b0 = 0 \<and> b1 \<noteq> 0) then 2
          else 0)"

definition crlf_chrs :: "bool \<Rightarrow> wchr_t list \<Rightarrow> wchr_t \<times> wchr_t" where
  "crlf_chrs le s = (if get_bom le s = 2 then (0x0D00, 0x0A00) else (0x000D, 0x000A))"

fun wcrlf_loop ::
  "wchr_t \<Rightarrow> wchr_t \<Rightarrow> wchr_t list \<Rightarrow> wchr_t option \<Rightarrow> wchr_t list \<Rightarrow> wchr_t list \<Rightarrow> wchr_t list \<Rightarrow> wchr_t list" where
  "wcrlf_loop wcr wlf wchrs prev run ret [] = (if run \<noteq> [] then ret @ run else ret)"
| "wcrlf_loop wcr wlf wchrs prev run ret (c # cs) =
     (if c = wcr \<or> c = wlf then
        let ret = (if run \<noteq> [] then ret @ run else ret);
            ret = (if c \<noteq> wlf \<or> prev \<noteq> Some wcr then ret @ wchrs else ret)
        in wcrlf_loop wcr wlf wchrs (Some c) [] ret cs
      else wcrlf_loop wcr wlf wchrs (Some c) (run @ [c]) ret cs)"

definition wcrlf_to :: "bool \<Rightarrow> wchr_t list \<Rightarrow> wchr_t list \<Rightarrow> nat \<Rightarrow> wchr_t list" where
  "wcrlf_to le s wchrs cnt =
     (if s = [] then s
      else let (wcr, wlf) = crlf_chrs le s in wcrlf_loop wcr wlf (take cnt wchrs) None [] [] s)"

definition wcrlf_to_win :: "bool \<Rightarrow> wchr_t list \<Rightarrow> wchr_t list" where
  "wcrlf_to_win le s = (let (wcr, wlf) = crlf_chrs le s in wcrlf_to le s [wcr, wlf] 2)"

definition wcrlf_to_mac :: "bool \<Rightarrow> wchr_t list \<Rightarrow> wchr_t list" where
  "wcrlf_to_mac le s = (let (wcr, wlf) = crlf_chrs le s in wcrlf_to le s [wcr] 1)"

definition wcrlf_to_unix :: "bool \<Rightarrow> wchr_t list \<Rightarrow> wchr_t list" where
  "wcrlf_to_unix le s = (let (wcr, wlf) = crlf_chrs le s in wcrlf_to le s [wlf] 1)"

subsection \<open>Narrow and wide\<close>

text \<open>A character in the order of the machine and in the other one.\<close>

definition widen :: "char \<Rightarrow> wchr_t" where "widen c = word_of_nat (of_char c)"
definition widen_swapped :: "char \<Rightarrow> wchr_t" where "widen_swapped c = push_bit 8 (widen c)"

lemma of_char_bound: "(of_char c :: nat) < 256"
  using of_char_mod_256 [of c, where 'a = nat] mod_less_divisor [of 256 "of_char c"] by simp

lemma unat_widen: "unat (widen c) = of_char c"
proof -
  have "(of_char c :: nat) < 65536" using of_char_bound [of c] by linarith
  then show ?thesis by (simp add: widen_def unat_of_nat)
qed

lemma unat_widen_swapped: "unat (widen_swapped c) = 256 * of_char c"
proof -
  have "widen_swapped c = word_of_nat (256 * of_char c)" by (simp add: widen_swapped_def widen_def push_bit_eq_mult)
  moreover have "256 * of_char c < (65536 :: nat)" using of_char_bound [of c] by linarith
  ultimately show ?thesis by (simp only: unat_of_nat) simp
qed

lemma unat_low: "unat (w AND 0xFF :: wchr_t) = unat w mod 256"
proof -
  have "w AND 0xFF = w mod 256" using take_bit_eq_mask [of 8 w] by (simp add: mask_eq_exp_minus_1 take_bit_eq_mod)
  then show ?thesis by (simp add: unat_mod_distrib)
qed

lemma unat_high: "unat (drop_bit 8 w :: wchr_t) = unat w div 256"
  by (simp add: drop_bit_eq_div unat_div_distrib)

lemma word_eq_unat: "(a :: wchr_t) = b \<longleftrightarrow> unat a = unat b"
  by (simp add: word_unat_eq_iff)

text \<open>The order of the bytes is told from the first character, if it is not the null character.\<close>

lemma wc_bytes_widen:
  "wc_bytes True (widen c) = (widen c, 0)" "wc_bytes True (widen_swapped c) = (0, widen c)"
  using of_char_bound [of c]
  by (simp_all add: wc_bytes_def word_eq_unat unat_low unat_high unat_widen unat_widen_swapped del: drop_bit_eq_div)

lemma widen_null: "widen c = 0 \<longleftrightarrow> c = CHR 0x00"
proof -
  have "widen c = 0 \<longleftrightarrow> (of_char c :: nat) = of_char (CHR 0x00)" by (simp add: word_eq_unat unat_widen)
  then show ?thesis by (simp only: of_char_eq_iff)
qed

lemma not_mark: "widen_swapped c \<noteq> 0xFFFE" "widen_swapped c \<noteq> 0xFEFF"
proof -
  have "256 * n \<noteq> 65534" "256 * n \<noteq> 65279" for n :: nat by presburger+
  then show "widen_swapped c \<noteq> 0xFFFE" "widen_swapped c \<noteq> 0xFEFF"
    by (simp_all add: word_eq_unat unat_widen_swapped del: mult_cancel_left)
qed

lemma get_bom_widen:
  "c \<noteq> CHR 0x00 \<Longrightarrow> get_bom True (widen c # s) = 1"
  "c \<noteq> CHR 0x00 \<Longrightarrow> get_bom True (widen_swapped c # s) = 2"
  by (simp_all add: get_bom_def wc_bytes_widen widen_null not_mark)

locale line_ends =
  fixes w :: "char \<Rightarrow> wchr_t"
  assumes inj_w: "w c = w d \<longleftrightarrow> c = d"
    and chrs: "c \<noteq> CHR 0x00 \<Longrightarrow> crlf_chrs True (w c # s) = (w cr, w lf)"
begin

lemma loop_same:
  "wcrlf_loop (w cr) (w lf) (map w nl) (map_option w prev) (map w run) (map w ret) (map w s) = map w (crlf_loop nl prev run ret s)"
proof (induction s arbitrary: prev run ret)
  case (Cons c cs)
  have p: "(map_option w prev = Some (w cr)) = (prev = Some cr)" by (cases prev) (auto simp: inj_w)
  let ?ret = "if run \<noteq> [] then ret @ run else ret"
  let ?ret' = "if c \<noteq> lf \<or> prev \<noteq> Some cr then ?ret @ nl else ?ret"
  have r: "(if map w run \<noteq> [] then map w ret @ map w run else map w ret) = map w ?ret" by simp
  have r': "(if w c \<noteq> w lf \<or> map_option w prev \<noteq> Some (w cr) then map w ?ret @ map w nl else map w ?ret) = map w ?ret'"
    by (simp add: inj_w p)
  show ?case
  proof (cases "c = cr \<or> c = lf")
    case True
    then have "wcrlf_loop (w cr) (w lf) (map w nl) (map_option w prev) (map w run) (map w ret) (map w (c # cs))
        = wcrlf_loop (w cr) (w lf) (map w nl) (Some (w c)) [] (map w ?ret') (map w cs)"
      unfolding list.map(2) wcrlf_loop.simps(2) Let_def r r' by (simp add: inj_w)
    also have "\<dots> = map w (crlf_loop nl (Some c) [] ?ret' cs)" using Cons [of "Some c" "[]" ?ret'] by (simp only: option.map list.map)
    also have "\<dots> = map w (crlf_loop nl prev run ret (c # cs))" using True by (simp only: crlf_loop.simps Let_def if_True)
    finally show ?thesis .
  next
    case False
    with Cons [of "Some c" "run @ [c]" ret] show ?thesis by (simp add: inj_w)
  qed
qed simp

lemma to_same:
  assumes "s = [] \<or> hd s \<noteq> CHR 0x00"
  shows "wcrlf_to True (map w s) (map w nl) n = map w (crlf_to s nl n)"
proof (cases s)
  case (Cons c t)
  with assms have "crlf_chrs True (map w s) = (w cr, w lf)" using chrs [of c] by simp
  with Cons loop_same [of "take n nl" None "[]" "[]" s] show ?thesis
    by (simp add: wcrlf_to_def crlf_to_def take_map)
qed (simp add: wcrlf_to_def crlf_to_def)

lemma line_ends_same:
  assumes "s = [] \<or> hd s \<noteq> CHR 0x00"
  shows "wcrlf_to_win True (map w s) = map w (crlf_to_win s)"
    "wcrlf_to_mac True (map w s) = map w (crlf_to_mac s)"
    "wcrlf_to_unix True (map w s) = map w (crlf_to_unix s)"
proof -
  consider "s = []" | "crlf_chrs True (map w s) = (w cr, w lf)" using assms chrs by (cases s) auto
  then have "wcrlf_to_win True (map w s) = map w (crlf_to_win s)
      \<and> wcrlf_to_mac True (map w s) = map w (crlf_to_mac s) \<and> wcrlf_to_unix True (map w s) = map w (crlf_to_unix s)"
  proof cases
    case 1
    then show ?thesis
      by (simp add: wcrlf_to_win_def wcrlf_to_mac_def wcrlf_to_unix_def wcrlf_to_def crlf_to_win_def crlf_to_mac_def
          crlf_to_unix_def crlf_to_def split: prod.splits)
  next
    case 2
    then show ?thesis
      using to_same [OF assms, of "[cr, lf]" 2] to_same [OF assms, of "[cr]" 1] to_same [OF assms, of "[lf]" 1]
      by (simp add: wcrlf_to_win_def wcrlf_to_mac_def wcrlf_to_unix_def crlf_to_win_def crlf_to_mac_def crlf_to_unix_def)
  qed
  then show "wcrlf_to_win True (map w s) = map w (crlf_to_win s)"
    "wcrlf_to_mac True (map w s) = map w (crlf_to_mac s)"
    "wcrlf_to_unix True (map w s) = map w (crlf_to_unix s)" by blast+
qed

end

lemma widen_eq: "widen c = widen d \<longleftrightarrow> c = d" "widen_swapped c = widen_swapped d \<longleftrightarrow> c = d"
  by (simp_all add: word_eq_unat unat_widen unat_widen_swapped)

interpretation native: line_ends widen
  by unfold_locales (simp_all add: widen_eq crlf_chrs_def get_bom_widen, simp add: widen_def cr_def lf_def)

interpretation swapped: line_ends widen_swapped
  by unfold_locales (simp_all add: widen_eq crlf_chrs_def get_bom_widen, simp add: widen_swapped_def widen_def cr_def lf_def)

text \<open>The mark \<open>0xFEFF\<close> in the order of the machine is taken for the other order, so that the line
  ends of a marked string stay as they are; so is a first character with a low byte of zero.\<close>

lemma mark_taken_for_swapped:
  "wcrlf_to_unix True [0xFEFF, 0x0061, 0x000D, 0x000A] = [0xFEFF, 0x0061, 0x000D, 0x000A]"
  "wcrlf_to_unix True [0x0100, 0x000D, 0x000A] = [0x0100, 0x000D, 0x000A]"
  by code_simp+

subsection \<open>Hexadecimal numbers\<close>

definition hex_val :: "char \<Rightarrow> int option" where
  "hex_val c =
     (if is_digit c then Some (digit_val c)
      else let n = of_char (tolower c) :: nat in
           if 97 \<le> n \<and> n \<le> 102 then Some (int n - 87) else None)"

fun hex_digits :: "int \<Rightarrow> string \<Rightarrow> int" where
  "hex_digits acc [] = acc"
| "hex_digits acc (c # cs) = (case hex_val c of None \<Rightarrow> acc | Some d \<Rightarrow> hex_digits (acc * 16 + d) cs)"

text \<open>\<open>strtol\<close> with base 16: \<open>0x\<close> counts when a digit follows.\<close>

fun hex_number :: "string \<Rightarrow> int" where
  "hex_number (a # x # d # cs) =
     (if a = CHR ''0'' \<and> tolower x = CHR ''x'' \<and> hex_val d \<noteq> None then hex_digits 0 (d # cs)
      else hex_digits 0 (a # x # d # cs))"
| "hex_number cs = hex_digits 0 cs"

definition nextol :: "string \<Rightarrow> int" where
  "nextol nex =
     fit (case dropWhile is_space (c_str nex) of
            [] \<Rightarrow> 0
          | c # cs \<Rightarrow> if c = CHR ''-'' then - hex_number cs
                      else if c = CHR ''+'' then hex_number cs else hex_number (c # cs))
         (- (2 ^ 63)) (2 ^ 63 - 1)"

lemma nextol_examples: "nextol ''0xfF'' = 255" "nextol ''  -10g'' = -16" "nextol ''0x'' = 0" "nextol [] = 0"
  by code_simp+

subsection \<open>Times\<close>

text \<open>\<open>%02d\<close>; the conversions to \<open>int\<close> wrap around.\<close>

definition pad2 :: "int \<Rightarrow> string" where
  "pad2 n = (if 0 \<le> n \<and> n < 10 then CHR ''0'' # itos n else itos n)"

definition ttos :: "int \<Rightarrow> string" where
  "ttos total_secs =
     (let hours = signed_take_bit 31 (c_div total_secs 3600);
          tmp_sec = signed_take_bit 31 (total_secs - hours * 3600);
          mins = c_div tmp_sec 60;
          secs = tmp_sec - mins * 60
      in pad2 hours @ '':'' @ pad2 mins @ '':'' @ pad2 secs)"

lemma ttos_fields:
  assumes "0 \<le> t" "t < 3600 * 2 ^ 31"
  shows "ttos t = pad2 (t div 3600) @ '':'' @ pad2 (t mod 3600 div 60) @ '':'' @ pad2 (t mod 60)"
proof -
  have h: "0 \<le> t div 3600" "t div 3600 < 2 ^ 31" using assms by (simp_all add: div_less_iff_less_mult)
  have id: "signed_take_bit 31 x = x" if "0 \<le> x" "x < 2 ^ 31" for x :: int
    using that by (intro signed_take_bit_int_eq_self) simp_all
  have r: "t - t div 3600 * 3600 = t mod 3600" by (simp add: minus_div_mult_eq_mod)
  have m: "0 \<le> t mod 3600" "t mod 3600 < 2 ^ 31" using pos_mod_bound [of 3600 t] by simp_all
  have s: "t mod 3600 - t mod 3600 div 60 * 60 = t mod 60"
    by (simp add: minus_div_mult_eq_mod mod_mod_cancel)
  have c: "c_div t 3600 = t div 3600" "c_div (t mod 3600) 60 = t mod 3600 div 60" using assms(1) m(1) by simp_all
  show ?thesis unfolding ttos_def Let_def c(1) id [OF h] r id [OF m] c(2) s ..
qed

lemma ttos_examples: "ttos 3661 = ''01:01:01''" "ttos 0 = ''00:00:00''" "ttos (-61) = ''00:-1:-1''"
  by code_simp+

subsection \<open>The directory of the program\<close>

text \<open>\<open>argv\<close> is \<open>__argv[0]\<close>, \<open>None\<close> when there are no arguments; the buffer has \<open>len\<close> bytes.\<close>

definition parse_pdir :: "string option \<Rightarrow> int \<Rightarrow> int \<Rightarrow> string option" where
  "parse_pdir argv len slash =
     (case argv of None \<Rightarrow> None
      | Some a \<Rightarrow>
          if len \<le> 0 then None
          else (case parse_path (take (nat (xtl_min (int (length (c_str a))) (len - 1))) (c_str a)) slash of
                  (ok, buf) \<Rightarrow> Some (if ok then buf else [])))"

definition parse_pdir_s :: "string option \<Rightarrow> int \<Rightarrow> string" where
  "parse_pdir_s argv slash = (case parse_pdir argv 1023 slash of None \<Rightarrow> [] | Some s \<Rightarrow> s)"

lemma parse_pdir_examples:
  "parse_pdir_s (Some ''/usr/sbin/nrdproxyd'') 1 = ''/usr/sbin/''"
  "parse_pdir_s (Some ''/usr/sbin/nrdproxyd'') 0 = ''/usr/sbin''"
  "parse_pdir_s (Some ''nrdproxyd'') 1 = []" "parse_pdir_s None 1 = []"
  by code_simp+

end
