(* ===== verification/Messages.thy ===== *)
theory Messages
  imports Process
begin

text \<open>
  The texts of \<open>src/src/nrdpx_server.cpp\<close>: the version, the licence and the help of the command
  line, and the log file with its rotation.  The options that the help lists are the options that \<open>parse_args\<close> takes, and the paths
  it gives are the ones the program starts with.
\<close>

definition tab :: char where "tab = CHR 0x09"
definition quote :: char where "quote = CHR 0x22"
definition apostrophe :: char where "apostrophe = CHR 0x27"

definition VERSION_NUMBER_MAJOR :: nat where "VERSION_NUMBER_MAJOR = 1"
definition VERSION_NUMBER_MINOR :: nat where "VERSION_NUMBER_MINOR = 6"
definition VERSION_NUMBER_BUILD :: nat where "VERSION_NUMBER_BUILD = 20261005"

text \<open>\<open>%08u\<close>\<close>

definition pad8 :: "nat \<Rightarrow> string" where
  "pad8 n = (let s = nat_digits n in replicate (8 - length s) (CHR ''0'') @ s)"

definition nrdpx_version_info :: string where
  "nrdpx_version_info = ''NuoRDS Proxy '' @ nat_digits VERSION_NUMBER_MAJOR @ ''.'' @ nat_digits VERSION_NUMBER_MINOR
     @ ''.'' @ pad8 VERSION_NUMBER_BUILD"

definition nrdpx_license_info :: string where
  "nrdpx_license_info = nrdpx_version_info @ concat [
     [lf] @ [lf] @ ''Copyright 2006-2020, Volodymyr Bykov. All rights reserved.'' @ [lf] @ [lf],
     ''This program is free software: you can redistribute it and/or modify'' @ [lf],
     ''it under the terms of the GNU General Public License as published by'' @ [lf],
     ''the Free Software Foundation, either version 3 of the License, or'' @ [lf],
     ''(at your option) any later version.'' @ [lf] @ [lf],
     ''This program is distributed in the hope that it will be useful,'' @ [lf],
     ''but WITHOUT ANY WARRANTY; without even the implied warranty of'' @ [lf],
     ''MERCHANTABILITY or FITNESS FOR A PARTICULAR PURPOSE.  See the'' @ [lf],
     ''GNU General Public License for more details.'' @ [lf] @ [lf],
     ''You should have received a copy of the GNU General Public License'' @ [lf],
     ''along with this program.  If not, see <http://www.gnu.org/licenses/>.'' @ [lf] @ [lf],
     ''As of May 1 2020, a revocable permission to distribute binary copies'' @ [lf],
     ''of this software without source code and/or copyright notice has been'' @ [lf],
     ''granted to Ozolio Inc (a Hawaii Corporation) by the author.'' @ [lf]]"

definition help_lines :: "string list" where
  "help_lines = [
     [lf] @ ''USAGE: nrdproxyd [options]'' @ [lf],
     [lf] @ ''OPTIONS:'' @ [lf] @ [lf],
     [tab] @ ''-cf <path>'' @ [tab] @ ''- Path to a custom config file.'' @ [lf],
     [tab] @ ''-lf <path>'' @ [tab] @ ''- Path to a custom log file.'' @ [lf],
     [tab] @ ''-la'' @ [tab] @ [tab] @ ''- Append log to an existing file.'' @ [lf],
     [tab] @ ''-lc'' @ [tab] @ [tab] @ ''- Print log messages to console.'' @ [lf],
     [tab] @ ''-ls'' @ [tab] @ [tab] @ ''- Print log messages to syslog.'' @ [lf],
     [tab] @ ''-lv'' @ [tab] @ [tab] @ ''- Verbose log mode (same as -ll 7).'' @ [lf],
     [tab] @ ''-ll <level>'' @ [tab] @ ''- A custom log level (0...7).'' @ [lf],
     [tab] @ ''-dl'' @ [tab] @ [tab] @ ''- Lite daemon mode (launchd style).'' @ [lf],
     [tab] @ ''-dd'' @ [tab] @ [tab] @ ''- Daemonize, detach and store pid.'' @ [lf],
     [tab] @ ''-pf <path>'' @ [tab] @ ''- Path to a custom PID file ('' @ [apostrophe] @ ''-dd'' @ [apostrophe] @ '').'' @ [lf],
     [tab] @ ''-v'' @ [tab] @ [tab] @ ''- Print version information.'' @ [lf],
     [tab] @ ''-c'' @ [tab] @ [tab] @ ''- Print copyright information.'' @ [lf],
     [tab] @ ''-w'' @ [tab] @ [tab] @ ''- Print warranty information.'' @ [lf],
     [tab] @ ''-h'' @ [tab] @ [tab] @ ''- Print this help message.'' @ [lf],
     [lf] @ ''NOTES:'' @ [lf] @ [lf],
     [tab] @ ''- Console output will be canceled by '' @ [apostrophe] @ ''-dl'' @ [apostrophe] @ '' or '' @ [apostrophe] @ ''-dd'' @ [apostrophe] @ ''.'' @ [lf],
     [lf] @ ''EXAMPLES:'' @ [lf] @ [lf],
     ''Console mode :'' @ [lf],
     [lf] @ [tab] @ ''nrdproxyd -lc -lf '' @ [quote] @ ''mylog.log'' @ [quote] @ '' -cf '' @ [quote] @ ''myconfig.cfg'' @ [quote] @ [lf],
     [lf] @ ''Daemon mode:'' @ [lf],
     [lf] @ [tab] @ ''nrdproxyd -dd -lf '' @ [quote] @ ''mylog.log'' @ [quote] @ '' -cf '' @ [quote] @ ''myconfig.cfg'' @ [quote] @ [lf],
     [lf] @ ''DEFAULTS:'' @ [lf] @ [lf],
     ''Config file: '' @ [quote] @ ''/etc/nuords/nrdproxyd.cfg'' @ [quote] @ [lf],
     ''Log file: '' @ [quote] @ ''/var/log/nrdproxyd.log'' @ [quote] @ [lf],
     ''PID file: '' @ [quote] @ ''/var/run/nrdproxyd.pid'' @ [quote] @ [lf],
     [lf]]"

definition nrdpx_print_help :: string where
  "nrdpx_print_help = nrdpx_version_info @ [lf] @ concat help_lines"

text \<open>What an option that ends the program prints.\<close>

definition exit_text :: "string \<Rightarrow> string" where
  "exit_text ar =
     (if stricmp_eq ar ''-c'' \<or> stricmp_eq ar ''--c'' \<or> stricmp_eq ar ''-w'' \<or> stricmp_eq ar ''--w''
      then nrdpx_license_info @ [lf]
      else if strnicmp_eq ar ''-h'' 2 \<or> strnicmp_eq ar ''--h'' 3 then nrdpx_print_help
      else nrdpx_version_info @ [lf])"

subsection \<open>The help and the parser\<close>

text \<open>The options of the help are the lines that begin with a tab and a dash.\<close>

definition help_option :: "string \<Rightarrow> string option" where
  "help_option l =
     (case l of a # b # r \<Rightarrow> if a = tab \<and> b = CHR ''-'' \<and> (r \<noteq> [] \<and> hd r \<noteq> CHR '' '')
        then Some (takeWhile (\<lambda>c. c \<noteq> CHR '' '' \<and> c \<noteq> tab) (b # r)) else None | _ \<Rightarrow> None)"

definition help_options :: "string list" where
  "help_options = List.map_filter help_option help_lines"

lemma help_options_listed:
  "help_options = [''-cf'', ''-lf'', ''-la'', ''-lc'', ''-ls'', ''-lv'', ''-ll'', ''-dl'', ''-dd'', ''-pf'',
     ''-v'', ''-c'', ''-w'', ''-h'']"
  by code_simp

lemma help_options_taken: "\<forall>l\<in>set help_options. arg_kind l \<noteq> A_skip"
  unfolding help_options_listed by code_simp

lemma options_in_help: "k \<noteq> A_skip \<Longrightarrow> k \<in> set (map arg_kind help_options)"
proof -
  have "map arg_kind help_options = [A_cf, A_lf, A_la, A_lc, A_ls, A_lv, A_ll, A_dl, A_dd, A_pf, A_exit, A_exit, A_exit, A_exit]"
    unfolding help_options_listed by code_simp
  then show "k \<noteq> A_skip \<Longrightarrow> k \<in> set (map arg_kind help_options)" by (cases k) simp_all
qed

text \<open>The line of each option that takes a value shows it, and no other does.\<close>

lemma help_values:
  "\<forall>l\<in>set help_lines. case help_option l of None \<Rightarrow> True
     | Some a \<Rightarrow> takes_value (arg_kind a) \<longleftrightarrow> drop (Suc (length a)) l \<noteq> [] \<and> l ! Suc (length a) = CHR '' ''"
  by code_simp

text \<open>A message is one line in the file, and has at most 1060 characters.\<close>

lemma log_line_length:
  assumes "(To_file, l) \<in> set (nrdpx_log_write g s_time type msg)" "length s_time \<le> 31"
  shows "length l \<le> 1060 \<and> last l = lf"
proof -
  have "length (log_level_id type) = 1" by (simp add: log_level_id_def)
  with assms show ?thesis by (auto simp: nrdpx_log_write_def Let_def split: if_splits)
qed

text \<open>The paths of the help are the ones the program starts with.\<close>

lemma help_paths:
  "''Config file: '' @ [quote] @ g_cfg_path (process_init pid) @ [quote] @ [lf] \<in> set help_lines"
  "''Log file: '' @ [quote] @ g_log_path (process_init pid) @ [quote] @ [lf] \<in> set help_lines"
  "''PID file: '' @ [quote] @ g_pid_path (process_init pid) @ [quote] @ [lf] \<in> set help_lines"
  by (simp_all add: help_lines_def process_init_def)

subsection \<open>The log file and its rotation\<close>

text \<open>The file that \<open>nrdpx_log_init\<close> opens: its bytes, the mode of \<open>fopen\<close> (\<open>"a"\<close> or \<open>"w"\<close>) and the
  position of the stream.  In the mode \<open>"a"\<close> a line is written at the end of the file, in the mode
  \<open>"w"\<close> at the position, also when the file has become shorter: the gap reads as zero bytes.\<close>

record log_file =
  lf_data :: string
  lf_append :: bool
  lf_pos :: nat

definition log_open :: "process_t \<Rightarrow> string \<Rightarrow> log_file" where
  "log_open g data = \<lparr>lf_data = (if g_log_app g then data else []), lf_append = g_log_app g, lf_pos = 0\<rparr>"

definition log_put :: "string \<Rightarrow> log_file \<Rightarrow> log_file" where
  "log_put line f =
     (if lf_append f then f\<lparr>lf_data := lf_data f @ line, lf_pos := length (lf_data f) + length line\<rparr>
      else f\<lparr>lf_data := take (lf_pos f) (lf_data f @ replicate (lf_pos f - length (lf_data f)) (CHR 0x00)) @ line
                           @ drop (lf_pos f + length line) (lf_data f),
             lf_pos := lf_pos f + length line\<rparr>)"

text \<open>\<open>nrdpx_log_rotate\<close> with its effect on the file: the shell compresses it and truncates it; the
  stream stays open.\<close>

definition log_rotated :: "process_t \<Rightarrow> bool \<Rightarrow> int \<Rightarrow> int \<times> log_file \<Rightarrow> int \<times> log_file" where
  "log_rotated g gzip tm = (\<lambda>(tmch, f).
     let (tmch, compress) = nrdpx_log_rotate tm (Some (int (length (lf_data f)))) gzip g tmch
     in (tmch, if compress then f\<lparr>lf_data := []\<rparr> else f))"

text \<open>After the rotation a file in the mode \<open>"a"\<close> holds the new lines only; one in the mode \<open>"w"\<close> is
  as long as ever, so that it is rotated again at every hour.\<close>

lemma log_put_appended: "lf_append f \<Longrightarrow> lf_data (log_put line (f\<lparr>lf_data := []\<rparr>)) = line"
  by (simp add: log_put_def)

lemma log_put_grown:
  "\<not> lf_append f \<Longrightarrow> length (lf_data (log_put line (f\<lparr>lf_data := []\<rparr>))) = lf_pos f + length line"
  by (simp add: log_put_def)

lemma log_rotated_big:
  assumes "g_log_out g AND NRDPX_LOG_OUT_FILE \<noteq> 0" "g_log_path g \<noteq> []" "tmch < tm" "10485760 < length (lf_data f)"
  shows "log_rotated g True tm (tmch, f) = (tm + 3600, f\<lparr>lf_data := []\<rparr>)"
  using assms by (simp add: log_rotated_def nrdpx_log_rotate_def)

lemma log_put_long: "\<not> lf_append f \<Longrightarrow> lf_pos f \<le> length (lf_data (log_put line f)) \<and> lf_pos f \<le> lf_pos (log_put line f)
    \<and> lf_append (log_put line f) = lf_append f"
  by (simp add: log_put_def)

end
