(* ===== verification/Vecmem.thy ===== *)
theory Vecmem
  imports Vector "HOL-Library.Multiset" "HOL-Library.Monad_Syntax"
begin

text \<open>
  \<open>src/src/com/xtllib/xtl_vector.h\<close> on its memory.  The block of \<open>m_capacity\<close> places holds
  objects or raw memory; an object is made by placement \<open>new\<close> in \<open>set_item\<close>, moved bytewise by
  \<open>memmove\<close>, \<open>memcpy\<close> and \<open>realloc\<close>, which leave a copy of its bytes behind, and ended by
  \<open>destroy_item\<close>.  Each object made has a number of its own, and the numbers of those destroyed
  are kept, so that an object that is lost or destroyed twice is seen.  \<open>None\<close> is an access outside
  the block or the destruction of raw memory.

  An operation ends (\<open>Done\<close>), raises an exception of the vector (\<open>Raised\<close>), or is left by an
  exception of the copy constructor of the items (\<open>Thrown\<close>).  It is shown that no sequence of
  operations touches memory it should not, that the vector of \<open>Vector\<close> is what they compute, that
  a copy that throws changes no item, and that every object made is in the vector or was destroyed
  once.
\<close>

subsection \<open>Memory\<close>

datatype 'a cell = Raw | Obj nat 'a

record 'a vmem =
  vm_cells :: "'a cell list"
  vm_size :: nat
  vm_made :: nat
  vm_gone :: "nat list"

datatype 'a outcome = Done "'a vmem" | Raised xtl_error "'a vmem" | Thrown "'a vmem"

fun after :: "'a outcome \<Rightarrow> 'a vmem" where
  "after (Done v) = v"
| "after (Raised e v) = v"
| "after (Thrown v) = v"

definition new_vmem :: "'a vmem" where
  "new_vmem = \<lparr>vm_cells = [], vm_size = 0, vm_made = 0, vm_gone = []\<rparr>"

definition memmove :: "nat \<Rightarrow> nat \<Rightarrow> nat \<Rightarrow> 'a vmem \<Rightarrow> 'a vmem option" where
  "memmove dst src n v =
     (let c = vm_cells v in
      if dst + n \<le> length c \<and> src + n \<le> length c
      then Some (v\<lparr>vm_cells := take dst c @ take n (drop src c) @ drop (dst + n) c\<rparr>) else None)"

definition set_item_m :: "nat \<Rightarrow> 'a \<Rightarrow> 'a vmem \<Rightarrow> 'a vmem option" where
  "set_item_m idx vr v =
     (if idx < length (vm_cells v)
      then Some (v\<lparr>vm_cells := (vm_cells v)[idx := Obj (vm_made v) vr], vm_made := vm_made v + 1\<rparr>) else None)"

definition destroy_item :: "nat \<Rightarrow> 'a vmem \<Rightarrow> 'a vmem option" where
  "destroy_item idx v =
     (if idx < length (vm_cells v)
      then (case vm_cells v ! idx of Raw \<Rightarrow> None
            | Obj i x \<Rightarrow> Some (v\<lparr>vm_cells := (vm_cells v)[idx := Raw], vm_gone := i # vm_gone v\<rparr>))
      else None)"

definition set_capacity_m :: "nat \<Rightarrow> 'a vmem \<Rightarrow> 'a vmem" where
  "set_capacity_m cp v =
     (let cp = (if cp < vm_size v then vm_size v else cp) in
      if length (vm_cells v) = cp then v
      else if cp = 0 then v\<lparr>vm_cells := []\<rparr>
      else if cp < length (vm_cells v)
      then v\<lparr>vm_cells := take (vm_size v) (vm_cells v) @ replicate (cp - vm_size v) Raw\<rparr>
      else v\<lparr>vm_cells := vm_cells v @ replicate (cp - length (vm_cells v)) Raw\<rparr>)"

definition before_increase_m :: "nat \<Rightarrow> nat \<Rightarrow> 'a vmem \<Rightarrow> xtl_error + 'a vmem" where
  "before_increase_m isz icount v =
     (if vm_size v + icount > max_size isz then Inl Vector_has_maximal_size
      else if length (vm_cells v) - vm_size v < icount
      then Inr (set_capacity_m (calc_capacity (vm_size v + icount)) v)
      else Inr v)"

definition after_decrease_m :: "'a vmem \<Rightarrow> 'a vmem" where
  "after_decrease_m v =
     (if length (vm_cells v) - vm_size v > XTL_VECTOR_PAGE_SZ * 4
      then set_capacity_m (vm_size v + XTL_VECTOR_PAGE_SZ) v else v)"

subsection \<open>Operations\<close>

text \<open>The item from \<open>i\<close> on are destroyed one by one, or those below \<open>i\<close> downwards.\<close>

fun destroy_up :: "nat \<Rightarrow> nat \<Rightarrow> 'a vmem \<Rightarrow> 'a vmem option" where
  "destroy_up i 0 v = Some v"
| "destroy_up i (Suc n) v = do { v \<leftarrow> destroy_item i v; destroy_up (i + 1) n v }"

fun destroy_down :: "nat \<Rightarrow> nat \<Rightarrow> 'a vmem \<Rightarrow> 'a vmem option" where
  "destroy_down i 0 v = Some v"
| "destroy_down i (Suc n) v = do { v \<leftarrow> destroy_item (i - 1) v; destroy_down (i - 1) n v }"

definition push_back_m :: "nat \<Rightarrow> bool \<Rightarrow> 'a \<Rightarrow> 'a vmem \<Rightarrow> 'a outcome option" where
  "push_back_m isz thr vr v =
     (case before_increase_m isz 1 v of
        Inl e \<Rightarrow> Some (Raised e v)
      | Inr v \<Rightarrow> if thr then Some (Thrown v)
                 else do { v \<leftarrow> set_item_m (vm_size v) vr v; Some (Done (v\<lparr>vm_size := vm_size v + 1\<rparr>)) })"

definition pop_back_m :: "'a vmem \<Rightarrow> 'a outcome option" where
  "pop_back_m v =
     (if vm_size v \<noteq> 0
      then (let v = v\<lparr>vm_size := vm_size v - 1\<rparr> in
            do { v \<leftarrow> destroy_item (vm_size v) v; Some (Done (after_decrease_m v)) })
      else Some (Done v))"

definition clear_m :: "'a vmem \<Rightarrow> 'a outcome option" where
  "clear_m v =
     (if vm_size v \<noteq> 0
      then (let i_tmp = vm_size v in
            do { v \<leftarrow> destroy_up 0 i_tmp (v\<lparr>vm_size := 0\<rparr>); Some (Done (after_decrease_m v)) })
      else Some (Done v))"

definition insert_m :: "nat \<Rightarrow> bool \<Rightarrow> nat \<Rightarrow> 'a \<Rightarrow> 'a vmem \<Rightarrow> 'a outcome option" where
  "insert_m isz thr idx vr v =
     (if idx > vm_size v then Some (Raised Iterator_out_of_range v)
      else case before_increase_m isz 1 v of
        Inl e \<Rightarrow> Some (Raised e v)
      | Inr v \<Rightarrow>
          do { v \<leftarrow> (if idx < vm_size v then memmove (idx + 1) idx (vm_size v - idx) v else Some v);
               if thr then do { v \<leftarrow> memmove idx (idx + 1) (vm_size v - idx) v; Some (Thrown v) }
               else do { v \<leftarrow> set_item_m idx vr v; Some (Done (v\<lparr>vm_size := vm_size v + 1\<rparr>)) } })"

definition erase_m :: "nat \<Rightarrow> 'a vmem \<Rightarrow> 'a outcome option" where
  "erase_m idx v =
     (if idx > vm_size v then Some (Raised Iterator_out_of_range v)
      else if idx = vm_size v then Some (Done v)
      else (let v = v\<lparr>vm_size := vm_size v - 1\<rparr> in
            do { v \<leftarrow> destroy_item idx v;
                 v \<leftarrow> (if idx < vm_size v then memmove idx (idx + 1) (vm_size v - idx) v else Some v);
                 Some (Done (after_decrease_m v)) }))"

definition erase_range_m :: "nat \<Rightarrow> nat \<Rightarrow> 'a vmem \<Rightarrow> 'a outcome option" where
  "erase_range_m idx1 idx2 v =
     (if idx1 > vm_size v \<or> idx2 > vm_size v then Some (Raised Iterator_out_of_range v)
      else if idx2 < idx1 then Some (Raised Second_iterator_less v)
      else if idx2 > idx1
      then (let v = v\<lparr>vm_size := vm_size v - (idx2 - idx1)\<rparr> in
            do { v \<leftarrow> destroy_up idx1 (idx2 - idx1) v;
                 v \<leftarrow> (if idx1 < vm_size v then memmove idx1 idx2 (vm_size v - idx1) v else Some v);
                 Some (Done (after_decrease_m v)) })
      else Some (Done v))"

text \<open>The loop of \<open>resize\<close>: the flag is false when the copy for the place \<open>idx\<close> throws.\<close>

fun fill_m :: "(nat \<Rightarrow> bool) \<Rightarrow> 'a \<Rightarrow> nat \<Rightarrow> nat \<Rightarrow> 'a vmem \<Rightarrow> (bool \<times> nat \<times> 'a vmem) option" where
  "fill_m thr vr idx 0 v = Some (True, idx, v)"
| "fill_m thr vr idx (Suc n) v =
     (if thr idx then Some (False, idx, v) else do { v \<leftarrow> set_item_m idx vr v; fill_m thr vr (idx + 1) n v })"

definition resize_m :: "nat \<Rightarrow> (nat \<Rightarrow> bool) \<Rightarrow> nat \<Rightarrow> 'a \<Rightarrow> 'a vmem \<Rightarrow> 'a outcome option" where
  "resize_m isz thr sz vr v =
     (if sz = vm_size v then Some (Done v)
      else if sz > max_size isz then Some (Raised Invalid_vector_size v)
      else if sz > vm_size v then
        (let old_cap = length (vm_cells v); new_cap = calc_capacity sz;
             v = (if new_cap > old_cap then set_capacity_m new_cap v else v)
         in do { (ok, idx, v) \<leftarrow> fill_m thr vr (vm_size v) (sz - vm_size v) v;
                 if ok then Some (Done (v\<lparr>vm_size := sz\<rparr>))
                 else do { v \<leftarrow> destroy_down idx (idx - vm_size v) v;
                           Some (Thrown (if old_cap \<noteq> length (vm_cells v) then set_capacity_m old_cap v else v)) } })
      else do { v \<leftarrow> destroy_up sz (vm_size v - sz) v; Some (Done (v\<lparr>vm_size := sz\<rparr>)) })"

definition reserve_m :: "nat \<Rightarrow> 'a vmem \<Rightarrow> 'a outcome option" where
  "reserve_m sz v =
     (let new_capacity = calc_capacity sz in
      Some (Done (if new_capacity > length (vm_cells v) then set_capacity_m new_capacity v else v)))"

definition pack_m :: "'a vmem \<Rightarrow> 'a outcome option" where
  "pack_m v = Some (Done (if length (vm_cells v) > vm_size v then set_capacity_m (vm_size v) v else v))"

text \<open>The operations of a client and their effect on the vector of \<open>Vector\<close>.  \<open>thr\<close> says which
  copies of an item throw.\<close>

datatype 'a vec_op =
    Push 'a | Pop | Clear | Insert nat 'a | Erase nat | Erase_range nat nat | Resize nat 'a | Reserve nat | Pack

fun run_m :: "nat \<Rightarrow> (nat \<Rightarrow> bool) \<Rightarrow> 'a vec_op \<Rightarrow> 'a vmem \<Rightarrow> 'a outcome option" where
  "run_m isz thr (Push x) v = push_back_m isz (thr (vm_size v)) x v"
| "run_m isz thr Pop v = pop_back_m v"
| "run_m isz thr Clear v = clear_m v"
| "run_m isz thr (Insert i x) v = insert_m isz (thr i) i x v"
| "run_m isz thr (Erase i) v = erase_m i v"
| "run_m isz thr (Erase_range i j) v = erase_range_m i j v"
| "run_m isz thr (Resize n x) v = resize_m isz thr n x v"
| "run_m isz thr (Reserve n) v = reserve_m n v"
| "run_m isz thr Pack v = pack_m v"

fun run_x :: "nat \<Rightarrow> 'a vec_op \<Rightarrow> 'a xvec \<Rightarrow> xtl_error + 'a xvec" where
  "run_x isz (Push x) v = push_back isz v x"
| "run_x isz Pop v = Inr (pop_back v)"
| "run_x isz Clear v = Inr (clear_vec v)"
| "run_x isz (Insert i x) v = insert_at isz v i x"
| "run_x isz (Erase i) v = erase_at v i"
| "run_x isz (Erase_range i j) v = erase_range v i j"
| "run_x isz (Resize n x) v = resize isz v n x"
| "run_x isz (Reserve n) v = Inr (reserve v n)"
| "run_x isz Pack v = Inr (pack v)"

subsection \<open>What the memory stands for\<close>

definition objs :: "(nat \<times> 'a) list \<Rightarrow> 'a cell list" where
  "objs ps = map (\<lambda>(i, x). Obj i x) ps"

text \<open>The first places hold the objects \<open>ps\<close>; every object made is one of them or was destroyed.\<close>

definition vm_rep :: "'a vmem \<Rightarrow> (nat \<times> 'a) list \<Rightarrow> bool" where
  "vm_rep v ps \<longleftrightarrow> vm_size v = length ps \<and> (\<exists>junk. vm_cells v = objs ps @ junk)
     \<and> mset (map fst ps) + mset (vm_gone v) = mset [0..<vm_made v]"

definition vm_abs :: "'a vmem \<Rightarrow> 'a xvec \<Rightarrow> bool" where
  "vm_abs v xv \<longleftrightarrow> (\<exists>ps. vm_rep v ps \<and> xv = \<lparr>m_items = map snd ps, m_capacity = length (vm_cells v)\<rparr>)"

lemma objs_simps [simp]:
  "objs [] = []" "objs ((i, x) # ps) = Obj i x # objs ps" "objs (ps @ qs) = objs ps @ objs qs" "length (objs ps) = length ps"
  by (simp_all add: objs_def)

lemma vm_absE:
  assumes "vm_abs v xv"
  obtains ps junk where "vm_size v = length ps" "vm_cells v = objs ps @ junk"
    "mset (map fst ps) + mset (vm_gone v) = mset [0..<vm_made v]"
    "xv = \<lparr>m_items = map snd ps, m_capacity = length ps + length junk\<rparr>"
  using assms by (auto simp: vm_abs_def vm_rep_def)

lemma vm_absI:
  assumes "vm_size v = length ps" "vm_cells v = objs ps @ junk"
    "mset (map fst ps) + mset (vm_gone v) = mset [0..<vm_made v]"
    "m_items xv = map snd ps" "m_capacity xv = length (vm_cells v)"
  shows "vm_abs v xv"
proof -
  have "xv = \<lparr>m_items = map snd ps, m_capacity = length (vm_cells v)\<rparr>" using assms(4,5) by (cases xv) simp
  with assms(1-3) show ?thesis unfolding vm_abs_def vm_rep_def by blast
qed

text \<open>Changing the capacity keeps the objects.\<close>

lemma set_capacity_m_objs:
  assumes "vm_size v = length ps" "vm_cells v = objs ps @ junk"
  shows "\<exists>junk'. set_capacity_m cp v = v\<lparr>vm_cells := objs ps @ junk'\<rparr> \<and> length ps + length junk' = max cp (length ps)"
proof -
  have v: "v\<lparr>vm_cells := objs ps @ junk\<rparr> = v" using assms(2) by simp
  define c where "c = (if cp < length ps then length ps else cp)"
  have c: "max cp (length ps) = c" "length ps \<le> c" by (simp_all add: c_def)
  have eq: "set_capacity_m cp v =
     (if length (vm_cells v) = c then v
      else if c = 0 then v\<lparr>vm_cells := []\<rparr>
      else if c < length (vm_cells v) then v\<lparr>vm_cells := objs ps @ replicate (c - length ps) Raw\<rparr>
      else v\<lparr>vm_cells := objs ps @ junk @ replicate (c - length (vm_cells v)) Raw\<rparr>)"
    by (simp only: set_capacity_m_def Let_def assms c_def) simp
  consider "length (vm_cells v) = c" | "length (vm_cells v) \<noteq> c" "c = 0" | "length (vm_cells v) > c" "c \<noteq> 0"
    | "length (vm_cells v) < c" by linarith
  then show ?thesis
  proof cases
    case 1
    with assms(2) c v show ?thesis by (intro exI [of _ junk]) (simp add: eq)
  next
    case 2
    with c show ?thesis unfolding eq by (intro exI [of _ "[]"]) simp
  next
    case 3
    with c show ?thesis by (intro exI [of _ "replicate (c - length ps) Raw"]) (simp add: eq)
  next
    case 4
    with assms(2) c show ?thesis
      by (intro exI [of _ "junk @ replicate (c - length (vm_cells v)) Raw"]) (simp add: eq)
  qed
qed

lemma set_capacity_abs:
  assumes "vm_abs v xv"
  shows "vm_abs (set_capacity_m cp v) (set_capacity cp xv)"
proof -
  obtain ps junk where a: "vm_size v = length ps" "vm_cells v = objs ps @ junk"
    "mset (map fst ps) + mset (vm_gone v) = mset [0..<vm_made v]" "xv = \<lparr>m_items = map snd ps, m_capacity = length ps + length junk\<rparr>"
    using assms by (rule vm_absE)
  obtain junk' where j: "set_capacity_m cp v = v\<lparr>vm_cells := objs ps @ junk'\<rparr>" "length ps + length junk' = max cp (length ps)"
    using set_capacity_m_objs [OF a(1,2)] by blast
  show ?thesis using a j by (intro vm_absI [of _ ps junk']) (simp_all add: set_capacity_def m_size_def)
qed

lemma vm_abs_facts: "vm_abs v xv \<Longrightarrow> m_size xv = vm_size v \<and> m_capacity xv = length (vm_cells v) \<and> vm_size v \<le> length (vm_cells v)"
  by (erule vm_absE) (simp add: m_size_def)

lemma set_capacity_m_size [simp]: "vm_size (set_capacity_m cp v) = vm_size v"
  by (simp add: set_capacity_m_def Let_def)

lemma before_increase_abs:
  assumes "vm_abs v xv"
  shows "(before_increase_m isz n v = Inl Vector_has_maximal_size \<and> before_increase isz n xv = Inl Vector_has_maximal_size)
    \<or> (\<exists>v' xv'. before_increase_m isz n v = Inr v' \<and> before_increase isz n xv = Inr xv' \<and> vm_abs v' xv'
        \<and> m_items xv' = m_items xv \<and> vm_size v' = vm_size v \<and> vm_size v' + n \<le> length (vm_cells v'))"
proof -
  have f: "m_size xv = vm_size v" "m_capacity xv = length (vm_cells v)" "vm_size v \<le> length (vm_cells v)"
    using vm_abs_facts [OF assms] by simp_all
  let ?c = "calc_capacity (vm_size v + n)"
  have "m_capacity (set_capacity ?c xv) = length (vm_cells (set_capacity_m ?c v))"
    using vm_abs_facts [OF set_capacity_abs [OF assms]] by simp
  then have "vm_size v + n \<le> length (vm_cells (set_capacity_m ?c v))"
    using calc_capacity_gt [of "vm_size v + n"] f(1) by (simp add: set_capacity_def split: if_splits)
  with f assms set_capacity_abs [OF assms, of ?c] show ?thesis
    by (auto simp: before_increase_m_def before_increase_def)
qed

lemma after_decrease_abs: "vm_abs v xv \<Longrightarrow> vm_abs (after_decrease_m v) (after_decrease xv)"
  using vm_abs_facts [of v xv] set_capacity_abs [of v xv] by (simp add: after_decrease_m_def after_decrease_def)

subsection \<open>Making, moving, destroying\<close>

lemma set_item_at:
  "vm_cells v = pre @ c # post \<Longrightarrow> idx = length pre \<Longrightarrow>
     set_item_m idx x v = Some (v\<lparr>vm_cells := pre @ Obj (vm_made v) x # post, vm_made := vm_made v + 1\<rparr>)"
  by (simp add: set_item_m_def)

lemma destroy_at:
  "vm_cells v = pre @ Obj i x # post \<Longrightarrow> idx = length pre \<Longrightarrow>
     destroy_item idx v = Some (v\<lparr>vm_cells := pre @ Raw # post, vm_gone := i # vm_gone v\<rparr>)"
  by (simp add: destroy_item_def)

lemma destroy_up_objs:
  "vm_cells v = pre @ objs qs @ post \<Longrightarrow> idx = length pre \<Longrightarrow>
     destroy_up idx (length qs) v = Some (v\<lparr>vm_cells := pre @ replicate (length qs) Raw @ post, vm_gone := rev (map fst qs) @ vm_gone v\<rparr>)"
proof (induction qs arbitrary: v pre idx)
  case (Cons q qs)
  obtain i x where q: "q = (i, x)" by (cases q)
  let ?v = "v\<lparr>vm_cells := pre @ Raw # objs qs @ post, vm_gone := i # vm_gone v\<rparr>"
  have "destroy_item idx v = Some ?v" using Cons.prems q by (intro destroy_at) simp_all
  moreover have "destroy_up (idx + 1) (length qs) ?v
      = Some (?v\<lparr>vm_cells := (pre @ [Raw]) @ replicate (length qs) Raw @ post, vm_gone := rev (map fst qs) @ vm_gone ?v\<rparr>)"
    using Cons.prems by (intro Cons.IH) simp_all
  ultimately show ?case using q by simp
qed simp

lemma destroy_down_objs:
  "vm_cells v = pre @ objs qs @ post \<Longrightarrow> idx = length pre + length qs \<Longrightarrow>
     destroy_down idx (length qs) v = Some (v\<lparr>vm_cells := pre @ replicate (length qs) Raw @ post, vm_gone := map fst qs @ vm_gone v\<rparr>)"
proof (induction qs arbitrary: v post idx rule: rev_induct)
  case (snoc q qs)
  obtain i x where q: "q = (i, x)" by (cases q)
  let ?v = "v\<lparr>vm_cells := pre @ objs qs @ Raw # post, vm_gone := i # vm_gone v\<rparr>"
  have "destroy_item (idx - 1) v = Some (v\<lparr>vm_cells := (pre @ objs qs) @ Raw # post, vm_gone := i # vm_gone v\<rparr>)"
    using snoc.prems q by (intro destroy_at) simp_all
  moreover have "destroy_down (idx - 1) (length qs) ?v
      = Some (?v\<lparr>vm_cells := pre @ replicate (length qs) Raw @ (Raw # post), vm_gone := map fst qs @ vm_gone ?v\<rparr>)"
    using snoc.prems by (intro snoc.IH) simp_all
  ultimately show ?case using q by (simp add: replicate_app_Cons_same)
qed simp

lemma fill_m_objs:
  "vm_cells v = pre @ junk \<Longrightarrow> idx = length pre \<Longrightarrow> n \<le> length junk \<Longrightarrow>
     \<exists>ok k new. fill_m thr x idx n v = Some (ok, idx + k, v\<lparr>vm_cells := pre @ objs new @ drop k junk, vm_made := vm_made v + k\<rparr>)
       \<and> k \<le> n \<and> (ok \<longrightarrow> k = n) \<and> (ok \<longleftrightarrow> (\<forall>j. idx \<le> j \<and> j < idx + n \<longrightarrow> \<not> thr j))
       \<and> map fst new = [vm_made v..<vm_made v + k] \<and> map snd new = replicate k x"
proof (induction n arbitrary: v pre junk idx)
  case 0
  then show ?case by (intro exI [of _ True] exI [of _ "0 :: nat"] exI [of _ "[]"]) auto
next
  case (Suc n)
  show ?case
  proof (cases "thr idx")
    case True
    have "idx \<le> idx \<and> idx < idx + Suc n" by simp
    with True have "\<not> (\<forall>j. idx \<le> j \<and> j < idx + Suc n \<longrightarrow> \<not> thr j)" by blast
    moreover have "v\<lparr>vm_cells := pre @ junk, vm_made := vm_made v\<rparr> = v" using Suc.prems(1) by (cases v) simp
    ultimately show ?thesis using True
      by (intro exI [of _ False] exI [of _ "0 :: nat"] exI [of _ "[]"]) simp
  next
    case False
    obtain c junk1 where j: "junk = c # junk1" using Suc.prems(3) by (cases junk) auto
    let ?v = "v\<lparr>vm_cells := (pre @ [Obj (vm_made v) x]) @ junk1, vm_made := vm_made v + 1\<rparr>"
    have s: "set_item_m idx x v = Some ?v" using set_item_at [of v pre c junk1 idx x] Suc.prems j by simp
    obtain ok k new where r: "fill_m thr x (idx + 1) n ?v
        = Some (ok, idx + 1 + k, ?v\<lparr>vm_cells := (pre @ [Obj (vm_made v) x]) @ objs new @ drop k junk1, vm_made := vm_made ?v + k\<rparr>)"
      "k \<le> n" "ok \<longrightarrow> k = n" "ok \<longleftrightarrow> (\<forall>j. idx + 1 \<le> j \<and> j < idx + 1 + n \<longrightarrow> \<not> thr j)"
      "map fst new = [vm_made ?v..<vm_made ?v + k]" "map snd new = replicate k x"
      using Suc.IH [of ?v "pre @ [Obj (vm_made v) x]" junk1 "idx + 1"] Suc.prems j by auto
    have "ok \<longleftrightarrow> (\<forall>j. idx \<le> j \<and> j < idx + Suc n \<longrightarrow> \<not> thr j)"
      unfolding r(4) using False by (auto simp: le_Suc_eq) (metis le_neq_implies_less Suc_leI)
    moreover have "(vm_made v) # [Suc (vm_made v)..<Suc (vm_made v + k)] = [vm_made v..<vm_made v + Suc k]"
      by (simp add: upt_conv_Cons)
    ultimately show ?thesis
      using r s False j
      by (intro exI [of _ ok] exI [of _ "Suc k"] exI [of _ "(vm_made v, x) # new"]) (simp del: upt_Suc)
  qed
qed

subsection \<open>Every operation follows \<open>Vector\<close>\<close>

text \<open>What the end of an operation says of the vector before it, \<open>xv\<close>, and of the effect that
  \<open>Vector\<close> gives the operation.\<close>

fun follows :: "'a xvec \<Rightarrow> xtl_error + 'a xvec \<Rightarrow> 'a vmem \<Rightarrow> 'a outcome option \<Rightarrow> bool" where
  "follows xv r v None \<longleftrightarrow> False"
| "follows xv r v (Some (Done v')) \<longleftrightarrow> (\<exists>xv'. r = Inr xv' \<and> vm_abs v' xv')"
| "follows xv r v (Some (Raised e v')) \<longleftrightarrow> r = Inl e \<and> v' = v"
| "follows xv r v (Some (Thrown v')) \<longleftrightarrow> (\<exists>xv'. vm_abs v' xv' \<and> m_items xv' = m_items xv)"

lemma follows_push:
  assumes "vm_abs v xv"
  shows "follows xv (push_back isz xv x) v (push_back_m isz thr x v)"
  using before_increase_abs [OF assms, of isz 1]
proof (elim disjE exE conjE)
  fix v' xv'
  assume b: "before_increase_m isz 1 v = Inr v'" "before_increase isz 1 xv = Inr xv'" "vm_abs v' xv'" "m_items xv' = m_items xv"
    "vm_size v' = vm_size v" "vm_size v' + 1 \<le> length (vm_cells v')"
  obtain ps junk where a: "vm_size v' = length ps" "vm_cells v' = objs ps @ junk"
    "mset (map fst ps) + mset (vm_gone v') = mset [0..<vm_made v']" "xv' = \<lparr>m_items = map snd ps, m_capacity = length ps + length junk\<rparr>"
    using b(3) by (rule vm_absE)
  obtain c post where j: "junk = c # post" using b(6) a(1,2) by (cases junk) auto
  let ?w = "v'\<lparr>vm_cells := objs ps @ Obj (vm_made v') x # post, vm_made := vm_made v' + 1\<rparr>"
  have s: "set_item_m (vm_size v') x v' = Some ?w" using set_item_at [of v' "objs ps" c post] a(1,2) j by simp
  have "vm_abs (?w\<lparr>vm_size := vm_size v' + 1\<rparr>) (xv'\<lparr>m_items := m_items xv' @ [x]\<rparr>)"
    using a j by (intro vm_absI [of _ "ps @ [(vm_made v', x)]" post]) simp_all
  with b(1-4) s show ?thesis by (auto simp: push_back_m_def push_back_def)
qed (simp add: push_back_m_def push_back_def)

lemma follows_pop:
  assumes "vm_abs v xv"
  shows "follows xv (Inr (pop_back xv)) v (pop_back_m v)"
proof -
  obtain ps junk where a: "vm_size v = length ps" "vm_cells v = objs ps @ junk"
    "mset (map fst ps) + mset (vm_gone v) = mset [0..<vm_made v]" "xv = \<lparr>m_items = map snd ps, m_capacity = length ps + length junk\<rparr>"
    using assms by (rule vm_absE)
  show ?thesis
  proof (cases ps rule: rev_cases)
    case Nil
    with a assms show ?thesis by (simp add: pop_back_m_def pop_back_def m_size_def)
  next
    case (snoc qs q)
    obtain i x where q: "q = (i, x)" by (cases q)
    let ?w = "v\<lparr>vm_size := length qs, vm_cells := objs qs @ Raw # junk, vm_gone := i # vm_gone v\<rparr>"
    have s: "destroy_item (length qs) (v\<lparr>vm_size := length qs\<rparr>) = Some ?w"
      using destroy_at [of "v\<lparr>vm_size := length qs\<rparr>" "objs qs" i x junk] a(2) snoc q by simp
    have "vm_abs ?w (xv\<lparr>m_items := butlast (m_items xv)\<rparr>)"
      using a snoc q by (intro vm_absI [of _ qs "Raw # junk"]) (simp_all add: add.commute)
    from after_decrease_abs [OF this] show ?thesis
      using a snoc s by (simp add: pop_back_m_def pop_back_def m_size_def)
  qed
qed

lemma follows_clear:
  assumes "vm_abs v xv"
  shows "follows xv (Inr (clear_vec xv)) v (clear_m v)"
proof -
  obtain ps junk where a: "vm_size v = length ps" "vm_cells v = objs ps @ junk"
    "mset (map fst ps) + mset (vm_gone v) = mset [0..<vm_made v]" "xv = \<lparr>m_items = map snd ps, m_capacity = length ps + length junk\<rparr>"
    using assms by (rule vm_absE)
  show ?thesis
  proof (cases "ps = []")
    case True
    with a assms show ?thesis by (simp add: clear_m_def clear_vec_def m_size_def)
  next
    case False
    let ?w = "v\<lparr>vm_size := 0, vm_cells := replicate (length ps) Raw @ junk, vm_gone := rev (map fst ps) @ vm_gone v\<rparr>"
    have s: "destroy_up 0 (length ps) (v\<lparr>vm_size := 0\<rparr>) = Some ?w"
      using destroy_up_objs [of "v\<lparr>vm_size := 0\<rparr>" "[]" ps junk 0] a(2) by simp
    have "vm_abs ?w (xv\<lparr>m_items := []\<rparr>)"
      using a by (intro vm_absI [of _ "[]" "replicate (length ps) Raw @ junk"]) simp_all
    from after_decrease_abs [OF this] show ?thesis
      using a s False by (simp add: clear_m_def clear_vec_def m_size_def)
  qed
qed

lemma memmove_up:
  assumes "vm_cells v = pre @ mid @ c # post" "idx = length pre" "mid \<noteq> []"
  shows "memmove (idx + 1) idx (length mid) v = Some (v\<lparr>vm_cells := pre @ hd mid # mid @ post\<rparr>)"
  using assms by (cases mid) (simp_all add: memmove_def Let_def)

lemma memmove_down:
  assumes "vm_cells v = pre @ gap @ mid @ post" "idx = length pre" "idx2 = idx + length gap"
  shows "memmove idx idx2 (length mid) v = Some (v\<lparr>vm_cells := pre @ mid @ drop (length mid) (gap @ mid) @ post\<rparr>)"
  using assms by (simp add: memmove_def Let_def)

lemma open_gap:
  assumes "vm_cells v = pre @ mid @ c # post" "idx = length pre" "length mid = sz - idx"
  shows "\<exists>d. (if idx < sz then memmove (idx + 1) idx (sz - idx) v else Some v) = Some (v\<lparr>vm_cells := pre @ d # mid @ post\<rparr>)"
proof (cases "idx < sz")
  case True
  then have "mid \<noteq> []" using assms(3) by auto
  with True memmove_up [OF assms(1,2)] assms(3) show ?thesis by auto
next
  case False
  then have "mid = []" using assms(3) by simp
  with assms(1) have "v = v\<lparr>vm_cells := pre @ c # mid @ post\<rparr>" by (cases v) simp
  with False show ?thesis by (intro exI [of _ c]) simp
qed

lemma close_gap:
  assumes "vm_cells v = pre @ gap @ mid @ post" "idx = length pre" "length mid = sz - idx" "idx2 = idx + length gap"
  shows "\<exists>junk. (if idx < sz then memmove idx idx2 (sz - idx) v else Some v) = Some (v\<lparr>vm_cells := pre @ mid @ junk\<rparr>)
    \<and> length junk = length gap + length post"
proof (cases "idx < sz")
  case True
  with memmove_down [OF assms(1,2,4)] assms(3) show ?thesis
    by (intro exI [of _ "drop (length mid) (gap @ mid) @ post"]) simp
next
  case False
  then have "mid = []" using assms(3) by simp
  with assms(1) have "v = v\<lparr>vm_cells := pre @ mid @ gap @ post\<rparr>" by (cases v) simp
  with False show ?thesis by (intro exI [of _ "gap @ post"]) simp
qed

lemma follows_insert:
  assumes "vm_abs v xv"
  shows "follows xv (insert_at isz xv i x) v (insert_m isz thr i x v)"
proof (cases "i > vm_size v")
  case True
  then show ?thesis using vm_abs_facts [OF assms] by (simp add: insert_m_def insert_at_def)
next
  case False
  from before_increase_abs [OF assms, of isz 1] show ?thesis
  proof (elim disjE exE conjE)
    fix v' xv'
    assume b: "before_increase_m isz 1 v = Inr v'" "before_increase isz 1 xv = Inr xv'" "vm_abs v' xv'" "m_items xv' = m_items xv"
      "vm_size v' = vm_size v" "vm_size v' + 1 \<le> length (vm_cells v')"
    obtain ps junk where a: "vm_size v' = length ps" "vm_cells v' = objs ps @ junk"
      "mset (map fst ps) + mset (vm_gone v') = mset [0..<vm_made v']" "xv' = \<lparr>m_items = map snd ps, m_capacity = length ps + length junk\<rparr>"
      using b(3) by (rule vm_absE)
    obtain c post where j: "junk = c # post" using b(6) a(1,2) by (cases junk) auto
    define qs rs where "qs = take i ps" and "rs = drop i ps"
    then have ps: "ps = qs @ rs" "length qs = i" "length rs = vm_size v' - i" using False a(1) b(5) by simp_all
    have cells: "vm_cells v' = objs qs @ objs rs @ c # post" using a(2) j ps(1) by simp
    let ?mv = "\<lambda>d. v'\<lparr>vm_cells := objs qs @ d # objs rs @ post\<rparr>"
    obtain d where m: "(if i < vm_size v' then memmove (i + 1) i (vm_size v' - i) v' else Some v') = Some (?mv d)"
      using open_gap [OF cells, of i "vm_size v'"] ps(2,3) by auto
    let ?w = "(?mv d)\<lparr>vm_cells := objs qs @ Obj (vm_made v') x # objs rs @ post, vm_made := vm_made v' + 1\<rparr>"
    have s: "set_item_m i x (?mv d) = Some ?w"
      using set_item_at [of "?mv d" "objs qs" d "objs rs @ post" i x] ps(2) by simp
    have d: "vm_abs (?w\<lparr>vm_size := vm_size v' + 1\<rparr>) (xv'\<lparr>m_items := take i (m_items xv') @ x # drop i (m_items xv')\<rparr>)"
      using a j ps by (intro vm_absI [of _ "qs @ (vm_made v', x) # rs" post]) (simp_all add: take_map [symmetric] drop_map [symmetric])
    let ?u = "v'\<lparr>vm_cells := objs qs @ objs rs @ drop (length rs) (d # objs rs) @ post\<rparr>"
    have t: "memmove i (i + 1) (vm_size v' - i) (?mv d) = Some ?u"
      using memmove_down [of "?mv d" "objs qs" "[d]" "objs rs" post i "i + 1"] ps(2,3) by simp
    have "vm_abs ?u xv'"
      using a j ps by (intro vm_absI [of _ ps "drop (length rs) (d # objs rs) @ post"]) simp_all
    with b(1,2,4) m s d t False vm_abs_facts [OF assms] b(5) show ?thesis
      by (auto simp: insert_m_def insert_at_def)
  qed (use False vm_abs_facts [OF assms] in \<open>simp add: insert_m_def insert_at_def\<close>)
qed

lemma follows_erase:
  assumes "vm_abs v xv"
  shows "follows xv (erase_at xv i) v (erase_m i v)"
proof -
  obtain ps junk where a: "vm_size v = length ps" "vm_cells v = objs ps @ junk"
    "mset (map fst ps) + mset (vm_gone v) = mset [0..<vm_made v]" "xv = \<lparr>m_items = map snd ps, m_capacity = length ps + length junk\<rparr>"
    using assms by (rule vm_absE)
  show ?thesis
  proof (cases "i < length ps")
    case True
    define qs rs where "qs = take i ps" and "rs = drop (Suc i) ps"
    obtain n x where "ps ! i = (n, x)" by (cases "ps ! i")
    then have ps: "ps = qs @ (n, x) # rs" "length qs = i" "length rs = length ps - 1 - i"
      using True id_take_nth_drop [OF True] by (simp_all add: qs_def rs_def)
    let ?v = "v\<lparr>vm_size := vm_size v - 1\<rparr>"
    let ?w = "?v\<lparr>vm_cells := objs qs @ Raw # objs rs @ junk, vm_gone := n # vm_gone v\<rparr>"
    have s: "destroy_item i ?v = Some ?w" using destroy_at [of ?v "objs qs" n x "objs rs @ junk" i] a(2) ps(1,2) by simp
    have "\<exists>junk'. (if i < vm_size ?w then memmove i (i + 1) (vm_size ?w - i) ?w else Some ?w)
        = Some (?w\<lparr>vm_cells := objs qs @ objs rs @ junk'\<rparr>) \<and> length junk' = length [Raw :: 'a cell] + length junk"
      by (rule close_gap) (use ps(2,3) a(1) in simp_all)
    then obtain junk' where m: "(if i < vm_size ?w then memmove i (i + 1) (vm_size ?w - i) ?w else Some ?w)
        = Some (?w\<lparr>vm_cells := objs qs @ objs rs @ junk'\<rparr>)" "length junk' = length [Raw :: 'a cell] + length junk" by blast
    have "vm_abs (?w\<lparr>vm_cells := objs qs @ objs rs @ junk'\<rparr>) (xv\<lparr>m_items := take i (m_items xv) @ drop (Suc i) (m_items xv)\<rparr>)"
      using a ps(1,2) m(2) by (intro vm_absI [of _ "qs @ rs" junk']) (simp_all add: ac_simps)
    moreover have c: "\<not> i > vm_size v" "i \<noteq> vm_size v" using True a(1) by simp_all
    have "erase_m i v = Some (Done (after_decrease_m (?w\<lparr>vm_cells := objs qs @ objs rs @ junk'\<rparr>)))"
      by (simp only: erase_m_def Let_def c if_False s Option.bind.simps m(1))
    ultimately show ?thesis
      using after_decrease_abs a(1,4) True by (simp add: erase_at_def m_size_def)
  next
    case False
    with a(1) assms vm_abs_facts [OF assms] show ?thesis by (auto simp: erase_m_def erase_at_def)
  qed
qed

lemma follows_erase_range:
  assumes "vm_abs v xv"
  shows "follows xv (erase_range xv i j) v (erase_range_m i j v)"
proof -
  obtain ps junk where a: "vm_size v = length ps" "vm_cells v = objs ps @ junk"
    "mset (map fst ps) + mset (vm_gone v) = mset [0..<vm_made v]" "xv = \<lparr>m_items = map snd ps, m_capacity = length ps + length junk\<rparr>"
    using assms by (rule vm_absE)
  show ?thesis
  proof (cases "i < j \<and> j \<le> length ps")
    case True
    define qs ms rs where "qs = take i ps" and "ms = take (j - i) (drop i ps)" and "rs = drop j ps"
    have "drop (j - i) (drop i ps) = rs" using True by (simp add: rs_def)
    then have ps: "ps = qs @ ms @ rs"
      unfolding qs_def ms_def by (metis append_take_drop_id)
    have "j - i \<le> length ps - i" using True by (simp add: diff_le_mono)
    then have l: "length qs = i" "length ms = j - i" using True by (simp_all add: qs_def ms_def)
    note ps = ps l
    have "length rs = length ps - (j - i) - i" using True by (simp add: rs_def)
    note ps = ps this
    let ?v = "v\<lparr>vm_size := vm_size v - (j - i)\<rparr>"
    let ?w = "?v\<lparr>vm_cells := objs qs @ replicate (j - i) Raw @ objs rs @ junk, vm_gone := rev (map fst ms) @ vm_gone v\<rparr>"
    have "vm_cells ?v = objs qs @ objs ms @ objs rs @ junk" using a(2) ps(1) by simp
    from destroy_up_objs [OF this, of i] have s: "destroy_up i (j - i) ?v = Some ?w" using ps(2,3) by simp
    have "\<exists>junk'. (if i < vm_size ?w then memmove i j (vm_size ?w - i) ?w else Some ?w)
        = Some (?w\<lparr>vm_cells := objs qs @ objs rs @ junk'\<rparr>) \<and> length junk' = length (replicate (j - i) (Raw :: 'a cell)) + length junk"
      by (rule close_gap) (use ps(2,4) a(1) True in simp_all)
    then obtain junk' where m: "(if i < vm_size ?w then memmove i j (vm_size ?w - i) ?w else Some ?w)
        = Some (?w\<lparr>vm_cells := objs qs @ objs rs @ junk'\<rparr>)" "length junk' = j - i + length junk" by (simp only: length_replicate) blast
    have d: "drop j ps = rs" "take i ps = qs" by (simp_all add: qs_def rs_def)
    have l: "vm_size v - (j - i) = length qs + length rs" using a(1) True ps(2,4) by simp
    have "vm_abs (?w\<lparr>vm_cells := objs qs @ objs rs @ junk'\<rparr>) (xv\<lparr>m_items := take i (m_items xv) @ drop j (m_items xv)\<rparr>)"
    proof (rule vm_absI [of _ "qs @ rs" junk'])
      show "mset (map fst (qs @ rs)) + mset (vm_gone (?w\<lparr>vm_cells := objs qs @ objs rs @ junk'\<rparr>))
        = mset [0..<vm_made (?w\<lparr>vm_cells := objs qs @ objs rs @ junk'\<rparr>)]"
        using a(3) ps(1) by (simp add: ac_simps)
      show "m_capacity (xv\<lparr>m_items := take i (m_items xv) @ drop j (m_items xv)\<rparr>)
        = length (vm_cells (?w\<lparr>vm_cells := objs qs @ objs rs @ junk'\<rparr>))"
        using a(1,4) ps(2,4) m(2) True by simp
    qed (use l d a(4) in \<open>simp_all add: take_map drop_map\<close>)
    moreover have c: "\<not> (i > vm_size v \<or> j > vm_size v)" "\<not> j < i" "j > i" using True a(1) by simp_all
    have "erase_range_m i j v = Some (Done (after_decrease_m (?w\<lparr>vm_cells := objs qs @ objs rs @ junk'\<rparr>)))"
      by (simp only: erase_range_m_def Let_def c if_False if_True s Option.bind.simps m(1))
    ultimately show ?thesis
      using after_decrease_abs a(1,4) True by (simp add: erase_range_def m_size_def)
  next
    case False
    with a(1) assms vm_abs_facts [OF assms] show ?thesis by (auto simp: erase_range_m_def erase_range_def)
  qed
qed

lemma set_capacity_follows:
  assumes "vm_abs v xv"
  shows "follows xv (Inr (reserve xv n)) v (reserve_m n v)" "follows xv (Inr (pack xv)) v (pack_m v)"
  using assms set_capacity_abs [OF assms] vm_abs_facts [OF assms]
  by (simp_all add: reserve_m_def reserve_def pack_m_def pack_def Let_def)

lemma upt_more: "mset [0..<m + k] = mset [0..<m] + mset [m..<m + k]"
  by (metis le0 mset_append upt_add_eq_append)

lemma follows_grow:
  assumes "vm_abs v xv" "vm_size v < sz" "sz \<le> length (vm_cells v)"
  shows "\<exists>ok idx v'. fill_m thr x (vm_size v) (sz - vm_size v) v = Some (ok, idx, v') \<and> vm_size v' = vm_size v
    \<and> (if ok then vm_abs (v'\<lparr>vm_size := sz\<rparr>) (xv\<lparr>m_items := m_items xv @ replicate (sz - vm_size v) x\<rparr>)
       else \<exists>w. destroy_down idx (idx - vm_size v) v' = Some w \<and> vm_abs w xv)"
proof -
  obtain ps junk where a: "vm_size v = length ps" "vm_cells v = objs ps @ junk"
    "mset (map fst ps) + mset (vm_gone v) = mset [0..<vm_made v]" "xv = \<lparr>m_items = map snd ps, m_capacity = length ps + length junk\<rparr>"
    using assms(1) by (rule vm_absE)
  let ?n = "sz - vm_size v"
  have i: "vm_size v = length (objs ps)" and n: "?n \<le> length junk" using a(1,2) assms(3) by simp_all
  obtain ok k new where f: "fill_m thr x (vm_size v) ?n v
      = Some (ok, vm_size v + k, v\<lparr>vm_cells := objs ps @ objs new @ drop k junk, vm_made := vm_made v + k\<rparr>)"
    "k \<le> ?n" "ok \<longrightarrow> k = ?n" "map fst new = [vm_made v..<vm_made v + k]" "map snd new = replicate k x"
    using fill_m_objs [OF a(2) i n, of thr x] by blast
  let ?v = "v\<lparr>vm_cells := objs ps @ objs new @ drop k junk, vm_made := vm_made v + k\<rparr>"
  have len: "length new = k" using arg_cong [OF f(5), of length] by simp
  have k: "k \<le> length junk" using f(2) a(1,2) assms(2,3) by simp
  have all: "mset (map fst ps) + mset (map fst new) + mset (vm_gone v) = mset [0..<vm_made v + k]"
    unfolding f(4) upt_more a(3) [symmetric] by (simp only: ac_simps)
  have "ok \<Longrightarrow> vm_abs (?v\<lparr>vm_size := sz\<rparr>) (xv\<lparr>m_items := m_items xv @ replicate ?n x\<rparr>)"
  proof (rule vm_absI [of _ "ps @ new" "drop k junk"])
    assume ok
    then show "vm_size (?v\<lparr>vm_size := sz\<rparr>) = length (ps @ new)"
      "m_items (xv\<lparr>m_items := m_items xv @ replicate ?n x\<rparr>) = map snd (ps @ new)"
      using f(3,5) len a(1,4) assms(2) by simp_all
    show "mset (map fst (ps @ new)) + mset (vm_gone (?v\<lparr>vm_size := sz\<rparr>)) = mset [0..<vm_made (?v\<lparr>vm_size := sz\<rparr>)]"
      using all by (simp only: map_append mset_append) simp
  qed (use a(4) len k in simp_all)
  moreover
  let ?w = "?v\<lparr>vm_cells := objs ps @ replicate (length new) Raw @ drop k junk, vm_gone := map fst new @ vm_gone ?v\<rparr>"
  have "destroy_down (vm_size v + k) (length new) ?v = Some ?w"
    by (rule destroy_down_objs) (use a(1) len in simp_all)
  then have "destroy_down (vm_size v + k) (vm_size v + k - vm_size v) ?v = Some ?w" using len by simp
  moreover have "vm_abs ?w xv"
  proof (rule vm_absI [of _ ps "replicate (length new) Raw @ drop k junk"])
    have g: "vm_gone ?w = map fst new @ vm_gone v" "vm_made ?w = vm_made v + k" by simp_all
    show "mset (map fst ps) + mset (vm_gone ?w) = mset [0..<vm_made ?w]"
      unfolding g mset_append all [symmetric] by (simp only: ac_simps)
  qed (use a(1,4) len k in simp_all)
  ultimately show ?thesis using f(1) by (intro exI conjI) (assumption, simp_all)
qed

lemma follows_resize:
  assumes "vm_abs v xv"
  shows "follows xv (resize isz xv sz x) v (resize_m isz thr sz x v)"
proof -
  have f: "m_size xv = vm_size v" "m_capacity xv = length (vm_cells v)" "vm_size v \<le> length (vm_cells v)"
    using vm_abs_facts [OF assms] by simp_all
  consider "sz = vm_size v \<or> sz > max_size isz" | "sz \<noteq> vm_size v" "\<not> sz > max_size isz" "sz > vm_size v"
    | "sz \<noteq> vm_size v" "\<not> sz > max_size isz" "\<not> sz > vm_size v" by blast
  then show ?thesis
  proof cases
    case 1
    then show ?thesis using f assms by (auto simp: resize_m_def resize_def)
  next
    case 2
    define v1 where "v1 = (if calc_capacity sz > length (vm_cells v) then set_capacity_m (calc_capacity sz) v else v)"
    define xv1 where "xv1 = (if calc_capacity sz > m_capacity xv then set_capacity (calc_capacity sz) xv else xv)"
    have v1: "vm_abs v1 xv1" "vm_size v1 = vm_size v" "m_items xv1 = m_items xv"
      using assms set_capacity_abs [OF assms] f(2) by (simp_all add: v1_def xv1_def)
    have "sz \<le> m_capacity xv1"
      using calc_capacity_gt [of sz] by (simp add: xv1_def set_capacity_def)
    then have "sz \<le> length (vm_cells v1)" using vm_abs_facts [OF v1(1)] by simp
    then obtain ok idx v' where r: "fill_m thr x (vm_size v) (sz - vm_size v) v1 = Some (ok, idx, v')" "vm_size v' = vm_size v"
      "if ok then vm_abs (v'\<lparr>vm_size := sz\<rparr>) (xv1\<lparr>m_items := m_items xv1 @ replicate (sz - vm_size v) x\<rparr>)
       else \<exists>w. destroy_down idx (idx - vm_size v) v' = Some w \<and> vm_abs w xv1"
      using follows_grow [OF v1(1), of sz thr x, unfolded v1(2), OF 2(3)] by blast
    have m: "resize_m isz thr sz x v = (if ok then Some (Done (v'\<lparr>vm_size := sz\<rparr>))
        else do { w \<leftarrow> destroy_down idx (idx - vm_size v) v';
                  Some (Thrown (if length (vm_cells v) \<noteq> length (vm_cells w) then set_capacity_m (length (vm_cells v)) w else w)) })"
      using 2 r(1,2) v1(2) by (simp add: resize_m_def Let_def v1_def [symmetric])
    have x: "resize isz xv sz x = Inr (xv1\<lparr>m_items := m_items xv1 @ replicate (sz - vm_size v) x\<rparr>)"
      using 2 f(1) v1(3) by (simp add: resize_def Let_def xv1_def [symmetric])
    show ?thesis
    proof (cases ok)
      case True
      with r(3) m x show ?thesis by simp
    next
      case False
      with r(3) obtain w where w: "destroy_down idx (idx - vm_size v) v' = Some w" "vm_abs w xv1" by auto
      let ?c = "length (vm_cells v)"
      have "vm_abs (set_capacity_m ?c w) (set_capacity ?c xv1)" using set_capacity_abs [OF w(2)] .
      with w v1(3) False m show ?thesis by (cases "?c = length (vm_cells w)") auto
    qed
  next
    case 3
    obtain ps junk where a: "vm_size v = length ps" "vm_cells v = objs ps @ junk"
      "mset (map fst ps) + mset (vm_gone v) = mset [0..<vm_made v]" "xv = \<lparr>m_items = map snd ps, m_capacity = length ps + length junk\<rparr>"
      using assms by (rule vm_absE)
    define qs rs where "qs = take sz ps" and "rs = drop sz ps"
    have ps: "ps = qs @ rs" "length qs = sz" "length rs = vm_size v - sz" using 3 a(1) by (simp_all add: qs_def rs_def)
    let ?w = "v\<lparr>vm_cells := objs qs @ replicate (length rs) Raw @ junk, vm_gone := rev (map fst rs) @ vm_gone v\<rparr>"
    have "destroy_up sz (length rs) v = Some ?w" by (rule destroy_up_objs) (use a(2) ps(1,2) in simp_all)
    moreover have "vm_abs (?w\<lparr>vm_size := sz\<rparr>) (xv\<lparr>m_items := take sz (m_items xv)\<rparr>)"
      using a ps(1,2) by (intro vm_absI [of _ qs "replicate (length rs) Raw @ junk"]) (simp_all add: ac_simps)
    ultimately show ?thesis using 3 f(1) ps(3) by (simp add: resize_m_def resize_def)
  qed
qed

lemma run_follows:
  assumes "vm_abs v xv"
  shows "follows xv (run_x isz op xv) v (run_m isz thr op v)"
  using assms
  by (cases op) (simp_all add: follows_push follows_pop follows_clear follows_insert follows_erase follows_erase_range
      follows_resize set_capacity_follows)

subsection \<open>A sequence of operations against lists\<close>

text \<open>The operations on lists, and the places an operation copies an item to.  An operation that is
  refused, or one of whose copies throws, leaves the list as it was.\<close>

fun list_op :: "nat \<Rightarrow> 'a vec_op \<Rightarrow> 'a list \<Rightarrow> xtl_error + 'a list" where
  "list_op isz (Push x) xs = (if length xs + 1 > max_size isz then Inl Vector_has_maximal_size else Inr (xs @ [x]))"
| "list_op isz Pop xs = Inr (butlast xs)"
| "list_op isz Clear xs = Inr []"
| "list_op isz (Insert i x) xs =
     (if i > length xs then Inl Iterator_out_of_range
      else if length xs + 1 > max_size isz then Inl Vector_has_maximal_size
      else Inr (take i xs @ x # drop i xs))"
| "list_op isz (Erase i) xs = (if i > length xs then Inl Iterator_out_of_range else Inr (take i xs @ drop (Suc i) xs))"
| "list_op isz (Erase_range i j) xs =
     (if i > length xs \<or> j > length xs then Inl Iterator_out_of_range
      else if j < i then Inl Second_iterator_less else Inr (take i xs @ drop j xs))"
| "list_op isz (Resize n x) xs =
     (if n \<noteq> length xs \<and> n > max_size isz then Inl Invalid_vector_size
      else Inr (take n xs @ replicate (n - length xs) x))"
| "list_op isz (Reserve n) xs = Inr xs"
| "list_op isz Pack xs = Inr xs"

fun copies :: "'a vec_op \<Rightarrow> 'a list \<Rightarrow> nat list" where
  "copies (Push x) xs = [length xs]"
| "copies (Insert i x) xs = [i]"
| "copies (Resize n x) xs = [length xs..<n]"
| "copies _ xs = []"

definition list_step :: "nat \<Rightarrow> (nat \<Rightarrow> bool) \<times> 'a vec_op \<Rightarrow> 'a list \<Rightarrow> 'a list" where
  "list_step isz p xs =
     (case list_op isz (snd p) xs of Inl e \<Rightarrow> xs | Inr ys \<Rightarrow> if list_ex (fst p) (copies (snd p) xs) then xs else ys)"

fun run_all_m :: "nat \<Rightarrow> ((nat \<Rightarrow> bool) \<times> 'a vec_op) list \<Rightarrow> 'a vmem \<Rightarrow> 'a vmem option" where
  "run_all_m isz [] v = Some v"
| "run_all_m isz (p # ps) v = do { r \<leftarrow> run_m isz (fst p) (snd p) v; run_all_m isz ps (after r) }"

text \<open>The destructor clears the vector and frees the block.\<close>

definition vector_delete_m :: "'a vmem \<Rightarrow> 'a vmem option" where
  "vector_delete_m v = do { r \<leftarrow> clear_m v; Some ((after r)\<lparr>vm_cells := []\<rparr>) }"

lemma before_increase_list:
  "before_increase isz n xv = (if m_size xv + n > max_size isz then Inl Vector_has_maximal_size
     else Inr (if m_capacity xv - m_size xv < n then set_capacity (calc_capacity (m_size xv + n)) xv else xv))"
  by (simp add: before_increase_def)

lemma run_x_list:
  "(case run_x isz op xv of Inl e \<Rightarrow> list_op isz op (m_items xv) = Inl e | Inr xv' \<Rightarrow> list_op isz op (m_items xv) = Inr (m_items xv'))"
  by (cases op) (auto simp: push_back_def pop_back_def clear_vec_def insert_at_def erase_at_def erase_range_def resize_def
      reserve_def pack_def before_increase_list m_size_def Let_def)

lemma fill_m_ok: "fill_m thr x idx n v = Some (ok, i, v') \<Longrightarrow> ok \<longleftrightarrow> \<not> list_ex thr [idx..<idx + n]"
proof (induction n arbitrary: idx v)
  case (Suc n)
  have u: "[idx..<idx + Suc n] = idx # [idx + 1..<idx + 1 + n]" by (simp add: upt_conv_Cons del: upt_Suc)
  show ?case
  proof (cases "thr idx")
    case True
    with Suc.prems show ?thesis by (simp only: u list_ex_Cons_iff) simp
  next
    case False
    with Suc.prems obtain w where "fill_m thr x (idx + 1) n w = Some (ok, i, v')" by (auto split: bind_splits)
    from Suc.IH [OF this] False show ?thesis by (simp only: u list_ex_Cons_iff) simp
  qed
qed simp

text \<open>Which operations are left by an exception of a copy.\<close>

fun thrown :: "'a outcome \<Rightarrow> bool" where
  "thrown (Thrown v) = True"
| "thrown _ = False"

fun raised :: "'a outcome \<Rightarrow> bool" where
  "raised (Raised e v) = True"
| "raised _ = False"

lemma push_thrown: "push_back_m isz thr x v = Some r \<Longrightarrow> \<not> raised r \<Longrightarrow> thrown r = thr"
  by (auto simp: push_back_m_def bind_eq_Some_conv split: sum.splits if_splits)

lemma insert_thrown: "insert_m isz thr i x v = Some r \<Longrightarrow> \<not> raised r \<Longrightarrow> thrown r = thr"
  by (auto simp: insert_m_def bind_eq_Some_conv split: sum.splits if_splits)

lemma resize_thrown:
  assumes "resize_m isz thr sz x v = Some r" "\<not> raised r"
  shows "thrown r = list_ex thr [vm_size v..<sz]"
proof (cases "sz = vm_size v \<or> sz > max_size isz \<or> \<not> sz > vm_size v")
  case True
  with assms show ?thesis by (auto simp: resize_m_def bind_eq_Some_conv split: if_splits)
next
  case False
  define v1 where "v1 = (if calc_capacity sz > length (vm_cells v) then set_capacity_m (calc_capacity sz) v else v)"
  have "vm_size v1 = vm_size v" by (simp add: v1_def)
  with assms(1) False obtain ok i v' where f: "fill_m thr x (vm_size v) (sz - vm_size v) v1 = Some (ok, i, v')"
    and r: "(if ok then Some (Done (v'\<lparr>vm_size := sz\<rparr>))
                 else do { v'' \<leftarrow> destroy_down i (i - vm_size v') v';
                           Some (Thrown (if length (vm_cells v) \<noteq> length (vm_cells v'') then set_capacity_m (length (vm_cells v)) v'' else v'')) }) = Some r"
    by (auto simp: resize_m_def Let_def v1_def [symmetric] bind_eq_Some_conv)
  have "thrown r = (\<not> ok)" using r by (cases ok) (auto simp: bind_eq_Some_conv)
  with fill_m_ok [OF f] False show ?thesis by simp
qed

lemma others_thrown:
  "pop_back_m v = Some r \<Longrightarrow> \<not> thrown r"
  "clear_m v = Some r \<Longrightarrow> \<not> thrown r"
  "erase_m i v = Some r \<Longrightarrow> \<not> thrown r"
  "erase_range_m i j v = Some r \<Longrightarrow> \<not> thrown r"
  "reserve_m n v = Some r \<Longrightarrow> \<not> thrown r"
  "pack_m v = Some r \<Longrightarrow> \<not> thrown r"
  by (auto simp: pop_back_m_def clear_m_def erase_m_def erase_range_m_def reserve_m_def pack_m_def Let_def bind_eq_Some_conv
      split: if_splits)

lemma run_thrown:
  assumes "run_m isz thr op v = Some r" "\<not> raised r" "length xs = vm_size v"
  shows "thrown r = list_ex thr (copies op xs)"
  using assms by (cases op) (auto dest: push_thrown insert_thrown resize_thrown others_thrown)

text \<open>One operation, then all of them.\<close>

lemma run_step:
  assumes "vm_abs v xv"
  shows "\<exists>r xv'. run_m isz (fst p) (snd p) v = Some r \<and> vm_abs (after r) xv' \<and> m_items xv' = list_step isz p (m_items xv)"
proof -
  have f: "follows xv (run_x isz (snd p) xv) v (run_m isz (fst p) (snd p) v)" using assms by (rule run_follows)
  then obtain r where r: "run_m isz (fst p) (snd p) v = Some r" by (cases "run_m isz (fst p) (snd p) v") auto
  have t: "\<not> raised r \<Longrightarrow> thrown r = list_ex (fst p) (copies (snd p) (m_items xv))"
    using run_thrown [OF r] vm_abs_facts [OF assms] by (simp add: m_size_def)
  show ?thesis
  proof (cases r)
    case (Done w)
    then obtain xv' where "run_x isz (snd p) xv = Inr xv'" "vm_abs w xv'" using f r by auto
    with run_x_list [of isz "snd p" xv] t Done r show ?thesis by (auto simp: list_step_def)
  next
    case (Raised e w)
    with f r have "run_x isz (snd p) xv = Inl e" "w = v" by auto
    with run_x_list [of isz "snd p" xv] Raised r assms show ?thesis by (auto simp: list_step_def)
  next
    case (Thrown w)
    with f r obtain xv' where "vm_abs w xv'" "m_items xv' = m_items xv" by auto
    with t Thrown r show ?thesis by (auto simp: list_step_def split: sum.splits)
  qed
qed

lemma new_vmem_abs: "vm_abs new_vmem empty_vec"
  by (rule vm_absI [of _ "[]" "[]"]) (simp_all add: new_vmem_def empty_vec_def)

lemma run_all_steps:
  "vm_abs v xv \<Longrightarrow> \<exists>v' xv'. run_all_m isz ops v = Some v' \<and> vm_abs v' xv' \<and> m_items xv' = fold (list_step isz) ops (m_items xv)"
proof (induction ops arbitrary: v xv)
  case (Cons p ops)
  from run_step [OF Cons.prems, of isz p] obtain r xv' where
    r: "run_m isz (fst p) (snd p) v = Some r" "vm_abs (after r) xv'" "m_items xv' = list_step isz p (m_items xv)" by blast
  from Cons.IH [OF r(2)] r show ?case by simp
qed auto

lemma vector_delete_all:
  assumes "vm_abs v xv"
  shows "\<exists>w. vector_delete_m v = Some w \<and> mset (vm_gone w) = mset [0..<vm_made w]"
proof -
  have f: "follows xv (Inr (clear_vec xv)) v (clear_m v)" using assms by (rule follows_clear)
  then obtain r where r: "clear_m v = Some r" by (cases "clear_m v") auto
  then obtain w where w: "r = Done w" using f others_thrown(2) [OF r] by (cases r) auto
  then have "vm_abs w (clear_vec xv)" using f r by simp
  then obtain ps where "mset (map fst ps) + mset (vm_gone w) = mset [0..<vm_made w]" "m_items (clear_vec xv) = map snd ps"
    by (rule vm_absE) auto
  moreover have "m_items (clear_vec xv) = []" by (simp add: clear_vec_def m_size_def)
  ultimately show ?thesis using r w by (simp add: vector_delete_m_def)
qed

lemma run_all_deleted:
  "\<exists>v ps w. run_all_m isz ops new_vmem = Some v \<and> vm_rep v ps \<and> map snd ps = fold (list_step isz) ops []
     \<and> vector_delete_m v = Some w \<and> mset (vm_gone w) = mset [0..<vm_made w]"
proof -
  have "m_items (empty_vec :: 'a xvec) = []" by (simp add: empty_vec_def)
  with run_all_steps [OF new_vmem_abs, of isz ops] obtain v xv where
    v: "run_all_m isz ops new_vmem = Some v" "vm_abs v xv" "m_items xv = fold (list_step isz) ops []" by auto
  from v(2) obtain ps where "vm_rep v ps" "m_items xv = map snd ps" by (auto simp: vm_abs_def)
  with v vector_delete_all [OF v(2)] show ?thesis by (metis)
qed

end
