(* ===== verification/Portability.thy ===== *)
theory Portability
  imports Prelude
begin

text \<open>
  What \<open>src/src/com/include/nrdos.h\<close> and \<open>src/src/com/xtllib/xtl_thread.h\<close> define for themselves
  between platforms: \<open>setenv\<close> and \<open>unsetenv\<close> over \<open>_putenv\<close> with their buffer of 1024 bytes, and
  the delays.

  \<open>strncpy\<close> and \<open>strncat\<close> are those of C on a list of bytes that is the whole buffer; a write
  behind it is \<open>None\<close>.  The environment and \<open>_putenv\<close>, which answers with a number and the new
  environment, are arguments.
\<close>

subsection \<open>Copying strings into a buffer\<close>

definition strncpy :: "string \<Rightarrow> string \<Rightarrow> nat \<Rightarrow> string option" where
  "strncpy buf src n =
     (if n \<le> length buf
      then Some (take n (c_str src @ replicate n CHR 0x00) @ drop n buf) else None)"

definition strncat :: "string \<Rightarrow> string \<Rightarrow> nat \<Rightarrow> string option" where
  "strncat buf src n =
     (let p = length (c_str buf); t = take n (c_str src) @ [CHR 0x00] in
      if p < length buf \<and> p + length t \<le> length buf
      then Some (take p buf @ t @ drop (p + length t) buf) else None)"

lemma c_str_end: "CHR 0x00 \<notin> set s \<Longrightarrow> c_str (s @ CHR 0x00 # rest) = s"
  by (induction s) (auto simp: c_str_def)

lemma nul_notin_c_str: "CHR 0x00 \<notin> set (c_str s)"
  unfolding c_str_def by (metis (mono_tags, lifting) set_takeWhileD)

lemma drop_last_update: "length xs = Suc n \<Longrightarrow> drop n (xs[n := x]) = [x]"
  by (simp add: upd_conv_take_nth_drop)

lemma strncat_ends:
  assumes "buf = s @ CHR 0x00 # rest" "CHR 0x00 \<notin> set s"
  shows "strncat buf src n =
    (if length s + length (take n (c_str src)) + 1 \<le> length buf
     then Some ((s @ take n (c_str src)) @ CHR 0x00 # drop (length (take n (c_str src))) rest) else None)"
proof -
  let ?t = "take n (c_str src)"
  have "c_str buf = s" using assms by (simp add: c_str_end)
  then show ?thesis using assms(1)
    by (simp add: strncat_def Let_def min_def)
qed

subsection \<open>The environment on Windows\<close>

definition setenv_text :: "string \<Rightarrow> string \<Rightarrow> string option \<Rightarrow> string option" where
  "setenv_text junk var val =
     (let buf = junk[1023 := CHR 0x00] in
      Option.bind (strncpy buf var 1023) (\<lambda>buf.
      Option.bind (strncat buf ''='' 1023) (\<lambda>buf.
        case val of None \<Rightarrow> Some buf | Some v \<Rightarrow> strncat buf v 1023)))"

definition setenv ::
  "(string \<Rightarrow> 'e \<Rightarrow> int \<times> 'e) \<Rightarrow> (string \<Rightarrow> 'e \<Rightarrow> string option) \<Rightarrow> string \<Rightarrow> string option \<Rightarrow> string option \<Rightarrow> bool
   \<Rightarrow> 'e \<Rightarrow> (int \<times> 'e) option" where
  "setenv putenv getenv junk var val over env =
     (case var of
        None \<Rightarrow> Some (-1, env)
      | Some var \<Rightarrow>
          if getenv var env = None \<or> over
          then map_option (\<lambda>buf. putenv (c_str buf) env) (setenv_text junk var val)
          else Some (-1, env))"

definition unsetenv ::
  "(string \<Rightarrow> 'e \<Rightarrow> int \<times> 'e) \<Rightarrow> (string \<Rightarrow> 'e \<Rightarrow> string option) \<Rightarrow> string \<Rightarrow> string \<Rightarrow> 'e \<Rightarrow> (int \<times> 'e) option" where
  "unsetenv putenv getenv junk var env =
     (if getenv var env = None then Some (0, env) else setenv putenv getenv junk (Some var) None True env)"

text \<open>The third argument of \<open>strncat\<close> is the number of characters it may append, not the size of the
  buffer.  So the buffer is overrun as soon as the name and the value do not fit; otherwise it holds
  the name, the sign and the value.\<close>

lemma setenv_text_fits:
  assumes "length junk = 1024"
  shows "(case setenv_text junk var val of
            None \<Rightarrow> 1022 < length (c_str var) + length (case val of None \<Rightarrow> [] | Some v \<Rightarrow> c_str v)
          | Some buf \<Rightarrow> length (c_str var) + length (case val of None \<Rightarrow> [] | Some v \<Rightarrow> c_str v) \<le> 1022
              \<and> c_str buf = c_str var @ CHR ''='' # (case val of None \<Rightarrow> [] | Some v \<Rightarrow> c_str v))"
proof -
  let ?n = "c_str var" and ?v = "case val of None \<Rightarrow> [] | Some v \<Rightarrow> c_str v"
  have eq: "c_str ''='' = ''=''" by (simp add: c_str_def)
  have last: "drop 1023 (junk[1023 := CHR 0x00]) = [CHR 0x00]"
    using drop_last_update [of junk 1023] assms by simp
  show ?thesis
  proof (cases "length ?n \<le> 1022")
    case False
    then have cp: "strncpy (junk[1023 := CHR 0x00]) var 1023 = Some (take 1023 ?n @ [CHR 0x00])"
      using assms last by (simp add: strncpy_def)
    have "CHR 0x00 \<notin> set (take 1023 ?n)" using nul_notin_c_str [of var] by (meson in_set_takeD)
    from strncat_ends [OF refl this, of "[]" "''=''" 1023] cp False show ?thesis
      by (simp add: setenv_text_def eq)
  next
    case True
    let ?z = "replicate (1022 - length ?n) (CHR 0x00) @ [CHR 0x00]"
    have rep: "replicate (1023 - length ?n) (CHR 0x00) @ [CHR 0x00] = CHR 0x00 # ?z"
      using True by (simp add: Suc_diff_le flip: replicate_Suc)
    have "take 1023 (?n @ replicate 1023 (CHR 0x00)) = ?n @ replicate (1023 - length ?n) (CHR 0x00)"
      using True by (simp add: min_def)
    then have cp: "strncpy (junk[1023 := CHR 0x00]) var 1023 = Some (?n @ CHR 0x00 # ?z)"
      using assms last rep by (simp add: strncpy_def)
    have ct: "strncat (?n @ CHR 0x00 # ?z) ''='' 1023 = Some ((?n @ ''='') @ CHR 0x00 # drop 1 ?z)"
      using strncat_ends [OF refl nul_notin_c_str [of var], of ?z "''=''" 1023] True by (simp add: eq)
    have nz: "CHR 0x00 \<notin> set (?n @ ''='')" using nul_notin_c_str [of var] by simp
    have len: "length ((?n @ ''='') @ CHR 0x00 # drop 1 ?z) = 1024" using True by simp
    show ?thesis
    proof (cases val)
      case None
      with cp ct True c_str_end [OF nz, of "drop 1 ?z"] show ?thesis by (simp add: setenv_text_def)
    next
      case (Some v)
      let ?t = "take 1023 (c_str v)"
      have nt: "CHR 0x00 \<notin> set ((?n @ ''='') @ ?t)" using nz nul_notin_c_str [of v] in_set_takeD [of _ 1023 "c_str v"] by auto
      have s: "setenv_text junk var val = strncat ((?n @ ''='') @ CHR 0x00 # drop 1 ?z) v 1023"
        using Some cp ct by (simp add: setenv_text_def)
      note e = strncat_ends [OF refl nz, of "drop 1 ?z" v 1023, unfolded len]
      show ?thesis
      proof (cases "length (?n @ ''='') + length ?t + 1 \<le> 1024")
        case True
        then have "length (c_str v) \<le> 1023" by (cases "length (c_str v) \<le> 1023") auto
        with True s e Some c_str_end [OF nt] show ?thesis by simp
      next
        case False
        with s e Some show ?thesis by (auto simp: min_def split: if_splits)
      qed
    qed
  qed
qed

subsection \<open>Delays\<close>

text \<open>The microseconds that \<open>sleep\<close> asks of \<open>usleep\<close>: the product is an \<open>unsigned int\<close>.\<close>

definition sleep_usec :: "32 word \<Rightarrow> 32 word" where
  "sleep_usec millisec = millisec * 1000"

definition tick_count :: "64 word" where
  "tick_count = 0"

lemma sleep_usec_exact: "unat (sleep_usec ms) = unat ms * 1000 \<longleftrightarrow> unat ms \<le> 4294967"
proof -
  have eq: "unat (sleep_usec ms) = unat ms * 1000 mod 2 ^ 32"
    by (simp add: sleep_usec_def unat_word_ariths)
  show ?thesis
  proof
    assume "unat (sleep_usec ms) = unat ms * 1000"
    then have "unat ms * 1000 < 2 ^ 32" using eq by (metis mod_less_divisor zero_less_numeral zero_less_power)
    then show "unat ms \<le> 4294967" by simp
  qed (simp add: eq)
qed

end
