(* ===== verification/Spec2Isabelle.thy ===== *)
theory Spec2Isabelle
  imports Samples Algo Guards Wide Messages Vecmem Portability
begin

text \<open>
  nrdproxyd: a TCP proxy and load balancer with a browser for its servers.

  The program (\<open>src/src\<close>) is one process.  \<open>main\<close> of \<open>nrdpx_server.cpp\<close> reads the command
  line, becomes a daemon, opens the log, loads the configuration, opens the listeners, starts the
  threads of the network browser and enters the main loop.  The main loop waits with \<open>select\<close>
  for listeners and channels; it accepts connections, finds a route for each (a client entry that
  admits the address, a balancer, a server), connects to the server, and relays bytes between the
  two sockets of each channel through two buffers.  A failed connection is tried again with another
  server.  The browser's tracker thread listens for datagrams of servers, its control thread checks
  its list every second; both report to \<open>nrdpx_info_callback\<close>, which changes the servers of the
  proxy and probes them.  Signals end the program.

  Theories, from the bottom, and the code they model:

  \<^item> \<open>Prelude\<close>: C strings, case-insensitive comparison, search in strings, C division.
  \<^item> \<open>Algo\<close> (\<open>com/xtllib/xtl_algo.h\<close>), \<open>Text\<close> (\<open>xtl_string.h\<close>, \<open>xtl_utils.h\<close>), \<open>Vector\<close>
    (\<open>xtl_vector.h\<close>: items and a capacity, exceptions as \<open>Inl\<close>), \<open>Vecmem\<close> (the same
    file on its memory: objects made, moved and destroyed), \<open>Thread\<close> and \<open>Guards\<close>
    (\<open>xtl_thread.h\<close>: mutex, read-write mutex, semaphore, thread object, scope guards; \<open>None\<close> is a
    call that waits), \<open>Wide\<close> (\<open>xtl_string.h\<close>: wide strings, times, hexadecimal numbers),
    \<open>Inet\<close> (\<open>xtl_inet.h\<close>: addresses, CIDR blocks, errors), \<open>Nrdtype\<close> (\<open>com/include/nrdtype.h\<close>:
    the macros on words), \<open>Portability\<close> (\<open>setenv\<close> of \<open>com/include/nrdos.h\<close>, delays).
  \<^item> \<open>Config\<close> (\<open>nrdpx_config.h\<close>, \<open>nrdpx_config.cpp\<close>): the reader of configuration files,
    character by character.
  \<^item> \<open>Netsock\<close> (\<open>nrdpx_socket.cpp\<close>): sockets over the answers of the system; the open
    descriptors are a set, so that a descriptor that leaks or is closed twice is seen.
  \<^item> \<open>Nbproto\<close> (\<open>com/include/nrdnb.h\<close>) and \<open>Nbclient\<close> (\<open>nrdnb_client.h\<close>,
    \<open>nrdnb_client.cpp\<close>): datagrams with their layout in bytes; the tracker, the control thread
    and the calls of their user as steps on one state (\<open>nb_trans\<close>, \<open>nb_reach\<close>).
  \<^item> \<open>Server\<close>: servers, clients, balancers, the status functions, \<open>nrdpx_select_server\<close>.
    \<open>Route_Cache\<close>: \<open>nrdpx_route_t\<close> and \<open>nrdpx_cache_t\<close> over a heap of routes, where the use of
    freed memory is \<open>None\<close>.  \<open>Channel\<close>: the buffers (a memory function with a size; a write
    outside is \<open>None\<close>), sizes of sockets and buffers.  \<open>Proxy\<close>: \<open>nrdpx_proxy_t\<close>,
    \<open>nrdpx_channel_create\<close>, \<open>nrdpx_channel_delete\<close>.  \<open>Mainloop\<close>: \<open>fill_fds\<close> and one iteration
    of \<open>nrdpx_main_proc\<close>.  \<open>Tracker\<close>: \<open>nrdpx_check_server\<close> and \<open>nrdpx_info_callback\<close>.
    \<open>Checker\<close>: the steps of a check and the signals that abort it.  \<open>Interleave\<close>: the steps of the
    main loop (\<open>main_trans\<close>) and of the callback (\<open>event_trans\<close>), of which the functions above are
    the runs that nothing interrupts.
    \<open>Loader\<close>: \<open>nrdpx_load_config\<close>.  \<open>Process\<close>: command line, log, pid file, daemon, signals, exit.
    \<open>Messages\<close>: version, licence, help, the log file.  \<open>Program\<close>: \<open>main\<close> and the transitions of
    the running program (\<open>prog_trans\<close>), in which the main thread, the callback, the threads of the
    browser and the signals take turns step by step.  All from \<open>nrdpx_server.h\<close> and
    \<open>nrdpx_server.cpp\<close>.
  \<^item> Proofs over these: \<open>Proxy_Inv\<close>, \<open>Admission\<close>, \<open>Run_Inv\<close>, \<open>Loop_Relay\<close>, \<open>Loop_End\<close>, \<open>Routing\<close>,
    \<open>Sessions\<close>, \<open>Descriptors\<close>;
    \<open>Samples\<close>: a small proxy on which the hypotheses of the theorems hold.

  Objects that the code reaches by pointers are indices into the proxy's tables (clients, servers,
  balancers), addresses in a heap (routes) or carry an address that is never used twice (channels).
  What the system answers (\<open>select\<close>, \<open>recv\<close>, \<open>send\<close>, sockets, the resolver, the clock, bytes
  found in new memory, the rounding of doubles) are arguments of the definitions, so the theorems
  hold for every answer.  The arguments of the loops are indexed by the pass, so that two calls in
  one iteration may be answered differently.

  What the lemmas show:

  \<^item> \<open>world_ok\<close> (\<open>Proxy_Inv\<close>) is the invariant of the proxy: the slots of routes, clients and
    servers are the numbers of channels that use them, no channel refers to freed memory, buffers
    are within bounds, the cache holds allocated routes only.  Every operation keeps it (creation,
    deletion, the four relay steps, the callback, the loader, the destructor), and it implies that
    no operation gets stuck.
  \<^item> The contracts are locales, each interpreted on the code's model: \<open>relay_buffer\<close> (a buffer is a
    queue of bytes), \<open>route_cache\<close> (what is found after what was added), \<open>selector\<close> (the best
    candidate of a pass), \<open>vector_adt\<close> (the vector is a list), \<open>scoped_lock\<close> (a guard gives the
    lock back as it found it), \<open>line_ends\<close> (wide strings are converted as narrow ones),
    \<open>io_invariant\<close>, \<open>loop_invariant\<close>, \<open>step_invariant\<close> and \<open>run_invariant\<close> (what an
    invariant must satisfy to be kept by the relay steps, by the main loop, by the steps of the main
    thread and the callback, by the whole program; used for the configuration, for the limits of
    clients and servers, for the cache, for listeners and for addresses).
  \<^item> \<open>Admission\<close> gives the choice of client, balancer and server without the loops of the code.
    \<open>Loop_Relay\<close> follows a channel through an iteration, \<open>Sessions\<close> through a run of the program,
    \<open>Loop_End\<close> proves that the loop over the channels ends.  \<open>Routing\<close> says where
    \<open>nrdpx_channel_create\<close> leads a connection, with the cache and without it.  \<open>Descriptors\<close> says
    who owns each open descriptor; \<open>kernel_reach\<close> are the runs in which the kernel gives out
    descriptors that are not open.

  Bounds and fuel.  \<open>chan_loop\<close> has fuel because failed connections append channels to the list it
  goes over; \<open>chan_loop_ends\<close> shows that enough fuel exists and more does not change the result.
  \<open>wait_for\<close> has fuel because it may wait for ever: with a timeout that is a multiple of 25 one
  more than the quotient is enough, with another the counter wraps around.  In both, fuel that ran
  out is a value of its own.

  Not modelled:

  \<^item> \<open>xtl_route.h\<close>, which is commented out as a whole; \<open>xtl_env.h\<close>, \<open>xtl_except.h\<close>,
    \<open>nrderr.h\<close> and the rest of \<open>nrdos.h\<close>: includes, aliases, compiler attributes and error numbers.
    \<open>xtl_hash_map.h\<close>: a layer over the hash map of the standard library, which is a map here.
  \<^item> The other code for Windows; \<open>m_thread_id\<close> of a thread, which nothing reads; syslog and the kernel
    behind the socket options.
  \<^item> Races finer than the steps.  The callback runs on the threads of the browser while the main loop
    runs, without a lock.  A step of the main thread is one test, one \<open>fill_fds\<close>, one \<open>select\<close>,
    the work on one listener or one pass over a channel; a step of the callback is what it does to a
    server between two calls that may block.  Within a step the proxy is not changed by others.  A
    signal comes between steps; inside \<open>nrdpx_check_server\<close> between its blocks.
  \<^item> \<open>errno\<close> between calls other than as the answer of the call that sets it, and the overflow of
    signed integers: an \<open>int\<close> that the code does not cut is unbounded here.
\<close>

section \<open>The program\<close>



text \<open>C2.  With the cache turned off, no client ever has more channels than its \<open>max_slots\<close> allows and
  no server more than the \<open>max_slots\<close> it was configured with, in any state of a run, retries of
  failed connections included.\<close>

theorem limits_kept:
  assumes "nrdpx_main e = (P_main M_head, p0)" "pg_proxy p0 = Some w0" "ca_mode (px_cache w0) = CACHE_NONE"
    "prog_reach e (pc, p)" "pg_proxy p = Some w"
  shows "(\<forall>i<length (px_clients w0).
            tally (\<lambda>c. chan_cl (px_routes w) c = Some i) (px_channels w) \<le> cl_max_slots (px_clients w0 ! i))
    \<and> (\<forall>i<length (px_servers w0).
            tally (\<lambda>c. chan_sv (px_routes w) c = Some i) (px_channels w) \<le> sv_max_slots (px_servers w0 ! i))"
proof -
  have "tables_ok w0" using started_proxy [OF assms(1)] assms(2) by auto
  note start = started_limits [OF this assms(3)]
  have "limits_ok (client_limits w0) (server_limits w0) w"
    using lim_run.reach_holds [OF assms(4)] start assms(1,2,5) by simp
  moreover have "world_ok w" using prog_reach_ok [OF assms(4)] assms(5) by (simp add: prog_ok_def)
  ultimately show ?thesis
    using limits_channels [of w "client_limits w0" "server_limits w0"] by (simp add: client_limits_def server_limits_def)
qed

theorem limits_kept_witness:
  "\<exists>p w. nrdpx_main sample_start = (P_main M_head, p) \<and> pg_proxy p = Some w
     \<and> (\<forall>i<length (px_servers w). tally (\<lambda>c. chan_sv (px_routes w) c = Some i) (px_channels w) \<le> sv_max_slots (px_servers w ! i))"
proof -
  obtain p w where p: "nrdpx_main sample_start = (P_main M_head, p)" "pg_proxy p = Some w" "ca_mode (px_cache w) = CACHE_NONE"
    using sample_started by blast
  have "prog_reach sample_start (P_main M_head, p)" using pr_start [of sample_start] p(1) by simp
  from limits_kept [OF p this p(2)] p(1,2) show ?thesis by blast
qed





section \<open>Channels\<close>

text \<open>C5.  The relay over a whole iteration of the main loop, which accepts connections, erases channels
  while it goes over them and retries failed connections: a channel that is still there afterwards
  keeps its sockets, and was served exactly once.  What waits for the target is what waited before
  followed by what one \<open>recv\<close> on the source delivered, less what one \<open>send\<close> on the target
  took, and the same the other way; nothing of another channel ever gets into it.\<close>

theorem iteration_relays:
  assumes "world_ok w" "main_iteration fuel le w = Some (Iterated True w')"
    "c \<in> set (px_channels w)" "c' \<in> set (px_channels w')" "ch_addr c' = ch_addr c"
  shows "\<exists>R W m. fill_fds True True w = Some (R, W, m) \<and> (let le = le_selected le R W in
      ch_source c' = ch_source c \<and> ch_target c' = ch_target c \<and>
      (if le_sel_rc le = 0 then c' = c else \<exists>k.
         buf_bytes (ch_in_source c') = drop (sent_to le k (ch_target c)) (buf_bytes (ch_in_source c) @ got_source le k c)
       \<and> buf_bytes (ch_in_target c') = drop (sent_to le k (ch_source c)) (buf_bytes (ch_in_target c) @ got_target le k w c)))"
proof -
  obtain R W m where "fill_fds True True w = Some (R, W, m)" "relayed (le_selected le R W) w c c'"
    using iteration_relayed [OF assms] by blast
  then show ?thesis unfolding relayed_def same_chan_def Let_def by blast
qed

theorem iteration_relays_witness:
  "\<exists>w' c'. main_iteration 2 sample_loop sample_busy = Some (Iterated True w') \<and> px_channels w' = [c']
     \<and> ch_source c' = 7 \<and> buf_bytes (ch_in_source c') = [1, 2, 3]"
proof -
  obtain w' c' where w': "main_iteration 2 sample_loop sample_busy = Some (Iterated True w')" "px_channels w' = [c']" "ch_addr c' = 0"
    using sample_iterated by blast
  have s: "sample_channel \<in> set (px_channels sample_busy)" "ch_addr c' = ch_addr sample_channel" "c' \<in> set (px_channels w')"
    using w' by (simp_all add: sample_busy_def sample_channel_def)
  from iteration_relays [OF sample_busy_ok w'(1) s(1,3,2)] w'(1,2) show ?thesis
    by (auto simp: sample_fill Let_def le_selected_def sample_loop_def sample_channel_def sent_to_def got_source_def
        new_buffer_def buf_bytes_def buf_room_def NRDPX_BUFFER_SIZE_MIN_def NRDPX_STANDARD_BSS_def
        NRDPX_STANDARD_MSS_def NRDPX_STANDARD_MTU_def)
qed

text \<open>C6.  The connection as a whole.  However long the program runs, and however the main thread, the
  callback, the browser and the signals take turns meanwhile: as long as a channel lives, it keeps
  its sockets, and all that its passes received from the source is, byte for byte and in order,
  what they sent to the target followed by what waits in the buffer now (and preceded by what
  waited at first); the same from the target to the source.\<close>

theorem conversation_exact:
  assumes "prog_ok (pc, p)" "conversation a (pc, p) rs ss rt st (pc', p')"
    "pg_proxy p = Some w" "pg_proxy p' = Some w'"
    "c \<in> set (px_channels w)" "ch_addr c = a" "c' \<in> set (px_channels w')" "ch_addr c' = a"
  shows "ch_source c' = ch_source c \<and> ch_target c' = ch_target c
    \<and> buf_bytes (ch_in_source c) @ rs = ss @ buf_bytes (ch_in_source c')
    \<and> buf_bytes (ch_in_target c) @ rt = st @ buf_bytes (ch_in_target c')"
  using conversation_relayed [OF assms(2,1), of w c w'] assms(3-8) by (simp add: relayed_bytes_def same_chan_def)

theorem conversation_exact_witness:
  "\<exists>w' c'. conversation 0 (P_main (M_chan sample_loop 1 0), sample_program) [1, 2, 3] [1, 2] [] []
       (P_main (M_chan sample_loop 2 1), sample_program\<lparr>pg_proxy := Some w'\<rparr>)
     \<and> px_channels w' = [c'] \<and> ch_source c' = 7 \<and> buf_bytes (ch_in_source c') = [3]"
proof -
  obtain w' c' where p: "chan_pass sample_loop 1 0 sample_busy = Some (1, w')" "px_channels w' = [c']" "ch_addr c' = 0"
    using sample_pass by blast
  have px: "pg_proxy sample_program = Some sample_busy" by (simp add: sample_program_def)
  have len: "0 < length (px_channels sample_busy)" by (simp add: sample_busy_def)
  have t: "prog_trans (P_main (M_chan sample_loop 1 0), sample_program)
      (P_main (M_chan sample_loop 2 1), sample_program\<lparr>pg_proxy := Some w'\<rparr>)"
    by (rule pt_main [OF px]) (use mt_chan [OF len p(1)] in \<open>simp add: numeral_2_eq_2\<close>)
  have x: "exchange 0 (P_main (M_chan sample_loop 1 0)) (pg_proxy sample_program) (P_main (M_chan sample_loop 2 1))
      = ([1, 2, 3], [1, 2], [], [])"
    by (simp add: exchange_def px Let_def got_source_def got_target_def sent_to_def sample_loop_def sample_busy_def
        sample_channel_def new_buffer_def buf_bytes_def buf_room_def NRDPX_BUFFER_SIZE_MIN_def
        NRDPX_STANDARD_BSS_def NRDPX_STANDARD_MSS_def NRDPX_STANDARD_MTU_def)
  from cv_step [OF cv_start t x] have cv: "conversation 0 (P_main (M_chan sample_loop 1 0), sample_program) [1, 2, 3] [1, 2] [] []
      (P_main (M_chan sample_loop 2 1), sample_program\<lparr>pg_proxy := Some w'\<rparr>)" by simp
  have c: "sample_channel \<in> set (px_channels sample_busy)" "ch_addr sample_channel = 0" "c' \<in> set (px_channels w')"
    using p(2) by (simp_all add: sample_busy_def sample_channel_def)
  have "pg_proxy (sample_program\<lparr>pg_proxy := Some w'\<rparr>) = Some w'" by simp
  from conversation_exact [OF sample_program_ok cv px this c p(3)] cv p(2) show ?thesis
    by (auto simp: sample_channel_def new_buffer_def buf_bytes_def)
qed



text \<open>C8.  \<open>nrdpx_channel_create\<close> never reads freed memory and keeps the accounts of the proxy:
  after it, the slots of every route, client and server are again the numbers of channels that
  use them.  Without a channel it has closed the source socket; with one, the channel is the last
  of the list and the only new descriptor is its target.\<close>

theorem channel_create_safe:
  assumes "world_ok w" "fresh_sockets env w" "src \<in> px_fds w" "src \<noteq> NRD_NOSOCK"
  shows "\<exists>res w'. nrdpx_channel_create env src now nosvr w = Some (res, w') \<and> world_ok w'
    \<and> (case res of
         None \<Rightarrow> px_channels w' = px_channels w \<and> px_fds w' = px_fds w - {src}
       | Some a \<Rightarrow> \<exists>c. px_channels w' = px_channels w @ [c] \<and> ch_addr c = a \<and> ch_source c = src
           \<and> ch_target c \<notin> px_fds w \<and> ch_target c \<noteq> NRD_NOSOCK \<and> px_fds w' = insert (ch_target c) (px_fds w))"
proof -
  obtain res w' where "nrdpx_channel_create env src now nosvr w = Some (res, w')" "world_ok w'"
    "case res of None \<Rightarrow> px_channels w' = px_channels w
       | Some a \<Rightarrow> \<exists>c. ch_addr c = a \<and> ch_source c = src \<and> px_channels w' = px_channels w @ [c]"
    "case res of None \<Rightarrow> px_fds w' = px_fds w - {src}
          | Some a \<Rightarrow> (let t = ch_target (last (px_channels w')) in
              t \<notin> px_fds w \<and> t \<noteq> NRD_NOSOCK \<and> px_fds w' = insert t (px_fds w))"
    using channel_create_ok [OF assms(1), of env src now nosvr] assms(2-4) by blast
  then show ?thesis by (cases res) (auto simp: Let_def)
qed

theorem channel_create_safe_witness:
  "\<exists>res w'. nrdpx_channel_create sample_env 7 100 None sample_idle = Some (res, w') \<and> world_ok w'"
proof -
  have "fresh_sockets sample_env sample_idle" "7 \<in> px_fds sample_idle" "7 \<noteq> NRD_NOSOCK"
    by (simp_all add: fresh_sockets_def sample_env_def sample_os_def sample_idle_def NRD_NOSOCK_def)
  from channel_create_safe [OF sample_idle_ok this, of 100 None] show ?thesis by blast
qed

text \<open>C9.  Deleting a channel removes it and no other, closes its two sockets and no other
  descriptor, and gives back the slots of its route, client and server.\<close>

theorem channel_delete_safe:
  assumes "world_ok w" "i < length (px_channels w)"
  shows "\<exists>w'. nrdpx_channel_delete t (Some (ch_addr (px_channels w ! i))) w = Some w' \<and> world_ok w'
    \<and> px_channels w' = take i (px_channels w) @ drop (Suc i) (px_channels w)
    \<and> px_fds w' = px_fds w - ({ch_source (px_channels w ! i), ch_target (px_channels w ! i)} - {NRD_NOSOCK})"
  using del_channel_nth [OF assms, of t]
  by (auto simp: nrdpx_channel_delete_def nrdpx_socket_close_def)

theorem channel_delete_safe_witness:
  "\<exists>w'. nrdpx_channel_delete 200 (Some 0) sample_busy = Some w' \<and> px_channels w' = [] \<and> px_fds w' = {3}"
proof -
  have c: "px_channels sample_busy = [sample_channel]" "px_fds sample_busy = {3, 7, 9}"
    "ch_addr sample_channel = 0" "ch_source sample_channel = 7" "ch_target sample_channel = 9"
    by (simp_all add: sample_busy_def sample_channel_def)
  show ?thesis
    using channel_delete_safe [OF sample_busy_ok, of 0 200] c by (auto simp: NRD_NOSOCK_def)
qed

section \<open>The main loop\<close>

text \<open>C10.  The loop over the channels ends, however many connections fail in it and are tried again with
  another server: from some number of passes on its result is the same.  The peers of the source
  sockets stay the same during the loop, and every channel whose route is cached has it under the
  host of its peer, which is again so at the end.\<close>

theorem channel_loop_ends:
  assumes "world_ok w" "keyed peer R w (px_channels w)"
    "\<forall>k. en_peer (le_env le k) = peer \<and> en_res (le_env le k) = R"
  shows "\<exists>n w'. (\<forall>fuel\<ge>n. chan_loop fuel le k 0 w = Some (True, w')) \<and> world_ok w' \<and> keyed peer R w' (px_channels w')"
proof -
  have "\<And>k. en_peer (le_env le k) = peer" "\<And>k. en_res (le_env le k) = R" using assms(3) by auto
  from chan_loop_ends [OF this assms(1,2), of k 0] chan_loop_more show ?thesis by blast
qed

theorem channel_loop_ends_witness:
  "\<exists>n w'. chan_loop n (sample_loop\<lparr>le_now := 1000\<rparr>) 0 0
     (set_chan 0 (sample_channel\<lparr>ch_connected := False\<rparr>) sample_busy) = Some (True, w')"
proof -
  let ?w = "set_chan 0 (sample_channel\<lparr>ch_connected := False\<rparr>) sample_busy"
  have "world_ok ?w"
    by (rule set_chan_ok [OF sample_busy_ok]) (simp_all add: sample_busy_def sample_channel_def chan_bufs_ok_def)
  moreover have "keyed (\<lambda>s. Some sample_addr) sample_res ?w (px_channels ?w)"
    using sample_busy_keyed by (simp add: keyed_def sample_busy_def set_chan_def sample_channel_def)
  ultimately show ?thesis
    using channel_loop_ends [where le = "sample_loop\<lparr>le_now := 1000\<rparr>" and k = 0]
    by (fastforce simp: sample_loop_def sample_env_def)
qed

text \<open>C11.  \<open>fill_fds\<close> asks \<open>select\<close> for every listener, for the read end of every buffer
  with room and for the write end of every buffer with bytes, and returns the largest descriptor
  it put into a set.\<close>

theorem fill_fds_complete:
  assumes "\<forall>l\<in>set (px_listeners w). fd_valid (ls_sock l)"
    "\<forall>c\<in>set (px_channels w). fd_valid (ch_source c) \<and> fd_valid (ch_target c)"
  shows "\<exists>m. fill_fds True True w = Some (ls_sock ` set (px_listeners w) \<union> \<Union>(reads_of ` set (px_channels w)),
      \<Union>(writes_of ` set (px_channels w)), m)
    \<and> fd_max (ls_sock ` set (px_listeners w) \<union> \<Union>(reads_of ` set (px_channels w)) \<union> \<Union>(writes_of ` set (px_channels w))) m"
  by (rule fill_fds_spec [OF assms])

theorem fill_fds_complete_witness: "\<exists>R W. fill_fds True True sample_busy = Some (R, W, 9) \<and> R = {3, 7, 9}"
proof -
  have "\<forall>l\<in>set (px_listeners sample_busy). fd_valid (ls_sock l)"
    "\<forall>c\<in>set (px_channels sample_busy). fd_valid (ch_source c) \<and> fd_valid (ch_target c)"
    by (simp_all add: sample_busy_def sample_idle_def sample_channel_def fd_valid_def FD_SETSIZE_def)
  from fill_fds_complete [OF this] show ?thesis
    by (auto simp: sample_busy_def sample_idle_def sample_channel_def reads_of_def writes_of_def new_buffer_def
        fd_max_def NRD_NOSOCK_def NRDPX_BUFFER_SIZE_MIN_def NRDPX_STANDARD_BSS_def NRDPX_STANDARD_MSS_def
        NRDPX_STANDARD_MTU_def)
qed

text \<open>C12.  Nothing limits the descriptors to what an \<open>fd_set\<close> holds: with a channel whose source
  socket is 1024 or more and whose buffer has room, an iteration writes outside the set.\<close>

theorem main_iteration_fd_overflow:
  assumes "c \<in> set (px_channels w)" "bf_pos (ch_in_source c) < bf_size (ch_in_source c)" "1024 \<le> ch_source c"
  shows "main_iteration fuel le w = None"
proof -
  have "fill_channels True True (px_channels w) s = None" for s
    using fill_channels_overflow [OF assms(1,2)] assms(3) by (simp add: fd_valid_def FD_SETSIZE_def)
  then have "fill_fds True True w = None"
    by (auto simp: fill_fds_def split: Option.bind_splits)
  then show ?thesis by (simp add: main_iteration_def)
qed

theorem main_iteration_fd_overflow_witness:
  "main_iteration 5 sample_loop (sample_busy\<lparr>px_channels := [sample_channel\<lparr>ch_source := 1024\<rparr>]\<rparr>) = None"
  by (rule main_iteration_fd_overflow [of "sample_channel\<lparr>ch_source := 1024\<rparr>"])
     (simp_all add: sample_channel_def new_buffer_def NRDPX_BUFFER_SIZE_MIN_def NRDPX_STANDARD_BSS_def
        NRDPX_STANDARD_MSS_def NRDPX_STANDARD_MTU_def)

text \<open>C13.  A signal that asks the program to end, when it comes between the test of \<open>__terminated\<close> and
  \<open>fill_fds\<close>, sets the descriptors of the listeners to \<open>-1\<close>, and \<open>fill_fds\<close> gives them to
  \<open>FD_SET\<close> all the same: a write outside the set, in which the main thread is stuck.\<close>

theorem signal_before_fill:
  assumes "pg_proxy p = Some w" "px_listeners w \<noteq> []" "\<not> g_terminated (pg_glob p)" "sg \<noteq> SIGALRM"
  shows "\<exists>g w' ck. nrdpx_signal_handler os R sg (pg_glob p) (pg_files p) (pg_proxy p) (pg_check p) = Handled g (Some w') ck
    \<and> prog_trans (P_main M_fill, p) (P_main M_fill, p\<lparr>pg_glob := g, pg_proxy := Some w', pg_check := ck\<rparr>)
    \<and> fill_fds True True w' = None \<and> (\<forall>s. \<not> main_trans (g_terminated g) (M_fill, w') s)"
proof -
  obtain g px ck where h: "nrdpx_signal_handler os R sg (pg_glob p) (pg_files p) (pg_proxy p) (pg_check p) = Handled g px ck"
    using term_then_alarm [OF assms(4)] by blast
  moreover obtain l ls where "px_listeners w = l # ls" using assms(2) by (cases "px_listeners w") auto
  ultimately obtain w' where w': "px = Some w'" "fill_fds True True w' = None"
    using assms(1,3,4)
    by (cases sg) (auto simp: nrdpx_signal_handler_def nrdpx_term_proc_def fill_fds_def watch_def FD_SET_def
        NRD_NOSOCK_def Let_def split: prod.splits)
  have "\<not> main_trans (g_terminated g) (M_fill, w') s" for s
    using w'(2) by (auto elim: main_trans.cases)
  with h w' pt_signal [OF _ h, of "P_main M_fill"] show ?thesis by auto
qed

theorem signal_before_fill_witness:
  "\<exists>g w' ck. nrdpx_signal_handler sample_os sample_res SIGTERM (pg_glob sample_program) (pg_files sample_program)
       (pg_proxy sample_program) (pg_check sample_program) = Handled g (Some w') ck
     \<and> fill_fds True True w' = None"
proof -
  have "pg_proxy sample_program = Some sample_busy" "px_listeners sample_busy \<noteq> []" "\<not> g_terminated (pg_glob sample_program)"
    by (simp_all add: sample_program_def program_init_def process_init_def sample_busy_def sample_idle_def)
  from signal_before_fill [OF this, of SIGTERM sample_os sample_res] show ?thesis by blast
qed

section \<open>Routing\<close>

text \<open>C14.  Where a new connection goes.  A channel is made exactly when the route it takes is complete and
  its server answers (has a port and an address, and the connection does not fail at once), and then
  the client and the server of the route, and no others, have one slot more.  The route is the cached
  one of the address, if there is one and it does not lead to the server to avoid; otherwise it leads
  through the first balancer, in the order of the configuration, that has a client for the address
  with a free slot and an eligible server, to its first such client and its best server, or nowhere
  if no balancer admits the address.\<close>

theorem connection_routed:
  assumes "world_ok w" "en_peer env src = Some a" "addr_to_host (en_res env) a True = host" "host \<noteq> []"
    "cache_find (en_time env) host (px_cache w) (px_routes w) = Some (found, ca, h)"
  shows "\<exists>r res w'. nrdpx_channel_create env src now nosvr w = Some (res, w') \<and> world_ok w'
    \<and> route_taken env a nosvr w found h r \<and> connected_to env r w res w'"
  by (rule channel_create_taken [OF assms])

theorem connection_routed_witness:
  "\<exists>r res w'. nrdpx_channel_create sample_env 7 100 None sample_idle = Some (res, w')
     \<and> first_admitting (\<lambda>x. x) sample_addr None (px_clients sample_idle) (px_servers sample_idle)
          (enumerate 0 (px_balancers sample_idle)) r
     \<and> connected_to sample_env r sample_idle res w'"
proof -
  have "en_peer sample_env 7 = Some sample_addr" "addr_to_host (en_res sample_env) sample_addr True = ''10.0.0.7''"
    "cache_find (en_time sample_env) ''10.0.0.7'' (px_cache sample_idle) (px_routes sample_idle)
       = Some (None, (new_cache 0)\<lparr>ca_chktime := 3700\<rparr>, Map.empty)"
    by (simp_all add: sample_env_def sample_res_def sample_addr_def sample_idle_def new_proxy_def new_cache_def cache_find_def
        ssafe_def)
  from connection_routed [OF sample_idle_ok this(1,2) _ this(3), of 100 None] show ?thesis
    by (auto simp: route_taken_def sample_env_def)
qed

text \<open>C15.  \<open>nrdpx_select_server\<close> returns a server with a weight, a free slot and a free user place, and
  of those one that is not redundant if there is one, with the highest score of its kind; and
  nothing only if every server is out of one of the three.\<close>

theorem select_server_choice:
  "case nrdpx_select_server fl sv (Some bal) (Some cln) svrs of
     None \<Rightarrow> \<forall>p\<in>set svrs. select_skip (sv p)
   | Some p \<Rightarrow> p \<in> set svrs \<and> \<not> select_skip (sv p)
       \<and> (\<forall>q\<in>set svrs. select_skip (sv q) \<or>
            (\<not> sv_redundant (sv p) \<or> sv_redundant (sv q))
          \<and> (sv_redundant (sv q) = sv_redundant (sv p) \<longrightarrow> select_score fl bal (sv q) \<le> select_score fl bal (sv p)))"
proof (cases "nrdpx_select_server fl sv (Some bal) (Some cln) svrs")
  case None
  with select_server_None [of fl sv bal cln svrs] show ?thesis by simp
next
  case (Some p)
  with select_server_member [OF Some] select_server_best [OF Some] show ?thesis by auto
qed

theorem select_server_choice_witness:
  "\<exists>p. nrdpx_select_server (\<lambda>x. x) (\<lambda>p. sample_server ''one'' (p = 1)) (Some sample_balancer) (Some 0) [1, 0] = Some p
     \<and> \<not> sv_redundant (sample_server ''one'' (p = 1))"
proof -
  have "\<not> select_skip (sample_server n r)" "sv_redundant (sample_server n r) = r" for n r
    by (simp_all add: select_skip_def sample_server_def nrdpx_server_activate_def new_server_def
        nrdpx_server_max_weight_def nrdpx_server_slot_count_def nrdpx_server_slot_limit_def
        nrdpx_server_user_count_def nrdpx_server_user_limit_def nbinf_zero_def nbinf_of_bytes_def rd16_def)
  with select_server_choice [where fl = "\<lambda>x. x" and sv = "\<lambda>p. sample_server ''one'' (p = 1)"
      and bal = sample_balancer and cln = 0 and svrs = "[1, 0]"]
  show ?thesis by (auto split: option.splits)
qed

text \<open>C16.  The limits of the configuration do not hold for cached routes: a connection from an address
  whose route is in the cache gets a channel as soon as the server answers, and its client and
  server then have one channel more than before, however many they had.\<close>

theorem cached_route_ignores_limit:
  assumes "world_ok w" "en_peer env src = Some a" "addr_to_host (en_res env) a True = host" "host \<noteq> []"
    "cache_find (en_time env) host (px_cache w) (px_routes w) = Some (Some p, ca, h)" "h p = Some r"
    "rt_client r = Some ci" "rt_server r = Some si" "Some si \<noteq> nosvr" "server_answers env (px_fds w) (px_servers w ! si)"
  shows "\<exists>x w'. nrdpx_channel_create env src now nosvr w = Some (Some x, w')
    \<and> tally (\<lambda>c. chan_cl (px_routes w') c = Some ci) (px_channels w') = cl_num_slots (px_clients w ! ci) + 1
    \<and> tally (\<lambda>c. chan_sv (px_routes w') c = Some si) (px_channels w') = sv_num_slots (px_servers w ! si) + 1"
  by (rule cached_route_ignores_limits [OF assms])

theorem cached_route_ignores_limit_witness:
  "\<exists>x w'. nrdpx_channel_create sample_env 8 100 None sample_full = Some (Some x, w')
     \<and> cl_max_slots (px_clients sample_full ! 0) = 1
     \<and> tally (\<lambda>c. chan_cl (px_routes w') c = Some 0) (px_channels w') = 2"
proof -
  have e: "en_peer sample_env 8 = Some sample_addr" "addr_to_host (en_res sample_env) sample_addr True = ''10.0.0.7''"
    "cache_find (en_time sample_env) ''10.0.0.7'' (px_cache sample_full) (px_routes sample_full)
       = Some (Some 0, px_cache sample_full, px_routes sample_full)"
    "px_routes sample_full 0 = Some sample_route" "rt_client sample_route = Some 0" "rt_server sample_route = Some 0"
    by (simp_all add: sample_env_def sample_res_def sample_addr_def sample_full_def sample_busy_def new_cache_def cache_find_def
        sample_route_def route_expired_def ssafe_def)
  have "server_answers sample_env (px_fds sample_full) (px_servers sample_full ! 0)" by (rule sample_answers)
  from cached_route_ignores_limit [OF sample_full_ok e(1,2) _ e(3-6) _ this, of None 100] show ?thesis
    by (auto simp: sample_full_def)
qed

text \<open>C17.  When a connection to a server has failed, the code means to drop its cached route and tries
  another server; but the failed channel still uses the route, so it stays in the cache.  Until it
  expires, the next connection from the address is led to the server that failed.\<close>

theorem failed_server_cached:
  assumes "world_ok w" "i < length (px_channels w)" "connect_failed le k i w = Some w'"
    "px_routes w (ch_route (px_channels w ! i)) = Some r" "rt_cached r" "ca_mode (px_cache w) \<noteq> CACHE_NONE"
    "cache_tab (px_cache w) host = Some (ch_route (px_channels w ! i))"
    "en_peer env src = Some a" "addr_to_host (en_res env) a True = host" "host \<noteq> []"
    "en_time env \<le> en_time (le_env le k) + ca_timeout (px_cache w)"
  shows "\<exists>r' res w''. nrdpx_channel_create env src now None w' = Some (res, w'')
    \<and> rt_server r' = rt_server r \<and> connected_to env r' w' res w''"
  by (rule failed_server_again [OF assms])

theorem failed_server_cached_witness:
  "\<exists>w' r res w''. connect_failed sample_loop 0 0 sample_busy = Some w'
     \<and> nrdpx_channel_create sample_env 8 160 None w' = Some (res, w'') \<and> rt_server r = Some 0 \<and> connected_to sample_env r w' res w''"
proof -
  have len: "0 < length (px_channels sample_busy)" by (simp add: sample_busy_def)
  obtain w' where w': "connect_failed sample_loop 0 0 sample_busy = Some w'"
    using connect_failed_ok [OF sample_busy_ok len] by blast
  have "px_routes sample_busy (ch_route (px_channels sample_busy ! 0)) = Some sample_route" "rt_cached sample_route"
    "ca_mode (px_cache sample_busy) \<noteq> CACHE_NONE"
    "cache_tab (px_cache sample_busy) ''10.0.0.7'' = Some (ch_route (px_channels sample_busy ! 0))"
    "en_peer sample_env 8 = Some sample_addr" "addr_to_host (en_res sample_env) sample_addr True = ''10.0.0.7''" "''10.0.0.7'' \<noteq> []"
    "en_time sample_env \<le> en_time (le_env sample_loop 0) + ca_timeout (px_cache sample_busy)" "rt_server sample_route = Some 0"
    by (simp_all add: sample_busy_def sample_channel_def sample_route_def new_cache_def cache_tab_def sample_env_def sample_addr_def
        sample_res_def sample_loop_def ssafe_def)
  from failed_server_cached [OF sample_busy_ok len w' this(1-8), of 160] this(9) w' show ?thesis by auto
qed

text \<open>C18.  A route that was put into the cache is found for its address as long as a channel uses
  it, and it has not been freed or changed.\<close>

theorem cached_route_found:
  assumes "cache_ok ca h" "h p = Some r" "\<not> rt_cached r" "rt_num_slots r \<noteq> 0"
    "cache_add now key p ca h = Some (True, ca', h')"
  shows "\<exists>ca'' h''. cache_find later key ca' h' = Some (Some p, ca'', h'') \<and> h'' p = h' p"
  by (rule rc.find_after_add [OF assms])

theorem cached_route_found_witness:
  "\<exists>ca' h'. cache_find 5000 ''10.0.0.7'' ((new_cache 0)\<lparr>ca_routes := [(''10.0.0.7'', 0)]\<rparr>)
     (Map.empty(0 \<mapsto> sample_route\<lparr>rt_act_time := 50\<rparr>)) = Some (Some 0, ca', h')"
proof -
  have "cache_ok (new_cache 0) (Map.empty(0 \<mapsto> sample_route\<lparr>rt_cached := False\<rparr>))"
    by (simp add: cache_ok_def new_cache_def)
  moreover have "cache_add 50 ''10.0.0.7'' 0 (new_cache 0) (Map.empty(0 \<mapsto> sample_route\<lparr>rt_cached := False\<rparr>))
    = Some (True, (new_cache 0)\<lparr>ca_routes := [(''10.0.0.7'', 0)]\<rparr>, Map.empty(0 \<mapsto> sample_route\<lparr>rt_act_time := 50\<rparr>))"
    by (simp add: cache_add_def new_cache_def sample_route_def)
  ultimately show ?thesis
    using cached_route_found [of "new_cache 0" "Map.empty(0 \<mapsto> sample_route\<lparr>rt_cached := False\<rparr>)" 0
        "sample_route\<lparr>rt_cached := False\<rparr>" 50 "''10.0.0.7''" _ _ 5000]
    by (auto simp: sample_route_def)
qed

section \<open>Addresses\<close>

text \<open>C19.  \<open>parse_cidr_notation\<close> yields only blocks of a known family with a prefix within the length
  of the address, whatever number the text has after its last slash; and the shifts of
  \<open>is_addr_in_cidr\<close> decide membership in such a block: same family and the same first bits, as
  many as the prefix says, for IPv4 and for the four groups of an IPv6 address, from prefix 0 to
  the whole address.\<close>

theorem cidr_membership:
  assumes "resolver_wf R" "parse_cidr_notation R src = Some c" "addr_wf a"
  shows "cidr_wf c \<and> (is_addr_in_cidr a c \<longleftrightarrow>
    sa_family a = sa_family (cd_addr c) \<and> take (nat (cd_pref c)) (addr_bits a) = take (nat (cd_pref c)) (addr_bits (cd_addr c)))"
  using is_addr_in_cidr_iff [OF parse_cidr_wf [OF assms(1,2)] assms(3)] parse_cidr_wf [OF assms(1,2)] by (simp add: in_block_def)

theorem cidr_membership_witness:
  "\<exists>c. parse_cidr_notation sample_res ''10.0.0.0/99'' = Some c \<and> cd_pref c = 32 \<and> cidr_wf c
     \<and> is_addr_in_cidr (Addr_in 0x0A000000 80) c"
proof -
  have r: "resolver_wf sample_res" by (simp add: resolver_wf_def sample_res_def)
  have p: "parse_cidr_notation sample_res ''10.0.0.0/99'' = Some \<lparr>cd_addr = Addr_in 0x0A000000 0, cd_pref = 32\<rparr>"
    by code_simp
  from cidr_membership [OF r p, of "Addr_in 0x0A000000 80"] p show ?thesis by simp
qed

text \<open>C20.  \<open>parse_host_port\<close> takes apart what an address with a port is written as: a name or an
  IPv4 address before a colon, or an IPv6 address in brackets.  An IPv6 address in brackets without
  a port, however, is cut at its last colon, and the tail of the address is read as the port.\<close>

theorem host_port_parsed:
  assumes "0 \<le> port" "port \<le> int_max"
  shows "parse_host_port (CHR ''['' # h @ '']:'' @ itos port) p0 = (CHR ''['' # h @ '']'', port)
    \<and> (CHR '':'' \<in> set h \<or> CHR '']'' \<in> set h \<or> parse_host_port (h @ CHR '':'' # itos port) p0 = (strim h, port))
    \<and> (CHR '':'' \<notin> set b \<and> CHR '']'' \<notin> set a \<longrightarrow>
        parse_host_port (CHR ''['' # a @ CHR '':'' # b @ '']'') p0 = (strim (CHR ''['' # a), stoi (b @ '']'')))"
  using parse_host_port_bracketed [OF assms, of h p0] parse_host_port_plain [OF _ _ assms, of h p0]
    parse_host_port_bracketed_no_port [of b a p0] by blast

theorem host_port_parsed_witness:
  "parse_host_port (''10.0.0.1'' @ CHR '':'' # itos 3389) 0 = (strim ''10.0.0.1'', 3389)
   \<and> parse_host_port ''[fec0::1]'' 3389 = (''[fec0:'', 1)"
proof -
  have "strim ''[fec0:'' = ''[fec0:''" "stoi ''1]'' = 1" by code_simp+
  then show ?thesis
    using host_port_parsed [of 3389 "''10.0.0.1''" 0] host_port_parsed [of 3389 _ 3389 "''1''" "''fec0:''"]
    by (simp add: int_max_def)
qed

section \<open>Configuration\<close>

text \<open>C21.  Loading a configuration that was written out section by section gives back the
  sections of the wanted class, in order, each with its items.\<close>

theorem config_round_trip:
  assumes "\<forall>d\<in>set ds. wf_doc_section d" "sorted_wrt (\<lambda>a b. \<not> stricmp_eq (fst a) (fst b)) ds"
  shows "cf_sects (load_text new_config cls (render ds)) = map section_of (filter (\<lambda>d. class_match cls (fst d)) ds)"
proof -
  have "sorted_wrt (\<lambda>a b. \<not> stricmp_eq (sc_name a) (sc_name b))
      (map section_of (filter (\<lambda>d. class_match cls (fst d)) ds))"
    using assms(2) by (simp add: sorted_wrt_map section_of_def sorted_wrt_filter)
  then show ?thesis
    unfolding load_text_render [OF assms(1)]
    by (subst fold_add_sect_distinct) (simp_all add: new_config_def)
qed

theorem config_round_trip_witness:
  "map sc_name (cf_sects (load_text new_config ''server'' (render [(''proxy'', [(''max_faults'', ''3'')]), (''server.a'', [(''address'', ''10.0.0.1'')])])))
     = [''server.a'']"
  by (subst config_round_trip)
     (simp_all add: wf_doc_section_def wf_key_def wf_val_def cr_def lf_def stricmp_eq_def c_str_def tolower_def
        class_match_def strnicmp_eq_def section_of_def)


text \<open>C23.  Text with Windows line ends loads to the same configuration as with Unix line ends.\<close>

theorem config_line_ends:
  assumes "CHR 0x00 \<notin> set s"
  shows "load_text cfg cls (crlf_to_win s) = load_text cfg cls (crlf_to_unix s)"
  by (rule load_text_win_unix [OF assms])

theorem config_line_ends_witness:
  "load_text (new_config :: nat nrdpx_config_t) [] (crlf_to_win (''[a]'' @ lf # ''x=1'' @ [lf]))
     = load_text new_config [] (crlf_to_unix (''[a]'' @ lf # ''x=1'' @ [lf]))"
  by (rule config_line_ends) (simp add: lf_def)

text \<open>C24.  A last line without a line end is lost, unless it starts a section.\<close>

theorem config_last_line_lost:
  assumes "in_line (c # xs)" "c \<noteq> CHR ''[''" "CHR 0x00 \<notin> set (s @ c # xs)"
  shows "load_text cfg cls (s @ lf # c # xs) = load_text cfg cls (s @ [lf])"
  by (rule load_text_last_line_lost [OF assms])

theorem config_last_line_lost_witness:
  "load_text new_config [] (''[a]'' @ lf # ''x=1'') = load_text (new_config :: nat nrdpx_config_t) [] (''[a]'' @ [lf])"
  by (rule config_last_line_lost [of "CHR ''x''" "''=1''"]) (simp_all add: cr_def lf_def)

text \<open>C25.  A list value is read as its words, whichever of blank, tab and comma separates them, and
  a second read gives the same words.\<close>

theorem list_value_words:
  assumes "is_list_sep sep" "\<forall>w\<in>set ws. w \<noteq> [] \<and> CHR 0x00 \<notin> set w \<and> (\<forall>c\<in>set w. \<not> is_list_sep c \<and> c \<noteq> CHR 0x22)"
    "ws \<noteq> []" "sc_items sc key = Some \<lparr>it_val = join_words sep ws, it_vls = []\<rparr>"
  shows "fst (get_strings sc key) = ws \<and> fst (get_strings (snd (get_strings sc key)) key) = ws"
  using get_strings_words [OF assms] by (simp add: get_strings_idem)

theorem list_value_words_witness:
  "fst (get_strings ((new_section ''client.lan'')\<lparr>sc_items := Map.empty(''sources'' \<mapsto>
      \<lparr>it_val = join_words CHR '','' [''10.0.0.0/8'', ''fec0::/64''], it_vls = []\<rparr>)\<rparr>) ''sources'')
     = [''10.0.0.0/8'', ''fec0::/64'']"
  by (rule list_value_words [THEN conjunct1, of "CHR '',''"]) (simp_all add: is_list_sep_def)



section \<open>The servers' states\<close>

text \<open>C27.  The callback of the information tracker shares the proxy with the main thread.  Each of its
  steps, on the proxy as the main thread left it, keeps the invariant and leaves the channels, the
  slots they hold and the routes as they are; a callback that nothing interrupts is a run of these
  steps.\<close>

theorem info_callback_refined:
  assumes "world_ok px" "nrdpx_info_callback os R terminated clk ev px ck = (px', ck', requests)"
  shows "(event_trans R terminated)\<^sup>*\<^sup>* (E_idle, px, ck) (E_idle, px', ck')
    \<and> (\<forall>e1 w1 ck1 e2 w2 ck2. world_ok w1 \<and> event_trans R terminated (e1, w1, ck1) (e2, w2, ck2) \<longrightarrow>
        world_ok w2 \<and> map sv_num_slots (px_servers w2) = map sv_num_slots (px_servers w1)
      \<and> px_channels w2 = px_channels w1 \<and> px_routes w2 = px_routes w1)"
proof -
  have "world_ok w2 \<and> map sv_num_slots (px_servers w2) = map sv_num_slots (px_servers w1)
      \<and> px_channels w2 = px_channels w1 \<and> px_routes w2 = px_routes w1"
    if "world_ok w1" "event_trans R terminated (e1, w1, ck1) (e2, w2, ck2)" for e1 w1 ck1 e2 w2 ck2
    using event_trans_ok [OF that(2,1)] event_trans_server [OF that(2)]
    by (auto simp: set_server_def tracked_def map_update_same)
  with info_callback_steps [OF assms(2)] show ?thesis by blast
qed

theorem info_callback_refined_witness:
  "\<exists>px' ck' rq. nrdpx_info_callback sample_os sample_res False (\<lambda>k. 500 + int k) EVT_ONTIMER sample_busy
       \<lparr>ck_socket = NRD_NOSOCK, ck_fds = {}\<rparr> = (px', ck', rq)
     \<and> (event_trans sample_res False)\<^sup>*\<^sup>* (E_idle, sample_busy, \<lparr>ck_socket = NRD_NOSOCK, ck_fds = {}\<rparr>) (E_idle, px', ck')"
proof -
  obtain px' ck' rq where r: "nrdpx_info_callback sample_os sample_res False (\<lambda>k. 500 + int k) EVT_ONTIMER sample_busy
      \<lparr>ck_socket = NRD_NOSOCK, ck_fds = {}\<rparr> = (px', ck', rq)" by (metis prod_cases3)
  then show ?thesis using info_callback_refined [OF sample_busy_ok r] by blast
qed

text \<open>C28.  A check of a server that is aborted by signals, any number of times and at any of its steps,
  holds no descriptor but the socket it opened, leaves none behind when it ends, and ends with a
  result that \<open>nrdpx_check_server\<close> gives for some answers of the system without an abort.\<close>

theorem check_interleaved:
  assumes "check_reach R (C_start h p, \<lparr>ck_socket = NRD_NOSOCK, ck_fds = fds\<rparr>) (pc, ck)"
  shows "check_owns fds ck
    \<and> (\<forall>ret. pc = C_done ret \<longrightarrow> ck = \<lparr>ck_socket = NRD_NOSOCK, ck_fds = fds\<rparr>
        \<and> (\<exists>os. fresh_sock os fds \<and> nrdpx_check_server os R h p \<lparr>ck_socket = NRD_NOSOCK, ck_fds = fds\<rparr> = (ret, ck)))"
  using check_reach_inv [OF assms] check_inv_owns by (auto simp: outcome_def)

theorem check_interleaved_witness:
  "\<exists>os. fresh_sock os {3} \<and> nrdpx_check_server os sample_res ''192.168.0.1'' 3389 \<lparr>ck_socket = NRD_NOSOCK, ck_fds = {3}\<rparr>
     = (False, \<lparr>ck_socket = NRD_NOSOCK, ck_fds = {3}\<rparr>)"
  using check_interleaved [OF sample_aborted] by blast

section \<open>The server browser\<close>

text \<open>C29.  However the tracker thread, the control thread and the callers of the client interleave,
  the list of servers has one entry for each identifier, every identifier is the host and port
  of its entry, and every entry is in one of the four states.\<close>

theorem browser_list_invariant:
  assumes "nb_reach os R s"
  shows "svrs_ok (m_svrs (snd (snd s)))"
  by (rule nb_reach_ok [OF assms])

theorem browser_list_invariant_witness:
  "svrs_ok (m_svrs (stop_request (set_refresh_time 60 new_client)))"
proof -
  have "nb_reach sample_os sample_res (NB_end, new_control, stop_request (set_refresh_time 60 new_client))"
    by (rule nbr_step [OF nbr_step [OF nbr_init tr_period] tr_stop])
  from browser_list_invariant [OF this] show ?thesis by simp
qed

text \<open>C30.  The loop of \<open>check_svrs\<close>, which erases while it goes over the vector, removes exactly
  the lost servers and marks the new ones as listed; it reports a change exactly when there was
  one of these, and starts a refresh when a server it keeps is overdue.\<close>

theorem check_svrs_effect:
  "check_svrs now st =
     (let kept = map list_item (filter (\<lambda>i. it_state i \<noteq> NRDNBS_LOST) (m_svrs st));
          st' = st\<lparr>m_svrs := kept\<rparr>
      in (if list_ex (overdue (m_tref st) now) (m_svrs st) then refresh_svrs True now st' else st',
          if list_ex (\<lambda>i. it_state i = NRDNBS_LOST \<or> it_state i = NRDNBS_HERE) (m_svrs st)
          then [EVT_SVRLIST kept] else []))"
  by (simp add: check_svrs_eq checked_def list_ex_iff Let_def)





text \<open>C33.  A message that was written out byte by byte and has the signature and a known kind is
  received as it was; and when it announces a server or answers a question, the server is in the
  list afterwards with the address and the information that were sent.\<close>

theorem message_round_trip:
  assumes "nbmsg_wf m" "nm_sig m = NRD_NBSIG" "1 \<le> nm_msg m" "nm_msg m \<le> 5" "sock \<noteq> NRD_NOSOCK"
  shows "recv_msg sock (nbmsg_to_bytes m) = Some m
    \<and> (\<forall>i pad. (nm_msg m = NRDNBM_IAMHERE \<or> nm_msg m = NRDNBM_RETINFO)
          \<and> nbinf_wf i \<and> nm_dat m = nbinf_to_bytes i @ pad \<longrightarrow>
        (\<exists>item\<in>set (fst (nb_message R now m addr svrs)). it_info item = i \<and> it_host item = addr_to_host R addr True
           \<and> it_time item = now \<and> (it_state item = NRDNBS_HERE \<or> it_state item = NRDNBS_LIST)))"
  using recv_msg_of_bytes [OF assms] announced_listed by blast

theorem message_round_trip_witness: "recv_msg 4 (nbmsg_to_bytes getinfo_msg) = Some getinfo_msg"
  using message_round_trip [of getinfo_msg 4]
  by (simp add: nbmsg_wf_def getinfo_msg_def NRD_NBSIG_def NRDNBM_GETINFO_def NRD_NOSOCK_def)

section \<open>Sockets, buffers and containers\<close>

text \<open>C34.  The buffer size computed for a socket is not negative and not above the current one; when
  it differs, it is a multiple of the segment size, within the limit or six segments, and no less
  than six segments if there were as many.\<close>

theorem buffer_size_bounds:
  assumes "0 \<le> bss" "0 \<le> limit"
  shows "0 \<le> nrdpx_socket_calc_buffer_size mss bss limit \<and> nrdpx_socket_calc_buffer_size mss bss limit \<le> bss
    \<and> (nrdpx_socket_calc_buffer_size mss bss limit = bss \<or>
         mss dvd nrdpx_socket_calc_buffer_size mss bss limit
       \<and> nrdpx_socket_calc_buffer_size mss bss limit \<le> max limit (mss * 6)
       \<and> min bss (mss * 6) \<le> nrdpx_socket_calc_buffer_size mss bss limit)"
  using calc_buffer_size_bounds [OF assms, of mss] by blast

theorem buffer_size_bounds_witness:
  "nrdpx_socket_calc_buffer_size 1460 65536 20000 = 18980 \<and> nrdpx_socket_calc_buffer_size 1460 65536 20000 \<le> 65536"
  using buffer_size_bounds [of 65536 20000 1460]
  by (simp add: nrdpx_socket_calc_buffer_size_def c_div_def NRDPX_STANDARD_MSS_def NRDPX_STANDARD_BSS_def
      NRDPX_STANDARD_MTU_def)

text \<open>C35.  Adjusting the buffers of a channel, which happens when its connection is made and data may
  wait already, keeps the waiting bytes and never makes a buffer smaller.\<close>

theorem adjust_keeps_bytes:
  assumes "chan_bufs_ok c"
  shows "chan_bufs_ok (adjust_buffers os mode max_buffer junk c)
    \<and> buf_bytes (ch_in_source (adjust_buffers os mode max_buffer junk c)) = buf_bytes (ch_in_source c)
    \<and> buf_bytes (ch_in_target (adjust_buffers os mode max_buffer junk c)) = buf_bytes (ch_in_target c)
    \<and> bf_size (ch_in_source c) \<le> bf_size (ch_in_source (adjust_buffers os mode max_buffer junk c))
    \<and> bf_size (ch_in_target c) \<le> bf_size (ch_in_target (adjust_buffers os mode max_buffer junk c))"
  using adjust_buffers_ok [OF assms] assms
  by (simp add: adjust_buffers_def chan_bufs_ok_def buf_grow_facts(3))

theorem adjust_keeps_bytes_witness:
  "chan_bufs_ok (adjust_buffers sample_os MODE_MAXBUF 131072 (\<lambda>i. 7) sample_channel)"
  using adjust_keeps_bytes [of sample_channel] by (simp add: chan_bufs_ok_def sample_channel_def)


section \<open>Threads\<close>

text \<open>C37.  In every state the read-write mutex can get into, a thread that was let in for writing is
  alone until it ends: whatever the other threads try, and however the thread itself reads and
  writes again meanwhile, no other thread reads, and none can begin to read or write; and the end
  of its outermost write leaves the mutex as it was.\<close>

theorem rwmutex_exclusion:
  assumes "rw_reach s" "try_write t s = Some (True, s1)" "write_scope t s1 n s2" "other \<noteq> t"
  shows "other \<notin> set (rw_readers s2) \<and> begin_read other s2 = None \<and> try_write other s2 = None
    \<and> (n = 0 \<longrightarrow> rw_mutex (end_write t s2) = rw_mutex s)"
  using writer_scope [OF assms] by blast

theorem rwmutex_exclusion_witness:
  "\<exists>s1 s2. try_write 1 new_rwmutex = Some (True, s1) \<and> rw_step s1 2 End_write s2 \<and> begin_read 3 s2 = None"
proof -
  let ?s = "new_rwmutex\<lparr>rw_write := True, rw_mutex := \<lparr>mx_owner = Some 1, mx_count = 1\<rparr>\<rparr>"
  have t: "try_write 1 new_rwmutex = Some (True, ?s)" by (simp add: try_write_def new_rwmutex_def mutex_lock_def)
  have e: "rw_step ?s 2 End_write (end_write 2 ?s)" by (rule step_end_write)
  have "write_scope 1 ?s 0 (end_write 2 ?s)" by (rule ws_other [OF ws_start e]) simp
  from rwmutex_exclusion [OF reach_init t this, of 3] t e show ?thesis by auto
qed

text \<open>C38.  Waiting for a thread returns after at most one nap for every 25 milliseconds of the timeout,
  whatever the thread does, when the timeout is a multiple of 25.  With any other timeout the
  unsigned counter steps over zero: for a thread that keeps running, no number of naps up to
  \<open>(t + 2 ^ 64) div 25\<close> ends the wait.  \<open>stop_info_tracker\<close> waits with a timeout of 60.\<close>

theorem wait_for_wraps:
  "(25 * m < 2 ^ 64 \<longrightarrow> (\<exists>rc th'. wait_for (m + 1) running (word_of_nat (25 * m)) th = Some (rc, th')))
   \<and> (t mod 25 \<noteq> 0 \<and> t < 2 ^ 64 \<and> \<not> th_waiting th \<and> 25 * n \<le> t + 2 ^ 64 \<longrightarrow>
        wait_for n (\<lambda>k. True) (word_of_nat t) th = None)"
  using wait_loop_multiple [of m running 0] wait_loop_wraps [of t 0 n 0] by (auto simp: wait_for_def)

theorem wait_for_wraps_witness:
  "(\<exists>rc th'. wait_for 2401 (\<lambda>k. True) 60000 new_thread = Some (rc, th')) \<and> wait_for (2 ^ 59) (\<lambda>k. True) 60 new_thread = None"
proof -
  have "wait_for (2 ^ 59) (\<lambda>k. True) (word_of_nat 60) new_thread = None"
    using wait_for_wraps [of 0 "\<lambda>k. True" new_thread 60 "2 ^ 59"] by (simp add: new_thread_def)
  moreover have "\<exists>rc th'. wait_for 2401 (\<lambda>k. True) (word_of_nat 60000) new_thread = Some (rc, th')"
    using wait_for_wraps [of 2400 "\<lambda>k. True" new_thread 0 0] by simp
  ultimately show ?thesis by (simp only: of_nat_numeral)
qed
section \<open>The process\<close>

text \<open>C39.  While a daemon runs, a second one with the same pid file does not start: the pid the first
  wrote is the pid the second reads.\<close>

theorem single_daemon:
  assumes "g_daemon_mode g = DAEMON_FULL" "nrdpx_create_daemon alive 0 child True writable g fs = Go_on g' fs'"
    "in_int_range child" "child \<noteq> NRD_NOPID" "alive child"
    "g_daemon_mode g2 = DAEMON_FULL" "g_pid_path g2 = g_pid_path g"
  shows "nrdpx_create_daemon alive fork2 child2 setsid2 writable g2 fs' = Exit_failed"
  by (rule daemon_second_start [OF assms])

theorem single_daemon_witness:
  "\<exists>g' fs'. nrdpx_create_daemon (\<lambda>p. True) 0 4711 True (\<lambda>f. True) ((process_init 1)\<lparr>g_daemon_mode := DAEMON_FULL\<rparr>) Map.empty = Go_on g' fs'
     \<and> nrdpx_create_daemon (\<lambda>p. True) 0 4712 True (\<lambda>f. True) ((process_init 2)\<lparr>g_daemon_mode := DAEMON_FULL\<rparr>) fs' = Exit_failed"
proof -
  obtain g' fs' where g: "nrdpx_create_daemon (\<lambda>p. True) 0 4711 True (\<lambda>f. True)
      ((process_init 1)\<lparr>g_daemon_mode := DAEMON_FULL\<rparr>) Map.empty = Go_on g' fs'"
    by (simp add: nrdpx_create_daemon_def process_init_def nrdpx_find_pid_def nrdpx_retain_pid_def NRD_NOPID_def Let_def)
  from single_daemon [OF _ g, of "(process_init 2)\<lparr>g_daemon_mode := DAEMON_FULL\<rparr>" 0 4712 True] g show ?thesis
    by (auto simp: process_init_def in_int_range_def int_min_def int_max_def NRD_NOPID_def)
qed

text \<open>C40.  The log file is rotated when it has more than 10 MB: the shell compresses it and truncates
  it while the program keeps it open.  When the program appends to it, the next line is all it
  holds; when it does not (without the option \<open>-la\<close>), the next line is written where the last one
  ended, so that the file is again as long as before and is rotated again at the next hour.\<close>

theorem log_rotation_repeats:
  assumes "g_log_out g AND NRDPX_LOG_OUT_FILE \<noteq> 0" "g_log_path g \<noteq> []" "tmch < tm" "tm + 3600 < tm'"
    "10485760 < length (lf_data f)" "lf_pos f = length (lf_data f)"
    "log_rotated g True tm (tmch, f) = (tmch1, f1)" "f2 = log_put line f1"
  shows "lf_data f1 = []
    \<and> (if lf_append f then lf_data f2 = line
       else length (lf_data f2) = length (lf_data f) + length line
         \<and> log_rotated g True tm' (tmch1, f2) = (tm' + 3600, f2\<lparr>lf_data := []\<rparr>))"
proof -
  have f1: "tmch1 = tm + 3600" "f1 = f\<lparr>lf_data := []\<rparr>" using log_rotated_big [OF assms(1-3,5)] assms(7) by simp_all
  have "length (lf_data f2) = length (lf_data f) + length line" if "\<not> lf_append f"
    using log_put_grown [OF that, of line] assms(6,8) f1 by simp
  moreover from this have "log_rotated g True tm' (tmch1, f2) = (tm' + 3600, f2\<lparr>lf_data := []\<rparr>)" if "\<not> lf_append f"
    using log_rotated_big [OF assms(1,2), of tmch1 tm' f2] assms(4,5) f1 that by simp
  ultimately show ?thesis using log_put_appended [of f line] assms(8) f1 by simp
qed

theorem log_rotation_repeats_witness:
  "\<exists>f2. log_rotated ((process_init 1)\<lparr>g_log_out := 1\<rparr>) True 20000
       (13600, f2) = (23600, f2\<lparr>lf_data := []\<rparr>) \<and> length (lf_data f2) = 10485763"
proof -
  let ?g = "(process_init 1)\<lparr>g_log_out := 1\<rparr>"
  let ?f = "\<lparr>lf_data = replicate 10485761 (CHR ''x''), lf_append = False, lf_pos = 10485761\<rparr>"
  have g: "g_log_out ?g AND NRDPX_LOG_OUT_FILE \<noteq> 0" "g_log_path ?g \<noteq> []"
    by (simp_all add: process_init_def NRDPX_LOG_OUT_FILE_def)
  have "10485760 < length (lf_data ?f)" "lf_pos ?f = length (lf_data ?f)" "(0 :: int) < 10000"
    by (simp_all add: length_replicate)
  note f = this
  have r: "log_rotated ?g True 10000 (0, ?f) = (13600, ?f\<lparr>lf_data := []\<rparr>)"
    using log_rotated_big [OF g f(3,1)] by simp
  from log_rotation_repeats [OF g f(3) _ f(1,2) r refl, of 20000 "''ab''"] show ?thesis
    by (intro exI [of _ "log_put ''ab'' (?f\<lparr>lf_data := []\<rparr>)"]) (simp only: log_file.simps if_False length_replicate, simp)
qed

end
